(* ===== verification/EF_Prelude.thy ===== *)
theory EF_Prelude
  imports Complex_Main "HOL-Library.AList" "HOL-Library.Multiset"
begin

text \<open>
  Shared vocabulary of the development: Python exceptions as values, the computations of the
  program as functions from a state to an outcome and a new state (with the combinators for
  sequencing, \<open>try/except\<close>, \<open>try/finally\<close> and \<open>for\<close> loops), Python dictionaries as
  insertion-ordered association lists, and the generic lemmas the components share.
\<close>

section \<open>Exceptions\<close>

text \<open>
  A Python exception is its class name and its \<open>str(e)\<close>. \<open>except Exception\<close> catches the first
  constructor only; \<open>KeyboardInterrupt\<close>, \<open>SystemExit\<close> and their kin are the second.
\<close>

datatype pyexn =
    Exception (exn_type: string) (exn_str: string)
  | BaseException (exn_type: string) (exn_str: string)

definition is_Exc :: "pyexn \<Rightarrow> bool" where
  "is_Exc e = (case e of Exception _ _ \<Rightarrow> True | BaseException _ _ \<Rightarrow> False)"

lemma is_Exc_simps [simp]:
  "is_Exc (Exception t m)" "\<not> is_Exc (BaseException t m)"
  by (simp_all add: is_Exc_def)

section \<open>Computations\<close>

text \<open>
  A statement of the program reads and writes a state and either raises (\<open>Inl\<close>) or returns
  (\<open>Inr\<close>). Effects made before a raise stay, as in Python.
\<close>

type_synonym ('s, 'a) py = "'s \<Rightarrow> (pyexn + 'a) \<times> 's"

named_theorems py_simps \<open>unfolding of the computation combinators\<close>
named_theorems component_defs \<open>definitions of the operations of a component\<close>

definition py_ret :: "'a \<Rightarrow> ('s, 'a) py" where
  [py_simps]: "py_ret x = (\<lambda>s. (Inr x, s))"

definition py_raise :: "pyexn \<Rightarrow> ('s, 'a) py" where
  [py_simps]: "py_raise e = (\<lambda>s. (Inl e, s))"

definition py_gets :: "('s \<Rightarrow> 'a) \<Rightarrow> ('s, 'a) py" where
  [py_simps]: "py_gets f = (\<lambda>s. (Inr (f s), s))"

definition py_modify :: "('s \<Rightarrow> 's) \<Rightarrow> ('s, unit) py" where
  [py_simps]: "py_modify f = (\<lambda>s. (Inr (), f s))"

definition py_bind :: "('s, 'a) py \<Rightarrow> ('a \<Rightarrow> ('s, 'b) py) \<Rightarrow> ('s, 'b) py" where
  "py_bind m f = (\<lambda>s. case m s of (Inl e, s') \<Rightarrow> (Inl e, s') | (Inr x, s') \<Rightarrow> f x s')"

definition py_seq :: "('s, 'a) py \<Rightarrow> ('s, 'b) py \<Rightarrow> ('s, 'b) py" where
  [py_simps]: "py_seq m k = py_bind m (\<lambda>_. k)"

text \<open>\<open>try: m except Exception as e: h(e)\<close>.\<close>

definition py_except :: "('s, 'a) py \<Rightarrow> (pyexn \<Rightarrow> ('s, 'a) py) \<Rightarrow> ('s, 'a) py" where
  "py_except m h = (\<lambda>s. case m s of
       (Inl e, s') \<Rightarrow> if is_Exc e then h e s' else (Inl e, s')
     | (Inr x, s') \<Rightarrow> (Inr x, s'))"

text \<open>\<open>try: m finally: k\<close>: an exception raised by \<open>k\<close> replaces the outcome of \<open>m\<close>.\<close>

definition py_finally :: "('s, 'a) py \<Rightarrow> ('s, unit) py \<Rightarrow> ('s, 'a) py" where
  "py_finally m k = (\<lambda>s. case m s of (r, s') \<Rightarrow>
     (case k s' of (Inl e, s'') \<Rightarrow> (Inl e, s'') | (Inr _, s'') \<Rightarrow> (r, s'')))"

fun py_for :: "('x \<Rightarrow> ('s, unit) py) \<Rightarrow> 'x list \<Rightarrow> ('s, unit) py" where
  "py_for f [] s = (Inr (), s)"
| "py_for f (x # xs) s =
     (case f x s of (Inl e, s') \<Rightarrow> (Inl e, s') | (Inr _, s') \<Rightarrow> py_for f xs s')"

text \<open>A list comprehension \<open>[f(x) for x in xs]\<close>.\<close>

fun py_map :: "('x \<Rightarrow> ('s, 'y) py) \<Rightarrow> 'x list \<Rightarrow> ('s, 'y list) py" where
  "py_map f [] s = (Inr [], s)"
| "py_map f (x # xs) s =
     (case f x s of (Inl e, s') \<Rightarrow> (Inl e, s')
      | (Inr y, s') \<Rightarrow>
          (case py_map f xs s' of (Inl e, s'') \<Rightarrow> (Inl e, s'') | (Inr ys, s'') \<Rightarrow> (Inr (y # ys), s'')))"

text \<open>An expression statement: the value is dropped.\<close>

definition py_void :: "('s, 'a) py \<Rightarrow> ('s, unit) py" where
  [py_simps]: "py_void m = py_bind m (\<lambda>_. py_ret ())"

text \<open>\<open>try: m except Exception: pass\<close> (or a log line only).\<close>

definition py_suppress :: "('s, unit) py \<Rightarrow> ('s, unit) py" where
  [py_simps]: "py_suppress m = py_except m (\<lambda>_. py_ret ())"

subsection \<open>Laws of the combinators\<close>

lemma py_bind_apply [py_simps]:
  "py_bind m f s = (case m s of (Inl e, s') \<Rightarrow> (Inl e, s') | (Inr x, s') \<Rightarrow> f x s')"
  by (simp add: py_bind_def)

lemma py_except_apply [py_simps]:
  "py_except m h s = (case m s of
       (Inl e, s') \<Rightarrow> if is_Exc e then h e s' else (Inl e, s')
     | (Inr x, s') \<Rightarrow> (Inr x, s'))"
  by (simp add: py_except_def)

lemma py_finally_apply [py_simps]:
  "py_finally m k s = (case m s of (r, s') \<Rightarrow>
     (case k s' of (Inl e, s'') \<Rightarrow> (Inl e, s'') | (Inr _, s'') \<Rightarrow> (r, s'')))"
  by (simp add: py_finally_def)

lemma py_for_append:
  "py_for f (xs @ ys) s =
     (case py_for f xs s of (Inl e, s') \<Rightarrow> (Inl e, s') | (Inr _, s') \<Rightarrow> py_for f ys s')"
  by (induction xs arbitrary: s) (auto split: prod.split sum.split)

text \<open>A loop whose body never raises runs its body over every element, in order.\<close>

lemma py_for_total:
  assumes "\<And>x s. x \<in> set xs \<Longrightarrow> f x s = (Inr (), g x s)"
  shows "py_for f xs s = (Inr (), fold g xs s)"
  using assms by (induction xs arbitrary: s) auto

lemma py_for_total_inv:
  assumes "\<And>x s. x \<in> set xs \<Longrightarrow> I s \<Longrightarrow> f x s = (Inr (), g x s) \<and> I (g x s)" and "I s"
  shows "py_for f xs s = (Inr (), fold g xs s) \<and> I (fold g xs s)"
  using assms by (induction xs arbitrary: s) auto

lemma py_for_inv:
  assumes "\<And>x s. x \<in> set xs \<Longrightarrow> I s \<Longrightarrow> I (snd (f x s))" and "I s"
  shows "I (snd (py_for f xs s))"
  using assms
proof (induction xs arbitrary: s)
  case Nil
  then show ?case by simp
next
  case (Cons x xs)
  obtain r s' where fx: "f x s = (r, s')" by fastforce
  from Cons.prems(1)[of x s] Cons.prems(2) fx have "I s'" by simp
  with Cons.IH[of s'] Cons.prems(1) have "I (snd (py_for f xs s'))" by simp
  with fx \<open>I s'\<close> show ?case by (cases r) simp_all
qed

text \<open>The first body that raises ends the loop; what ran before it stays.\<close>

lemma py_for_stops:
  assumes "py_for f xs s = (Inr (), s1)" and "f y s1 = (Inl e, s2)"
  shows "py_for f (xs @ y # ys) s = (Inl e, s2)"
  using assms by (simp add: py_for_append)

text \<open>A loop raises exactly when some body does, after the earlier ones have all returned.\<close>

lemma py_for_raises_iff:
  "py_for f xs s = (Inl e, s') \<longleftrightarrow>
     (\<exists>pre x post s1. xs = pre @ x # post \<and> py_for f pre s = (Inr (), s1) \<and> f x s1 = (Inl e, s'))"
  (is "?L \<longleftrightarrow> ?R")
proof
  show "?L \<Longrightarrow> ?R"
  proof (induction xs arbitrary: s)
    case (Cons x xs)
    show ?case
    proof (cases "f x s")
      case (Pair r s0)
      show ?thesis
      proof (cases r)
        case (Inl e0)
        with Pair Cons.prems have "f x s = (Inl e, s')" by simp
        moreover have "x # xs = [] @ x # xs" "py_for f [] s = (Inr (), s)" by simp_all
        ultimately show ?thesis by blast
      next
        case (Inr u)
        with Pair Cons.prems have "py_for f xs s0 = (Inl e, s')" by simp
        then obtain pre y post s1 where
          "xs = pre @ y # post" "py_for f pre s0 = (Inr (), s1)" "f y s1 = (Inl e, s')"
          using Cons.IH by blast
        with Pair Inr have "x # xs = (x # pre) @ y # post" "py_for f (x # pre) s = (Inr (), s1)"
          "f y s1 = (Inl e, s')" by simp_all
        then show ?thesis by blast
      qed
    qed
  qed simp
next
  assume ?R
  then show ?L by (auto intro: py_for_stops)
qed

lemma py_suppress_ok:
  "(\<And>e s'. m s = (Inl e, s') \<Longrightarrow> is_Exc e) \<Longrightarrow> fst (py_suppress m s) = Inr ()"
  by (cases "m s") (auto simp: py_simps split: sum.split)

lemma py_suppress_state: "snd (py_suppress m s) = snd (m s)"
  by (auto simp: py_simps split: prod.split sum.split)

lemma py_void_state: "snd (py_void m s) = snd (m s)"
  by (auto simp: py_simps split: prod.split sum.split)

lemma py_for_ok:
  assumes "\<And>x s. x \<in> set xs \<Longrightarrow> fst (f x s) = Inr ()"
  shows "py_for f xs s = (Inr (), fold (\<lambda>x s. snd (f x s)) xs s)"
  by (rule py_for_total) (metis assms prod.collapse)

lemma py_bind_assoc: "py_bind (py_bind m f) g = py_bind m (\<lambda>x. py_bind (f x) g)"
  by (rule ext) (simp add: py_bind_def split: prod.split sum.split)

subsection \<open>What a computation leaves alone\<close>

text \<open>\<open>py_keeps g m\<close>: running \<open>m\<close> never changes the part \<open>g\<close> of the state, whether it returns or raises.\<close>

definition py_keeps :: "('s \<Rightarrow> 'x) \<Rightarrow> ('s, 'a) py \<Rightarrow> bool" where
  "py_keeps g m \<longleftrightarrow> (\<forall>s. g (snd (m s)) = g s)"

named_theorems keeps \<open>rules for \<open>py_keeps\<close>\<close>

lemma py_keepsD: "py_keeps g m \<Longrightarrow> m s = (r, s') \<Longrightarrow> g s' = g s"
  by (metis py_keeps_def snd_conv)

lemma py_keeps_ret [keeps]: "py_keeps g (py_ret x)"
  and py_keeps_raise [keeps]: "py_keeps g (py_raise e)"
  and py_keeps_gets [keeps]: "py_keeps g (py_gets f)"
  by (simp_all add: py_keeps_def py_simps)

lemma py_keeps_modify [keeps]: "(\<And>s. g (f s) = g s) \<Longrightarrow> py_keeps g (py_modify f)"
  by (simp add: py_keeps_def py_simps)

lemma py_keeps_bind [keeps]: "py_keeps g m \<Longrightarrow> (\<And>x. py_keeps g (f x)) \<Longrightarrow> py_keeps g (py_bind m f)"
  by (auto simp: py_keeps_def py_bind_apply split: prod.split sum.split) (metis snd_conv)+

lemma py_keeps_seq [keeps]: "py_keeps g m \<Longrightarrow> py_keeps g k \<Longrightarrow> py_keeps g (py_seq m k)"
  by (simp add: py_seq_def py_keeps_bind)

lemma py_keeps_void [keeps]: "py_keeps g m \<Longrightarrow> py_keeps g (py_void m)"
  by (simp add: py_void_def py_keeps_bind py_keeps_ret)

lemma py_keeps_except [keeps]: "py_keeps g m \<Longrightarrow> (\<And>e. py_keeps g (h e)) \<Longrightarrow> py_keeps g (py_except m h)"
  by (auto simp: py_keeps_def py_except_apply split: prod.split sum.split) (metis snd_conv)+

lemma py_keeps_suppress [keeps]: "py_keeps g m \<Longrightarrow> py_keeps g (py_suppress m)"
  by (simp add: py_suppress_def py_keeps_except py_keeps_ret)

lemma py_keeps_finally [keeps]: "py_keeps g m \<Longrightarrow> py_keeps g k \<Longrightarrow> py_keeps g (py_finally m k)"
  by (auto simp: py_keeps_def py_finally_apply split: prod.split sum.split) (metis snd_conv)+

lemma py_keeps_for [keeps]: "(\<And>x. py_keeps g (f x)) \<Longrightarrow> py_keeps g (py_for f xs)"
proof -
  assume f: "\<And>x. py_keeps g (f x)"
  show "py_keeps g (py_for f xs)"
    unfolding py_keeps_def
  proof
    show "g (snd (py_for f xs s)) = g s" for s
      by (rule py_for_inv[where I = "\<lambda>s'. g s' = g s"]) (use f in \<open>simp_all add: py_keeps_def\<close>)
  qed
qed

lemma py_keeps_map [keeps]: "(\<And>x. py_keeps g (f x)) \<Longrightarrow> py_keeps g (py_map f xs)"
proof -
  assume f: "\<And>x. py_keeps g (f x)"
  have "g (snd (py_map f xs s)) = g s" for s
  proof (induction xs arbitrary: s)
    case (Cons x xs)
    obtain r s1 where fx: "f x s = (r, s1)" by fastforce
    have "g s1 = g s" using py_keepsD[OF f fx] .
    with Cons[of s1] fx show ?case by (auto split: sum.split prod.split)
  qed simp
  then show ?thesis by (simp add: py_keeps_def)
qed

section \<open>Dictionaries\<close>

text \<open>
  A dict is an association list in insertion order: \<open>AList.update\<close> overwrites in place and
  appends a new key, as Python does; \<open>AList.delete\<close> is \<open>del\<close> and \<open>pop\<close>; \<open>map_of\<close> is \<open>get\<close>.
\<close>

type_synonym ('k, 'v) dict = "('k \<times> 'v) list"

abbreviation dict_get :: "('k, 'v) dict \<Rightarrow> 'k \<Rightarrow> 'v option" where
  "dict_get \<equiv> map_of"

abbreviation dict_set :: "'k \<Rightarrow> 'v \<Rightarrow> ('k, 'v) dict \<Rightarrow> ('k, 'v) dict" where
  "dict_set \<equiv> AList.update"

abbreviation dict_del :: "'k \<Rightarrow> ('k, 'v) dict \<Rightarrow> ('k, 'v) dict" where
  "dict_del \<equiv> AList.delete"

abbreviation dict_ok :: "('k, 'v) dict \<Rightarrow> bool" where
  "dict_ok d \<equiv> distinct (map fst d)"

definition dict_get_default :: "('k, 'v) dict \<Rightarrow> 'k \<Rightarrow> 'v \<Rightarrow> 'v" where
  "dict_get_default d k v = (case dict_get d k of None \<Rightarrow> v | Some x \<Rightarrow> x)"

text \<open>\<open>{**a, **b}\<close> and \<open>{**a, "k": v}\<close>.\<close>

definition dict_merge :: "('k, 'v) dict \<Rightarrow> ('k, 'v) dict \<Rightarrow> ('k, 'v) dict" where
  "dict_merge a b = fold (\<lambda>(k, v). dict_set k v) b a"

lemma dict_get_set [simp]:
  "dict_get (dict_set k v d) k' = (if k' = k then Some v else dict_get d k')"
  by (simp add: update_conv')

lemma dict_get_del [simp]:
  "dict_get (dict_del k d) k' = (if k' = k then None else dict_get d k')"
  by (simp add: delete_conv')

lemma dict_set_fresh: "dict_get d k = None \<Longrightarrow> dict_set k v d = d @ [(k, v)]"
  by (induction d) (auto split: if_splits)

lemma dict_ok_set [simp]: "dict_ok d \<Longrightarrow> dict_ok (dict_set k v d)"
  by (rule distinct_update)

lemma dict_ok_del [simp]: "dict_ok d \<Longrightarrow> dict_ok (dict_del k d)"
  by (rule distinct_delete)

lemma dict_del_absent: "dict_get d k = None \<Longrightarrow> dict_del k d = d"
  by (induction d) (auto split: if_splits)

lemma dict_get_default_set [simp]:
  "dict_get_default (dict_set k v d) k' w = (if k' = k then v else dict_get_default d k' w)"
  by (simp add: dict_get_default_def)

lemma dict_get_default_Nil [simp]: "dict_get_default [] k v = v"
  by (simp add: dict_get_default_def)

lemma dict_get_in: "dict_ok d \<Longrightarrow> (k, v) \<in> set d \<longleftrightarrow> dict_get d k = Some v"
  by (simp add: map_of_eq_Some_iff)

lemma dict_del_set_other: "k \<noteq> k' \<Longrightarrow> dict_del k (dict_set k' v d) = dict_set k' v (dict_del k d)"
  by (induction d) auto

lemma dict_get_merge:
  "dict_ok b \<Longrightarrow>
     dict_get (dict_merge a b) k = (case dict_get b k of Some v \<Rightarrow> Some v | None \<Rightarrow> dict_get a k)"
proof (induction b arbitrary: a)
  case Nil
  then show ?case by (simp add: dict_merge_def)
next
  case (Cons kv b)
  obtain k0 v0 where kv: "kv = (k0, v0)" by fastforce
  from Cons.prems kv have fresh: "dict_get b k0 = None"
    by (auto simp: map_of_eq_None_iff)
  have "dict_get (dict_merge a (kv # b)) k = dict_get (dict_merge (dict_set k0 v0 a) b) k"
    by (simp add: dict_merge_def kv)
  also have "\<dots> = (case dict_get b k of Some v \<Rightarrow> Some v | None \<Rightarrow> dict_get (dict_set k0 v0 a) k)"
    using Cons by simp
  finally show ?case using fresh kv by (auto split: option.split)
qed

section \<open>Text\<close>

text \<open>\<open>str(n)\<close> in f-strings, and the quote characters.\<close>

fun str_of_nat :: "nat \<Rightarrow> string" where
  "str_of_nat n = (if n < 10 then [char_of (48 + n)] else str_of_nat (n div 10) @ [char_of (48 + n mod 10)])"

declare str_of_nat.simps [simp del]

definition str_of_int :: "int \<Rightarrow> string" where
  "str_of_int i = (if i < 0 then ''-'' @ str_of_nat (nat (- i)) else str_of_nat (nat i))"

abbreviation squote :: string where
  "squote \<equiv> [char_of (39 :: nat)]"

text \<open>\<open>repr\<close> of a text of printable ASCII characters.\<close>

definition py_repr :: "string \<Rightarrow> string" where
  "py_repr s =
     (let single = char_of (39 :: nat); double = char_of (34 :: nat); backslash = char_of (92 :: nat);
          q = (if single \<in> set s \<and> double \<notin> set s then double else single)
      in [q] @ concat (map (\<lambda>c. if c = q \<or> c = backslash then [backslash, c] else [c]) s) @ [q])"

section \<open>Lists\<close>

lemma ex_append_Nil: "(\<exists>a b. [] = a @ b \<and> P a b) \<longleftrightarrow> P [] []"
  by auto

lemma ex_append_Cons:
  "(\<exists>a b. c # s = a @ b \<and> P a b) \<longleftrightarrow> P [] (c # s) \<or> (\<exists>a b. s = a @ b \<and> P (c # a) b)"
  (is "?L \<longleftrightarrow> ?R")
proof
  assume ?L
  then obtain a b where ab: "c # s = a @ b" "P a b" by blast
  then show ?R by (cases a) auto
next
  assume ?R
  then show ?L by (metis append_Cons append_Nil)
qed

lemma sum_list_filter_mset_perm:
  "mset xs = mset ys \<Longrightarrow> sum_list (map f xs) = (sum_list (map f ys) :: nat)"
  by (metis mset_map sum_mset_sum_list)

end
