(* ===== verification/EF_Types.thy ===== *)
theory EF_Types
  imports EF_Prelude
begin

text \<open>
  The data model of \<open>src/eventforge/types.py\<close>: dynamically typed payloads, messages, task and RPC
  records, the task status enumeration, the lock-protected \<open>SharedState\<close> store and the task
  context. \<open>datetime\<close> is an integer (microseconds since the epoch), \<open>float\<close> is a real number
  (rounding is not modelled) and an exception object stored in a field is a \<open>pyexn\<close>.
\<close>

section \<open>Python values\<close>

datatype pyval =
    PNone
  | PBool bool
  | PInt int
  | PFloat real
  | PStr string
  | PList "pyval list"
  | PTuple "pyval list"
  | PDict "(string \<times> pyval) list"

text \<open>Truth value testing (\<open>if x\<close>, \<open>x or y\<close>).\<close>

fun py_truth :: "pyval \<Rightarrow> bool" where
  "py_truth PNone = False"
| "py_truth (PBool b) = b"
| "py_truth (PInt i) = (i \<noteq> 0)"
| "py_truth (PFloat x) = (x \<noteq> 0)"
| "py_truth (PStr s) = (s \<noteq> [])"
| "py_truth (PList xs) = (xs \<noteq> [])"
| "py_truth (PTuple xs) = (xs \<noteq> [])"
| "py_truth (PDict d) = (d \<noteq> [])"

definition py_opt_str :: "string option \<Rightarrow> pyval" where
  "py_opt_str x = (case x of None \<Rightarrow> PNone | Some s \<Rightarrow> PStr s)"

type_synonym kwargs = "(string, pyval) dict"

section \<open>Task status\<close>

datatype task_status = PENDING | RUNNING | COMPLETED | FAILED | CANCELLED

fun status_value :: "task_status \<Rightarrow> string" where
  "status_value PENDING = ''pending''"
| "status_value RUNNING = ''running''"
| "status_value COMPLETED = ''completed''"
| "status_value FAILED = ''failed''"
| "status_value CANCELLED = ''cancelled''"

text \<open>\<open>TaskStatus(v)\<close>: the member with that value, else \<open>ValueError\<close>.\<close>

definition status_of_value :: "string \<Rightarrow> pyexn + task_status" where
  "status_of_value v =
     (if v = ''pending'' then Inr PENDING
      else if v = ''running'' then Inr RUNNING
      else if v = ''completed'' then Inr COMPLETED
      else if v = ''failed'' then Inr FAILED
      else if v = ''cancelled'' then Inr CANCELLED
      else Inl (Exception ''ValueError'' (py_repr v @ '' is not a valid TaskStatus'')))"

lemma status_of_value_value [simp]: "status_of_value (status_value st) = Inr st"
  by (cases st) (simp_all add: status_of_value_def)

lemma status_of_value_Inr: "status_of_value v = Inr st \<Longrightarrow> v = status_value st"
  by (auto simp: status_of_value_def split: if_splits)

section \<open>Records\<close>

record message =
  m_id :: string
  m_topic :: string
  m_payload :: pyval
  m_headers :: kwargs
  m_timestamp :: int
  m_reply_to :: "string option"
  m_correlation_id :: "string option"

record task_request =
  tq_id :: string
  tq_func_name :: string
  tq_args :: pyval
  tq_kwargs :: kwargs
  tq_priority :: int
  tq_timeout :: "real option"

record task_result =
  tr_task_id :: string
  tr_status :: task_status
  tr_value :: pyval
  tr_error :: "string option"
  tr_error_type :: "string option"
  tr_execution_time :: real
  tr_worker_id :: string

definition tr_is_success :: "task_result \<Rightarrow> bool" where
  "tr_is_success r = (tr_status r = COMPLETED)"

definition tr_is_failure :: "task_result \<Rightarrow> bool" where
  "tr_is_failure r = (tr_status r = FAILED)"

record rpc_request =
  rq_id :: string
  rq_method :: string
  rq_args :: "pyval list"
  rq_kwargs :: kwargs
  rq_timeout :: "real option"

record rpc_response =
  rs_id :: string
  rs_request_id :: string
  rs_result :: pyval
  rs_error :: "string option"
  rs_error_type :: "string option"

definition rs_is_success :: "rpc_response \<Rightarrow> bool" where
  "rs_is_success r = (rs_error r = None)"

text \<open>The \<open>mode="before"\<close> validator of the \<open>args\<close> fields: a list becomes a tuple.\<close>

definition convert_args :: "pyval \<Rightarrow> pyval" where
  "convert_args v = (case v of PList xs \<Rightarrow> PTuple xs | _ \<Rightarrow> v)"

lemma convert_args_idem [simp]: "convert_args (convert_args v) = convert_args v"
  by (cases v) (simp_all add: convert_args_def)

lemma convert_args_no_list: "convert_args v \<noteq> PList xs"
  by (cases v) (simp_all add: convert_args_def)

record subscription =
  sb_id :: string
  sb_topic :: string
  sb_pattern :: bool

section \<open>SharedState\<close>

text \<open>
  Every method holds the re-entrant lock for its whole body, so a method is one step. The state
  is the dictionary \<open>_data\<close> beside whatever else the program has (\<open>'w\<close>): the function passed to
  \<open>update\<close> runs under the lock and may itself use the store.
\<close>

type_synonym shared_state = "(string, pyval) dict"

definition ss_init :: shared_state where
  "ss_init = []"

definition ss_get :: "string \<Rightarrow> pyval \<Rightarrow> (shared_state \<times> 'w, pyval) py" where
  [component_defs]: "ss_get key dflt = py_gets (\<lambda>(d, w). dict_get_default d key dflt)"

definition ss_set :: "string \<Rightarrow> pyval \<Rightarrow> (shared_state \<times> 'w, unit) py" where
  [component_defs]: "ss_set key v = py_modify (\<lambda>(d, w). (dict_set key v d, w))"

definition ss_update ::
  "string \<Rightarrow> (pyval \<Rightarrow> (shared_state \<times> 'w, pyval) py) \<Rightarrow> (shared_state \<times> 'w, pyval) py" where
  [component_defs]: "ss_update key func =
     py_bind (ss_get key PNone) (\<lambda>old.
     py_bind (func old) (\<lambda>new.
     py_seq (ss_set key new) (py_ret new)))"

definition ss_delete :: "string \<Rightarrow> (shared_state \<times> 'w, bool) py" where
  [component_defs]: "ss_delete key = (\<lambda>(d, w).
     if dict_get d key \<noteq> None then (Inr True, (dict_del key d, w)) else (Inr False, (d, w)))"

definition ss_clear :: "(shared_state \<times> 'w, unit) py" where
  [component_defs]: "ss_clear = py_modify (\<lambda>(d, w). ([], w))"

definition ss_items :: "(shared_state \<times> 'w, shared_state) py" where
  [component_defs]: "ss_items = py_gets fst"

definition ss_contains :: "string \<Rightarrow> (shared_state \<times> 'w, bool) py" where
  [component_defs]: "ss_contains key = py_gets (\<lambda>(d, w). dict_get d key \<noteq> None)"

section \<open>Task context\<close>

text \<open>
  The references to the executor and to the \<open>SharedState\<close> of the runner are not fields: the library stores them in
  the context and reads neither back.
\<close>

record task_context =
  tc_task_id :: string
  tc_func_name :: string
  tc_topic :: "string option"
  tc_args :: "pyval list"
  tc_kwargs :: kwargs
  tc_start_time :: real
  tc_end_time :: real
  tc_result :: pyval
  tc_error :: "pyexn option"
  tc_metadata :: kwargs

definition tc_execution_time :: "task_context \<Rightarrow> real" where
  "tc_execution_time c = tc_end_time c - tc_start_time c"

definition tc_is_success :: "task_context \<Rightarrow> bool" where
  "tc_is_success c = (tc_error c = None)"

definition tc_is_failure :: "task_context \<Rightarrow> bool" where
  "tc_is_failure c = (tc_error c \<noteq> None)"

section \<open>Laws of the store\<close>

text \<open>
  The contract of a keyed store with an atomic read-modify-write, and what follows for a run of
  updates by any number of threads: each key sees exactly its own updates, in the order in which
  they took the lock.
\<close>

locale keyed_store =
  fixes lookup :: "'st \<Rightarrow> 'k \<Rightarrow> 'v option"
    and upd :: "'k \<Rightarrow> ('v option \<Rightarrow> 'v) \<Rightarrow> 'st \<Rightarrow> 'st"
  assumes lookup_upd: "lookup (upd k f s) k' = (if k' = k then Some (f (lookup s k)) else lookup s k')"
begin

lemma lookup_fold:
  "lookup (fold (\<lambda>(k, f). upd k f) ops s) k =
     fold (\<lambda>(_, f) v. Some (f v)) (filter (\<lambda>(k', _). k' = k) ops) (lookup s k)"
  by (induction ops arbitrary: s) (auto simp: lookup_upd)

lemma lookup_fold_other:
  "k \<notin> fst ` set ops \<Longrightarrow> lookup (fold (\<lambda>(k, f). upd k f) ops s) k = lookup s k"
  by (induction ops arbitrary: s) (auto simp: lookup_upd)

end

definition ss_update_pure :: "string \<Rightarrow> (pyval option \<Rightarrow> pyval) \<Rightarrow> shared_state \<Rightarrow> shared_state" where
  "ss_update_pure key f d = dict_set key (f (dict_get d key)) d"

interpretation shared: keyed_store "dict_get :: shared_state \<Rightarrow> string \<Rightarrow> pyval option" ss_update_pure
  by unfold_locales (simp add: ss_update_pure_def)

definition or_None :: "pyval option \<Rightarrow> pyval" where
  "or_None v = (case v of None \<Rightarrow> PNone | Some x \<Rightarrow> x)"

lemma or_None_simps [simp]: "or_None None = PNone" "or_None (Some v) = v"
  by (simp_all add: or_None_def)

definition ss_updates :: "(string \<times> (pyval \<Rightarrow> pyval)) list \<Rightarrow> (shared_state \<times> 'w, unit) py" where
  "ss_updates = py_for (\<lambda>(k, g). py_seq (ss_update k (\<lambda>v. py_ret (g v))) (py_ret ()))"

lemma ss_updates_run:
  "ss_updates ops (d, w) =
     (Inr (), (fold (\<lambda>(k, f). ss_update_pure k f) (map (\<lambda>(k, g). (k, g \<circ> or_None)) ops) d, w))"
proof (induction ops arbitrary: d)
  case Nil
  show ?case by (simp add: ss_updates_def)
next
  case (Cons op ops)
  then show ?case
    by (cases op) (simp add: ss_updates_def py_simps component_defs ss_update_pure_def
        dict_get_default_def or_None_def)
qed

lemma fold_or_None:
  "fold (\<lambda>(_, f) v. Some (f v)) (map (\<lambda>(k, g). (k, g \<circ> or_None)) ops) v =
     (if ops = [] then v else Some (fold (\<lambda>(_, g). g) ops (or_None v)))"
  by (induction ops arbitrary: v) auto

text \<open>
  A run of \<open>update\<close> calls with functions that return normally completes and never loses an
  update: afterwards every key holds its starting value (or \<open>None\<close>) passed through exactly the
  functions applied to that key, in the order in which the calls took the lock, whatever was
  applied to other keys in between; nothing outside the store changes.
\<close>

theorem shared_state_updates_linearize:
  "\<exists>d'. ss_updates ops (d, w) = (Inr (), (d', w)) \<and>
     (\<forall>k. dict_get d' k =
       (let own = filter (\<lambda>(k', _). k' = k) ops in
        if own = [] then dict_get d k
        else Some (fold (\<lambda>(_, g). g) own (dict_get_default d k PNone))))"
proof (intro exI conjI allI)
  let ?d' = "fold (\<lambda>(k, f). ss_update_pure k f) (map (\<lambda>(k, g). (k, g \<circ> or_None)) ops) d"
  show "ss_updates ops (d, w) = (Inr (), (?d', w))"
    by (rule ss_updates_run)
  fix k
  have "filter (\<lambda>(k', _). k' = k) (map (\<lambda>(k, g). (k, g \<circ> or_None)) ops) =
        map (\<lambda>(k, g). (k, g \<circ> or_None)) (filter (\<lambda>(k', _). k' = k) ops)"
    by (induction ops) auto
  then show "dict_get ?d' k =
       (let own = filter (\<lambda>(k', _). k' = k) ops in
        if own = [] then dict_get d k
        else Some (fold (\<lambda>(_, g). g) own (dict_get_default d k PNone)))"
    by (simp add: shared.lookup_fold fold_or_None Let_def dict_get_default_def or_None_def)
qed

end
