(* ===== verification/Subscriptions.thy ===== *)
theory Subscriptions
  imports EF_Types
begin

text \<open>
  The contract of a transport's subscription table (\<open>src/eventforge/transports/base.py\<close>,
  \<open>Transport.subscribe\<close> and \<open>Transport.unsubscribe\<close>): the subscriptions in the order they were made,
  each with its topic pattern. The transports keep it in different ways (a reverse index in memory,
  Redis and NATS, a search through the per-topic lists in TCP); what a message's recipients are, and
  how subscribing and unsubscribing change them, is proved once here.
\<close>

text \<open>The callbacks a message on \<open>topic\<close> reaches, in order.\<close>

definition targets ::
  "(string \<Rightarrow> string \<Rightarrow> bool) \<Rightarrow> (string \<times> 'cb) list \<Rightarrow> (string \<Rightarrow> string option) \<Rightarrow> string \<Rightarrow> 'cb list" where
  "targets matches subs pat topic =
     map snd (filter (\<lambda>(sub_id, _). case pat sub_id of None \<Rightarrow> False | Some p \<Rightarrow> matches topic p) subs)"

lemma targets_Nil [simp]: "targets matches [] pat topic = []"
  by (simp add: targets_def)

lemma targets_append [simp]:
  "targets matches (xs @ ys) pat topic = targets matches xs pat topic @ targets matches ys pat topic"
  by (simp add: targets_def)

lemma targets_cong:
  "(\<And>i. i \<in> fst ` set subs \<Longrightarrow> pat i = pat' i) \<Longrightarrow> targets matches subs pat topic = targets matches subs pat' topic"
  unfolding targets_def by (intro arg_cong[where f = "map snd"] filter_cong) force+

text \<open>The abstract table: a list of subscriptions with their patterns.\<close>

definition sub_list :: "(string \<times> 'cb) list \<Rightarrow> (string \<Rightarrow> string option) \<Rightarrow> (string \<times> string option \<times> 'cb) list" where
  "sub_list subs pat = map (\<lambda>(i, cb). (i, pat i, cb)) subs"

definition recipients :: "(string \<Rightarrow> string \<Rightarrow> bool) \<Rightarrow> (string \<times> string option \<times> 'cb) list \<Rightarrow> string \<Rightarrow> 'cb list" where
  "recipients matches table topic =
     map (\<lambda>(i, p, cb). cb) (filter (\<lambda>(i, p, cb). case p of None \<Rightarrow> False | Some q \<Rightarrow> matches topic q) table)"

lemma sub_list_append [simp]: "sub_list (xs @ ys) pat = sub_list xs pat @ sub_list ys pat"
  by (simp add: sub_list_def)

lemma sub_list_cong: "(\<And>i. i \<in> fst ` set subs \<Longrightarrow> pat i = pat' i) \<Longrightarrow> sub_list subs pat = sub_list subs pat'"
  by (force simp: sub_list_def)

lemma sub_list_filter: "sub_list (filter (\<lambda>(j, _). j \<noteq> i) subs) pat = filter (\<lambda>(j, _). j \<noteq> i) (sub_list subs pat)"
  by (induction subs) (auto simp: sub_list_def)

lemma targets_recipients: "targets matches subs pat topic = recipients matches (sub_list subs pat) topic"
  by (induction subs) (auto simp: targets_def recipients_def sub_list_def)

locale subscription_table =
  fixes subscribe :: "string \<Rightarrow> string \<Rightarrow> 'cb \<Rightarrow> 't \<Rightarrow> 't"
    and unsubscribe :: "string \<Rightarrow> 't \<Rightarrow> 't"
    and subs :: "'t \<Rightarrow> (string \<times> 'cb) list"
    and pattern :: "'t \<Rightarrow> string \<Rightarrow> string option"
    and ok :: "'t \<Rightarrow> bool"
  assumes ok_subscribe: "ok t \<Longrightarrow> i \<notin> fst ` set (subs t) \<Longrightarrow> ok (subscribe i p cb t)"
    and ok_unsubscribe: "ok t \<Longrightarrow> ok (unsubscribe i t)"
    and ids_distinct: "ok t \<Longrightarrow> distinct (map fst (subs t))"
    and subs_subscribe: "ok t \<Longrightarrow> i \<notin> fst ` set (subs t) \<Longrightarrow> subs (subscribe i p cb t) = subs t @ [(i, cb)]"
    and pattern_subscribe:
      "ok t \<Longrightarrow> i \<notin> fst ` set (subs t) \<Longrightarrow>
         pattern (subscribe i p cb t) j = (if j = i then Some p else pattern t j)"
    and subs_unsubscribe: "ok t \<Longrightarrow> subs (unsubscribe i t) = filter (\<lambda>(j, _). j \<noteq> i) (subs t)"
    and pattern_unsubscribe: "ok t \<Longrightarrow> j \<noteq> i \<Longrightarrow> pattern (unsubscribe i t) j = pattern t j"
begin

text \<open>A new subscription adds its callback last, to the matching topics only.\<close>

lemma targets_subscribe:
  assumes "ok t" "i \<notin> fst ` set (subs t)"
  shows "targets m (subs (subscribe i p cb t)) (pattern (subscribe i p cb t)) topic =
    targets m (subs t) (pattern t) topic @ (if m topic p then [cb] else [])"
proof -
  have "targets m (subs t) (pattern (subscribe i p cb t)) topic = targets m (subs t) (pattern t) topic"
    using assms by (intro targets_cong) (auto simp: pattern_subscribe)
  then show ?thesis
    using assms by (simp add: subs_subscribe) (simp add: targets_def pattern_subscribe)
qed

text \<open>Removing a subscription removes its callback and keeps the others, in order.\<close>

lemma targets_unsubscribe:
  assumes "ok t"
  shows "targets m (subs (unsubscribe i t)) (pattern (unsubscribe i t)) topic =
    targets m (filter (\<lambda>(j, _). j \<noteq> i) (subs t)) (pattern t) topic"
  unfolding subs_unsubscribe[OF assms]
  by (rule targets_cong) (auto simp: pattern_unsubscribe[OF assms])

lemma subs_subscribe_unsubscribe:
  assumes "ok t" "i \<notin> fst ` set (subs t)"
  shows "subs (unsubscribe i (subscribe i p cb t)) = subs t"
proof -
  have "\<forall>x \<in> set (subs t). (\<lambda>(j, _). j \<noteq> i) x" using assms(2) by force
  then have "filter (\<lambda>(j, _). j \<noteq> i) (subs t) = subs t" by (simp only: filter_id_conv)
  then show ?thesis using assms by (simp add: subs_unsubscribe ok_subscribe subs_subscribe)
qed

text \<open>Unsubscribing what was just subscribed restores every topic's recipients.\<close>

lemma subscribe_unsubscribe:
  assumes "ok t" "i \<notin> fst ` set (subs t)"
  shows "targets m (subs (unsubscribe i (subscribe i p cb t))) (pattern (unsubscribe i (subscribe i p cb t))) topic =
    targets m (subs t) (pattern t) topic"
  unfolding subs_subscribe_unsubscribe[OF assms]
proof (rule targets_cong)
  fix j assume "j \<in> fst ` set (subs t)"
  with assms(2) have "j \<noteq> i" by auto
  then show "pattern (unsubscribe i (subscribe i p cb t)) j = pattern t j"
    by (simp add: pattern_unsubscribe[OF ok_subscribe[OF assms]] pattern_subscribe[OF assms])
qed

text \<open>
  The table refines a plain list of subscriptions: subscribing appends an entry, unsubscribing filters the
  entry out, and the recipients of a message are the callbacks of the matching entries, in order.
\<close>

lemma refines_list:
  assumes "ok t"
  shows "i \<notin> fst ` set (subs t) \<Longrightarrow>
      sub_list (subs (subscribe i p cb t)) (pattern (subscribe i p cb t)) = sub_list (subs t) (pattern t) @ [(i, Some p, cb)]"
    and "sub_list (subs (unsubscribe i t)) (pattern (unsubscribe i t)) =
      filter (\<lambda>(j, _). j \<noteq> i) (sub_list (subs t) (pattern t))"
proof -
  assume i: "i \<notin> fst ` set (subs t)"
  have "sub_list (subs t) (pattern (subscribe i p cb t)) = sub_list (subs t) (pattern t)"
    using i pattern_subscribe[OF assms i] by (intro sub_list_cong) auto
  then show "sub_list (subs (subscribe i p cb t)) (pattern (subscribe i p cb t)) = sub_list (subs t) (pattern t) @ [(i, Some p, cb)]"
    using pattern_subscribe[OF assms i] by (simp add: subs_subscribe[OF assms i]) (simp add: sub_list_def)
next
  have "sub_list (subs (unsubscribe i t)) (pattern (unsubscribe i t)) = sub_list (filter (\<lambda>(j, _). j \<noteq> i) (subs t)) (pattern t)"
    unfolding subs_unsubscribe[OF assms] by (intro sub_list_cong) (auto simp: pattern_unsubscribe[OF assms])
  also have "\<dots> = filter (\<lambda>(j, _). j \<noteq> i) (sub_list (subs t) (pattern t))"
    by (rule sub_list_filter)
  finally show "sub_list (subs (unsubscribe i t)) (pattern (unsubscribe i t)) =
      filter (\<lambda>(j, _). j \<noteq> i) (sub_list (subs t) (pattern t))" .
qed

lemma gone_after_unsubscribe: "ok t \<Longrightarrow> i \<notin> fst ` set (subs (unsubscribe i t))"
  by (auto simp: subs_unsubscribe)

end

section \<open>Notifying subscribers\<close>

text \<open>
  The body of the delivery loop the transports share: the subscription's pattern is looked up at its turn
  (so a subscription removed by an earlier callback of the same delivery is skipped), and an \<open>Exception\<close>
  of the callback is suppressed.
\<close>

definition notify_with ::
  "('t \<Rightarrow> string \<Rightarrow> string option) \<Rightarrow> (string \<Rightarrow> string \<Rightarrow> bool) \<Rightarrow> ('cb \<Rightarrow> message \<Rightarrow> ('t \<times> 'w, unit) py) \<Rightarrow> message \<Rightarrow>
   string \<times> 'cb \<Rightarrow> ('t \<times> 'w, unit) py" where
  "notify_with pat matches run_cb msg = (\<lambda>(sub_id, callback) (t, w).
     case pat t sub_id of
       None \<Rightarrow> (Inr (), (t, w))
     | Some p \<Rightarrow> if matches (m_topic msg) p then py_suppress (run_cb callback msg) (t, w) else (Inr (), (t, w)))"

text \<open>Callbacks that act on the rest of the program only.\<close>

definition lift_rest ::
  "('cb \<Rightarrow> message \<Rightarrow> ('w, unit) py) \<Rightarrow> 'cb \<Rightarrow> message \<Rightarrow> ('t \<times> 'w, unit) py" where
  "lift_rest h cb m = (\<lambda>(t, w). case h cb m w of (r, w') \<Rightarrow> (r, (t, w')))"

definition run_quietly :: "('cb \<Rightarrow> message \<Rightarrow> ('w, unit) py) \<Rightarrow> message \<Rightarrow> 'cb list \<Rightarrow> 'w \<Rightarrow> 'w" where
  "run_quietly h m cbs w = fold (\<lambda>cb w. snd (h cb m w)) cbs w"

lemma run_quietly_simps [simp]:
  "run_quietly h m [] w = w" "run_quietly h m (cb # cbs) w = run_quietly h m cbs (snd (h cb m w))"
  "run_quietly h m (cbs @ cbs') w = run_quietly h m cbs' (run_quietly h m cbs w)"
  by (simp_all add: run_quietly_def)

text \<open>Handlers whose exceptions are all \<open>Exception\<close>s, so that the loop suppresses them.\<close>

definition catchable :: "('cb \<Rightarrow> message \<Rightarrow> ('w, unit) py) \<Rightarrow> bool" where
  "catchable h \<longleftrightarrow> (\<forall>cb m w e w'. h cb m w = (Inl e, w') \<longrightarrow> is_Exc e)"

lemma notify_quiet:
  assumes "catchable h"
  shows "py_for (notify_with pat matches (lift_rest h) m) subs (t, w) =
    (Inr (), (t, run_quietly h m (targets matches subs (pat t) (m_topic m)) w))"
proof (induction subs arbitrary: w)
  case (Cons x subs)
  obtain i cb where x: "x = (i, cb)" by fastforce
  have "py_suppress (lift_rest h cb m) (t, w) = (Inr (), (t, snd (h cb m w)))"
    using assms[unfolded catchable_def, rule_format, of cb m w]
    by (cases "h cb m w"; cases "fst (h cb m w)") (auto simp: lift_rest_def py_simps)
  with x Cons show ?case by (auto simp: notify_with_def targets_def split: option.split)
qed simp

end
