(* ===== verification/Topic_Match.thy ===== *)
theory Topic_Match
  imports EF_Prelude
begin

text \<open>
  Topic patterns. The transports decide in three different ways whether a message topic matches
  the topic of a subscription: \<open>MemoryTransport._matches\<close> rewrites the pattern and calls
  \<open>fnmatch\<close>, \<open>tcp._topic_matches\<close> calls \<open>fnmatch\<close> directly, and the Redis and NATS transports
  translate the pattern to a regular expression. All are modelled on character lists, with the
  parts of \<open>str\<close>, \<open>fnmatch\<close> and \<open>re\<close> they use, and compared with a segment-wise specification.
\<close>

section \<open>String operations\<close>

fun strip_prefix :: "string \<Rightarrow> string \<Rightarrow> string option" where
  "strip_prefix [] s = Some s"
| "strip_prefix (p # ps) [] = None"
| "strip_prefix (p # ps) (c # cs) = (if p = c then strip_prefix ps cs else None)"

lemma strip_prefix_Some: "strip_prefix p s = Some r \<longleftrightarrow> s = p @ r"
  by (induction p s rule: strip_prefix.induct) auto

lemma strip_prefix_append [simp]: "strip_prefix p (p @ r) = Some r"
  by (simp add: strip_prefix_Some)

text \<open>
  \<open>s.replace(old, new)\<close> for a non-empty \<open>old\<close>: non-overlapping occurrences, left to right.
  (The code only passes non-empty literals; an empty \<open>old\<close> leaves the string unchanged here.)
\<close>

function str_replace :: "string \<Rightarrow> string \<Rightarrow> string \<Rightarrow> string" where
  "str_replace old new s =
     (if old = [] then s
      else case s of [] \<Rightarrow> []
        | c # cs \<Rightarrow> (case strip_prefix old s of
              Some r \<Rightarrow> new @ str_replace old new r
            | None \<Rightarrow> c # str_replace old new cs))"
  by pat_completeness auto
termination
  by (relation "measure (\<lambda>(old, new, s). length s)") (auto simp: strip_prefix_Some)

declare str_replace.simps [simp del]

lemma str_replace_Nil [simp]: "str_replace old new [] = []"
  by (subst str_replace.simps) simp

lemma str_replace_hit: "old \<noteq> [] \<Longrightarrow> str_replace old new (old @ r) = new @ str_replace old new r"
  by (cases old; subst str_replace.simps) auto

lemma str_replace_miss:
  "c \<noteq> hd old \<Longrightarrow> old \<noteq> [] \<Longrightarrow> str_replace old new (c # cs) = c # str_replace old new cs"
  by (cases old; subst str_replace.simps) auto

lemma str_replace_skip:
  "old \<noteq> [] \<Longrightarrow> hd old \<notin> set p \<Longrightarrow> str_replace old new (p @ s) = p @ str_replace old new s"
  by (induction p) (auto simp: str_replace_miss)

lemma str_replace_absent: "old \<noteq> [] \<Longrightarrow> hd old \<notin> set p \<Longrightarrow> str_replace old new p = p"
  using str_replace_skip[of old p new "[]"] by simp

section \<open>\<open>fnmatch\<close>\<close>

text \<open>
  A glob is a sequence of \<open>*\<close>, \<open>?\<close>, bracket sets and literal characters. In a bracket, \<open>!\<close> in
  first place negates (a \<open>^\<close> is an ordinary character), a \<open>]\<close> in first place is a member, and a
  bracket that is never closed is a literal \<open>[\<close>. A descending range has no member.
\<close>

datatype gtok = GStar | GAny | GSet bool "(char \<times> char) list" | GLit char

fun take_until_close :: "string \<Rightarrow> (string \<times> string) option" where
  "take_until_close [] = None"
| "take_until_close (c # cs) =
     (if c = CHR '']'' then Some ([], cs)
      else map_option (\<lambda>(a, r). (c # a, r)) (take_until_close cs))"

definition split_if :: "char \<Rightarrow> string \<Rightarrow> string \<times> string" where
  "split_if c s = (case s of [] \<Rightarrow> ([], []) | x # xs \<Rightarrow> if x = c then ([x], xs) else ([], s))"

definition bracket_split :: "string \<Rightarrow> (string \<times> string) option" where
  "bracket_split s =
     (let (a, s1) = split_if (CHR ''!'') s;
          (b, s2) = split_if (CHR '']'') s1
      in map_option (\<lambda>(body, rest). (a @ b @ body, rest)) (take_until_close s2))"

fun char_ranges :: "string \<Rightarrow> (char \<times> char) list" where
  "char_ranges [] = []"
| "char_ranges [a] = [(a, a)]"
| "char_ranges [a, b] = [(a, a), (b, b)]"
| "char_ranges (a # b # c # cs) =
     (if b = CHR ''-'' then (a, c) # char_ranges cs else (a, a) # char_ranges (b # c # cs))"

definition bracket_tok :: "string \<Rightarrow> gtok" where
  "bracket_tok stuff =
     (case split_if (CHR ''!'') stuff of (a, body) \<Rightarrow> GSet (a \<noteq> []) (char_ranges body))"

lemma split_if_len: "length (snd (split_if c s)) \<le> length s"
  by (auto simp: split_if_def split: list.split)

lemma take_until_close_len: "take_until_close s = Some (a, r) \<Longrightarrow> length r < length s"
  by (induction s arbitrary: a r) (fastforce split: if_splits)+

lemma bracket_split_len: "bracket_split s = Some (a, r) \<Longrightarrow> length r < length s"
  using split_if_len[of "CHR ''!''" s] split_if_len[of "CHR '']''" "snd (split_if (CHR ''!'') s)"]
  by (fastforce simp: bracket_split_def split: prod.splits dest: take_until_close_len)

function glob_tokens :: "string \<Rightarrow> gtok list" where
  "glob_tokens s =
     (case s of [] \<Rightarrow> []
      | c # cs \<Rightarrow>
          if c = CHR ''*'' then GStar # glob_tokens cs
          else if c = CHR ''?'' then GAny # glob_tokens cs
          else if c = CHR ''['' then
            (case bracket_split cs of
               None \<Rightarrow> GLit c # glob_tokens cs
             | Some (stuff, rest) \<Rightarrow> bracket_tok stuff # glob_tokens rest)
          else GLit c # glob_tokens cs)"
  by pat_completeness auto
termination
  by (relation "measure length") (auto dest: bracket_split_len)

declare glob_tokens.simps [simp del]

definition in_ranges :: "char \<Rightarrow> (char \<times> char) list \<Rightarrow> bool" where
  "in_ranges c rs =
     list_ex (\<lambda>(lo, hi). (of_char lo :: nat) \<le> of_char c \<and> (of_char c :: nat) \<le> of_char hi) rs"

fun tok_char :: "gtok \<Rightarrow> char \<Rightarrow> bool" where
  "tok_char GStar c = False"
| "tok_char GAny c = True"
| "tok_char (GSet neg rs) c = (in_ranges c rs \<noteq> neg)"
| "tok_char (GLit d) c = (c = d)"

fun glob_match :: "gtok list \<Rightarrow> string \<Rightarrow> bool" where
  "glob_match [] s = (s = [])"
| "glob_match (GStar # ts) s =
     (glob_match ts s \<or> (case s of [] \<Rightarrow> False | c # cs \<Rightarrow> glob_match (GStar # ts) cs))"
| "glob_match (t # ts) s =
     (case s of [] \<Rightarrow> False | c # cs \<Rightarrow> tok_char t c \<and> glob_match ts cs)"

definition fnmatch :: "string \<Rightarrow> string \<Rightarrow> bool" where
  "fnmatch name pat = glob_match (glob_tokens pat) name"

section \<open>The matchers of the transports\<close>

text \<open>\<open>MemoryTransport._matches\<close>\<close>

definition memory_pattern :: "string \<Rightarrow> string" where
  "memory_pattern pattern =
     (let p1 = str_replace ''**'' ''__DOUBLE__'' pattern;
          p2 = str_replace ''*'' ''[^.]*'' p1
      in str_replace ''__DOUBLE__'' ''*'' p2)"

definition memory_matches :: "string \<Rightarrow> string \<Rightarrow> bool" where
  "memory_matches topic pattern =
     (if pattern = topic then True else fnmatch topic (memory_pattern pattern))"

text \<open>\<open>tcp._topic_matches\<close>\<close>

definition tcp_topic_matches :: "string \<Rightarrow> string \<Rightarrow> bool" where
  "tcp_topic_matches topic pattern =
     (if pattern = topic then True else fnmatch topic pattern)"

text \<open>
  \<open>redis._matches\<close>: the loop over the pattern builds the
  pieces \<open>.*\<close>, \<open>[^.]*\<close> and escaped literals of a regular expression, which is matched
  between \<open>^\<close> and \<open>$\<close>. In \<open>re\<close>, \<open>.\<close> does not match a newline and \<open>$\<close> also matches before a
  final newline.
\<close>

datatype rtok = RAny | RSeg | RLit char

fun redis_tokens :: "string \<Rightarrow> rtok list" where
  "redis_tokens [] = []"
| "redis_tokens [c] = (if c = CHR ''*'' then [RSeg] else [RLit c])"
| "redis_tokens (c # d # cs) =
     (if c = CHR ''*'' \<and> d = CHR ''*'' then RAny # redis_tokens cs
      else if c = CHR ''*'' then RSeg # redis_tokens (d # cs)
      else RLit c # redis_tokens (d # cs))"

abbreviation newline :: char where
  "newline \<equiv> CHR 0x0A"

fun re_match :: "rtok list \<Rightarrow> string \<Rightarrow> bool" where
  "re_match [] s = (s = [] \<or> s = [newline])"
| "re_match (RAny # ts) s =
     (re_match ts s \<or>
      (case s of [] \<Rightarrow> False | c # cs \<Rightarrow> c \<noteq> newline \<and> re_match (RAny # ts) cs))"
| "re_match (RSeg # ts) s =
     (re_match ts s \<or>
      (case s of [] \<Rightarrow> False | c # cs \<Rightarrow> c \<noteq> CHR ''.'' \<and> re_match (RSeg # ts) cs))"
| "re_match (RLit d # ts) s =
     (case s of [] \<Rightarrow> False | c # cs \<Rightarrow> c = d \<and> re_match ts cs)"

definition redis_matches :: "string \<Rightarrow> string \<Rightarrow> bool" where
  "redis_matches topic pattern =
     (if pattern = topic then True else re_match (redis_tokens pattern) topic)"

text \<open>
  \<open>nats._matches\<close>, the same source: here the loop is kept with its index into the pattern and the list of
  pieces it appends to (\<open>nats_matches_eq\<close> below).
\<close>

function nats_loop :: "string \<Rightarrow> nat \<Rightarrow> rtok list \<Rightarrow> rtok list" where
  "nats_loop pattern i parts =
     (if i < length pattern then
        if take 2 (drop i pattern) = ''**'' then nats_loop pattern (i + 2) (parts @ [RAny])
        else if pattern ! i = CHR ''*'' then nats_loop pattern (i + 1) (parts @ [RSeg])
        else nats_loop pattern (i + 1) (parts @ [RLit (pattern ! i)])
      else parts)"
  by pat_completeness auto
termination
  by (relation "measure (\<lambda>(pattern, i, _). length pattern - i)") auto

declare nats_loop.simps [simp del]

definition nats_matches :: "string \<Rightarrow> string \<Rightarrow> bool" where
  "nats_matches topic pattern =
     (if pattern = topic then True else re_match (nats_loop pattern 0 []) topic)"

text \<open>\<open>redis._to_redis_pattern\<close>\<close>

definition to_redis_pattern :: "string \<Rightarrow> string" where
  "to_redis_pattern topic = str_replace ''**'' ''*'' topic"

text \<open>\<open>topic.split(".")\<close> and \<open>".".join(...)\<close>, used by \<open>nats._to_nats_subject\<close>.\<close>

fun str_split :: "char \<Rightarrow> string \<Rightarrow> string list" where
  "str_split d [] = [[]]"
| "str_split d (c # cs) =
     (if c = d then [] # str_split d cs
      else case str_split d cs of [] \<Rightarrow> [[c]] | w # ws \<Rightarrow> (c # w) # ws)"

fun str_join :: "string \<Rightarrow> string list \<Rightarrow> string" where
  "str_join d [] = []"
| "str_join d [w] = w"
| "str_join d (w # v # ws) = w @ d @ str_join d (v # ws)"

definition to_nats_subject :: "string \<Rightarrow> string" where
  "to_nats_subject topic =
     (let tokens = str_split (CHR ''.'') topic;
          out = map (\<lambda>tok. if tok = ''**'' then ''>'' else tok) tokens
      in str_join ''.'' out)"

section \<open>The index loop builds the same expression\<close>

lemma nats_loop_tokens: "nats_loop pattern i parts = parts @ redis_tokens (drop i pattern)"
proof (induction pattern i parts rule: nats_loop.induct)
  case (1 pattern i parts)
  show ?case
  proof (cases "drop i pattern" rule: redis_tokens.cases)
    case 1
    then show ?thesis by (simp add: nats_loop.simps)
  next
    case (2 c)
    then have "i < length pattern" "pattern ! i = c" "drop (Suc i) pattern = []"
      by (metis drop_eq_Nil2 list.distinct(1) not_le, metis drop_eq_Nil2 hd_drop_conv_nth list.distinct(1) list.sel(1) not_le, metis drop_Suc list.sel(3) tl_drop)
    with 2 "1.IH" show ?thesis by (subst nats_loop.simps) simp
  next
    case (3 c d cs)
    then have "i < length pattern" "pattern ! i = c" "drop (Suc i) pattern = d # cs" "drop (Suc (Suc i)) pattern = cs"
      by (metis drop_eq_Nil2 list.distinct(1) not_le, metis drop_eq_Nil2 hd_drop_conv_nth list.distinct(1) list.sel(1) not_le,
          metis drop_Suc list.sel(3) tl_drop, metis drop_Suc list.sel(3) tl_drop)
    with 3 "1.IH" show ?thesis by (subst nats_loop.simps) simp
  qed
qed

lemma nats_matches_eq: "nats_matches = redis_matches"
  by (simp add: fun_eq_iff nats_matches_def redis_matches_def nats_loop_tokens)

section \<open>Segment-wise specification\<close>

text \<open>
  What the documentation promises: a pattern is a sequence of segments, each a literal word,
  \<open>*\<close> (exactly one segment) or \<open>**\<close> (one or more segments).
\<close>

datatype seg = SLit string | SOne | SMany

fun seg_string :: "seg \<Rightarrow> string" where
  "seg_string (SLit w) = w"
| "seg_string SOne = ''*''"
| "seg_string SMany = ''**''"

fun seg_match :: "seg list \<Rightarrow> string list \<Rightarrow> bool" where
  "seg_match [] xs = (xs = [])"
| "seg_match (SLit w # ps) xs = (case xs of [] \<Rightarrow> False | x # ys \<Rightarrow> x = w \<and> seg_match ps ys)"
| "seg_match (SOne # ps) xs = (case xs of [] \<Rightarrow> False | x # ys \<Rightarrow> seg_match ps ys)"
| "seg_match (SMany # ps) xs =
     (case xs of [] \<Rightarrow> False | x # ys \<Rightarrow> seg_match ps ys \<or> seg_match (SMany # ps) ys)"

text \<open>A word is plain when it holds no separator, no wildcard and no newline.\<close>

definition plain_word :: "string \<Rightarrow> bool" where
  "plain_word w = (CHR ''.'' \<notin> set w \<and> CHR ''*'' \<notin> set w \<and> newline \<notin> set w)"

definition plain_seg :: "seg \<Rightarrow> bool" where
  "plain_seg p = (case p of SLit w \<Rightarrow> plain_word w | _ \<Rightarrow> True)"

definition topic_word :: "string \<Rightarrow> bool" where
  "topic_word w = (CHR ''.'' \<notin> set w \<and> newline \<notin> set w)"

lemma plain_seg_simps [simp]:
  "plain_seg (SLit w) = plain_word w" "plain_seg SOne" "plain_seg SMany"
  by (simp_all add: plain_seg_def)

lemma plain_topic_word: "plain_word w \<Longrightarrow> topic_word w"
  by (simp add: plain_word_def topic_word_def)

subsection \<open>Tokens of a joined pattern\<close>

fun seg_tokens :: "seg \<Rightarrow> rtok list" where
  "seg_tokens (SLit w) = map RLit w"
| "seg_tokens SOne = [RSeg]"
| "seg_tokens SMany = [RAny]"

fun segs_tokens :: "seg list \<Rightarrow> rtok list" where
  "segs_tokens [] = []"
| "segs_tokens [p] = seg_tokens p"
| "segs_tokens (p # q # ps) = seg_tokens p @ RLit (CHR ''.'') # segs_tokens (q # ps)"

lemma redis_tokens_lit:
  "c \<noteq> CHR ''*'' \<Longrightarrow> redis_tokens (c # cs) = RLit c # redis_tokens cs"
  by (cases cs) auto

lemma redis_tokens_word:
  "CHR ''*'' \<notin> set w \<Longrightarrow> redis_tokens (w @ s) = map RLit w @ redis_tokens s"
  by (induction w) (auto simp: redis_tokens_lit)

lemma redis_tokens_seg:
  "plain_seg p \<Longrightarrow> redis_tokens (seg_string p @ CHR ''.'' # s) =
     seg_tokens p @ RLit (CHR ''.'') # redis_tokens s"
  by (cases p) (auto simp: redis_tokens_word redis_tokens_lit plain_word_def)

lemma redis_tokens_join:
  "list_all plain_seg ps \<Longrightarrow> ps \<noteq> [] \<Longrightarrow>
     redis_tokens (str_join ''.'' (map seg_string ps)) = segs_tokens ps"
proof (induction ps rule: segs_tokens.induct)
  case (2 p)
  then show ?case
    using redis_tokens_word[of _ "[]"] by (cases p) (auto simp: plain_word_def)
next
  case (3 p q ps)
  then show ?case by (simp add: redis_tokens_seg)
qed simp

subsection \<open>Matching a word at a segment boundary\<close>

text \<open>The rest of a topic after a segment, and the rest of a pattern after a segment.\<close>

definition at_boundary :: "string \<Rightarrow> bool" where
  "at_boundary s = (s = [] \<or> hd s = CHR ''.'')"

lemma at_boundary_simps [simp]: "at_boundary []" "at_boundary (CHR ''.'' # s)"
  by (simp_all add: at_boundary_def)

lemma re_match_lits:
  "re_match (map RLit w @ ts) s = (\<exists>r. s = w @ r \<and> re_match ts r)"
  by (induction w arbitrary: s) (auto split: list.split)

lemma re_match_end: "newline \<notin> set s \<Longrightarrow> re_match [] s = (s = [])"
  by auto

lemma lits_word_eq:
  assumes "CHR ''.'' \<notin> set x" "CHR ''.'' \<notin> set w" "at_boundary r" "at_boundary r'"
  shows "x @ r = w @ r' \<longleftrightarrow> x = w \<and> r = r'"
  using assms
proof (induction x arbitrary: w)
  case Nil
  then show ?case by (cases w) (auto simp: at_boundary_def)
next
  case (Cons c x)
  then show ?case by (cases w) (auto simp: at_boundary_def)
qed

lemma re_match_RSeg:
  "re_match (RSeg # ts) s = (\<exists>a b. s = a @ b \<and> CHR ''.'' \<notin> set a \<and> re_match ts b)"
  by (induction s) (auto simp: ex_append_Nil ex_append_Cons)

lemma re_match_RAny:
  "newline \<notin> set s \<Longrightarrow> re_match (RAny # ts) s = (\<exists>a b. s = a @ b \<and> re_match ts b)"
  by (induction s) (auto simp: ex_append_Nil ex_append_Cons)

abbreviation dot :: char where
  "dot \<equiv> CHR ''.''"

lemma re_match_dot: "re_match (RLit dot # ts) b = (\<exists>r. b = dot # r \<and> re_match ts r)"
  by (cases b) auto

declare re_match.simps [simp del]

text \<open>Every split of \<open>x.J\<close> at a dot is the first one or lies inside \<open>J\<close>.\<close>

lemma dot_split:
  "dot \<notin> set x \<Longrightarrow>
     (\<exists>a r. x @ dot # J = a @ dot # r \<and> P a r) \<longleftrightarrow>
       P x J \<or> (\<exists>a r. J = a @ dot # r \<and> P (x @ dot # a) r)"
proof (induction x arbitrary: P)
  case Nil
  have "(\<exists>a r. dot # J = a @ dot # r \<and> P a r) \<longleftrightarrow>
      (\<exists>a b. dot # J = a @ b \<and> (\<exists>r. b = dot # r \<and> P a r))" by blast
  then show ?case by (simp add: ex_append_Cons) blast
next
  case (Cons c x)
  have "(\<exists>a r. c # x @ dot # J = a @ dot # r \<and> P a r) \<longleftrightarrow>
      (\<exists>a b. c # x @ dot # J = a @ b \<and> (\<exists>r. b = dot # r \<and> P a r))" by blast
  also have "\<dots> \<longleftrightarrow> (\<exists>a r. x @ dot # J = a @ dot # r \<and> P (c # a) r)"
    using Cons.prems by (simp add: ex_append_Cons) blast
  finally show ?case using Cons by simp
qed

lemma dot_in_join: "dot \<in> set (str_join ''.'' (x # y # ys))"
  by simp

lemma join_single:
  "dot \<notin> set w \<Longrightarrow> list_all topic_word xs \<Longrightarrow> xs \<noteq> [] \<Longrightarrow> str_join ''.'' xs = w \<longleftrightarrow> xs = [w]"
  by (cases "(''.'', xs)" rule: str_join.cases) auto

lemma join_no_dot:
  "list_all topic_word xs \<Longrightarrow> xs \<noteq> [] \<Longrightarrow> dot \<notin> set (str_join ''.'' xs) \<longleftrightarrow> (\<exists>x. xs = [x])"
  by (cases "(''.'', xs)" rule: str_join.cases) (auto simp: topic_word_def)

lemma join_no_newline:
  "list_all topic_word xs \<Longrightarrow> newline \<notin> set (str_join ''.'' xs)"
  by (induction "''.''" xs rule: str_join.induct) (auto simp: topic_word_def)

text \<open>The last segment of a pattern.\<close>

lemma re_match_last:
  assumes "plain_seg p" "list_all topic_word xs" "xs \<noteq> []"
  shows "re_match (seg_tokens p) (str_join ''.'' xs) = seg_match [p] xs"
proof (cases p)
  case (SLit w)
  have nl: "newline \<notin> set (str_join ''.'' xs)" using assms(2) by (rule join_no_newline)
  then have "re_match (map RLit w @ []) (str_join ''.'' xs) \<longleftrightarrow> str_join ''.'' xs = w"
    by (subst re_match_lits) (auto simp: re_match.simps(1))
  also have "\<dots> \<longleftrightarrow> xs = [w]"
    using assms SLit by (intro join_single) (auto simp: plain_word_def)
  finally show ?thesis using SLit by (auto split: list.split)
next
  case SOne
  have nl: "newline \<notin> set (str_join ''.'' xs)" using assms(2) by (rule join_no_newline)
  then have "re_match [RSeg] (str_join ''.'' xs) \<longleftrightarrow> dot \<notin> set (str_join ''.'' xs)"
    by (subst re_match_RSeg) (auto simp: re_match.simps(1))
  with SOne assms show ?thesis by (auto simp: join_no_dot split: list.split)
next
  case SMany
  have nl: "newline \<notin> set (str_join ''.'' xs)" using assms(2) by (rule join_no_newline)
  then have "re_match [RAny] (str_join ''.'' xs)"
    by (subst re_match_RAny) (auto simp: re_match.simps(1))
  moreover have "seg_match [SMany] xs"
    using assms(3) by (induction xs rule: list_nonempty_induct) (auto split: list.split)
  ultimately show ?thesis using SMany by simp
qed

text \<open>A segment followed by a dot and the tokens \<open>ts\<close> of the rest of the pattern.\<close>

lemma re_match_RAny_dot:
  assumes "newline \<notin> set s"
  shows "re_match (RAny # RLit dot # ts) s \<longleftrightarrow> (\<exists>a r. s = a @ dot # r \<and> re_match ts r)"
  using assms by (subst re_match_RAny) (auto simp: re_match_dot)

lemma re_match_step:
  assumes "plain_seg p" and x: "topic_word x" and nl: "newline \<notin> set J"
  shows "re_match (seg_tokens p @ RLit dot # ts) (x @ dot # J) =
    (case p of SLit w \<Rightarrow> x = w \<and> re_match ts J
      | SOne \<Rightarrow> re_match ts J
      | SMany \<Rightarrow> re_match ts J \<or> re_match (RAny # RLit dot # ts) J)"
proof (cases p)
  case (SLit w)
  then have "dot \<notin> set w" "dot \<notin> set x"
    using assms by (auto simp: plain_word_def topic_word_def)
  then have "\<And>r. x @ dot # J = w @ dot # r \<longleftrightarrow> x = w \<and> J = r"
    using lits_word_eq[of x w "dot # J"] by auto
  moreover have "re_match (map RLit w @ RLit dot # ts) (x @ dot # J) \<longleftrightarrow>
      (\<exists>r. x @ dot # J = w @ dot # r \<and> re_match ts r)"
    by (subst re_match_lits) (auto simp: re_match_dot)
  ultimately show ?thesis using SLit by auto
next
  case SOne
  have dx: "dot \<notin> set x" using x by (simp add: topic_word_def)
  have "re_match (RSeg # RLit dot # ts) (x @ dot # J) \<longleftrightarrow>
      (\<exists>a r. x @ dot # J = a @ dot # r \<and> (dot \<notin> set a \<and> re_match ts r))"
    by (subst re_match_RSeg) (auto simp: re_match_dot)
  with SOne dx show ?thesis by (simp add: dot_split[OF dx])
next
  case SMany
  have dx: "dot \<notin> set x" using x by (simp add: topic_word_def)
  have "re_match (RAny # RLit dot # ts) (x @ dot # J) \<longleftrightarrow>
      (\<exists>a r. x @ dot # J = a @ dot # r \<and> re_match ts r)"
    using x nl by (intro re_match_RAny_dot) (auto simp: topic_word_def)
  with SMany nl show ?thesis by (simp add: dot_split[OF dx] re_match_RAny_dot)
qed

lemma re_match_single_false:
  assumes "plain_seg p" and x: "topic_word x"
  shows "\<not> re_match (seg_tokens p @ RLit dot # ts) x"
  using assms
  by (cases p) (auto simp: re_match_lits re_match_dot re_match_RSeg re_match_RAny topic_word_def)

lemma seg_match_Cons_Nil [simp]: "\<not> seg_match (p # ps) []"
  by (cases p) auto

lemma re_match_segs:
  "list_all plain_seg ps \<Longrightarrow> ps \<noteq> [] \<Longrightarrow> list_all topic_word xs \<Longrightarrow> xs \<noteq> [] \<Longrightarrow>
     re_match (segs_tokens ps) (str_join ''.'' xs) = seg_match ps xs"
proof (induction ps arbitrary: xs rule: segs_tokens.induct)
  case 1
  then show ?case by simp
next
  case (2 p)
  then show ?case by (simp add: re_match_last)
next
  case (3 p q ps)
  let ?T = "segs_tokens (q # ps)"
  from "3.prems"(3,4) show ?case
  proof (induction xs)
    case Nil
    then show ?case by simp
  next
    case (Cons x xs)
    show ?case
    proof (cases xs)
      case Nil
      with Cons.prems "3.prems"(1) have "\<not> re_match (seg_tokens p @ RLit dot # ?T) x"
        by (intro re_match_single_false) auto
      with Nil show ?thesis by (cases p) auto
    next
      case (Cons y ys)
      have rest: "re_match ?T (str_join ''.'' xs) = seg_match (q # ps) xs"
        using "3.IH" "3.prems"(1) Cons.prems Cons by simp
      have "newline \<notin> set (str_join ''.'' xs)"
        using Cons.prems by (intro join_no_newline) simp
      with Cons.prems "3.prems"(1)
      have step: "re_match (seg_tokens p @ RLit dot # ?T) (x @ dot # str_join ''.'' xs) =
        (case p of SLit w \<Rightarrow> x = w \<and> re_match ?T (str_join ''.'' xs)
          | SOne \<Rightarrow> re_match ?T (str_join ''.'' xs)
          | SMany \<Rightarrow> re_match ?T (str_join ''.'' xs) \<or>
              re_match (RAny # RLit dot # ?T) (str_join ''.'' xs))"
        by (intro re_match_step) auto
      have "p = SMany \<Longrightarrow> re_match (RAny # RLit dot # ?T) (str_join ''.'' xs) = seg_match (p # q # ps) xs"
        using Cons.IH Cons.prems Cons by simp
      with step rest Cons show ?thesis by (cases p) (auto simp del: str_join.simps simp add: str_join.simps(3))
    qed
  qed
qed

subsection \<open>Splitting and joining\<close>

lemma str_split_word: "d \<notin> set w \<Longrightarrow> str_split d w = [w]"
  by (induction w) auto

lemma str_split_append: "d \<notin> set w \<Longrightarrow> str_split d (w @ d # s) = w # str_split d s"
  by (induction w) auto

lemma split_join:
  "xs \<noteq> [] \<Longrightarrow> list_all (\<lambda>w. d \<notin> set w) xs \<Longrightarrow> str_split d (str_join [d] xs) = xs"
  by (induction "[d]" xs rule: str_join.induct) (auto simp: str_split_word str_split_append)

lemma str_split_nonempty [simp]: "str_split d s \<noteq> []"
  by (induction s) (auto split: list.split)

lemma join_split: "str_join [d] (str_split d s) = s"
proof (induction s)
  case Nil
  show ?case by simp
next
  case (Cons c s)
  obtain w ws where sp: "str_split d s = w # ws" by (meson list.exhaust str_split_nonempty)
  with Cons show ?case by (cases ws) auto
qed

lemma join_inj:
  assumes "str_join ''.'' xs = str_join ''.'' ys" "xs \<noteq> []" "ys \<noteq> []"
    and "list_all (\<lambda>w. dot \<notin> set w) xs" "list_all (\<lambda>w. dot \<notin> set w) ys"
  shows "xs = ys"
  using assms by (metis split_join)

lemma seg_match_self: "seg_match ps (map seg_string ps)"
proof (induction ps)
  case (Cons p ps)
  then show ?case by (cases p) auto
qed simp

lemma seg_string_no_dot: "plain_seg p \<Longrightarrow> dot \<notin> set (seg_string p)"
  by (cases p) (auto simp: plain_word_def)

subsection \<open>Globs\<close>

text \<open>A literal prefix: no glob character, and no underscore (the code rewrites \<open>__DOUBLE__\<close>).\<close>

definition plain_prefix :: "string \<Rightarrow> bool" where
  "plain_prefix p = (set p \<inter> {CHR ''*'', CHR ''?'', CHR ''['', CHR ''_''} = {})"

lemma glob_tokens_plain:
  "plain_prefix p \<Longrightarrow> glob_tokens (p @ s) = map GLit p @ glob_tokens s"
proof (induction p)
  case (Cons c p)
  then show ?case by (subst glob_tokens.simps) (auto simp: plain_prefix_def)
qed simp

lemma glob_tokens_Nil [simp]: "glob_tokens [] = []"
  by (subst glob_tokens.simps) simp

lemma glob_tokens_star [simp]: "glob_tokens ''*'' = [GStar]"
  by (subst glob_tokens.simps) simp

lemma glob_match_lits: "glob_match (map GLit p @ ts) s = (\<exists>r. s = p @ r \<and> glob_match ts r)"
  by (induction p arbitrary: s) (auto split: list.split)

lemma glob_match_star [simp]: "glob_match [GStar] s"
  by (induction s) auto

declare glob_match.simps(2) [simp del]

lemma memory_pattern_plain: "plain_prefix p \<Longrightarrow> memory_pattern p = p"
  by (simp add: memory_pattern_def plain_prefix_def str_replace_absent Let_def)

lemma str_replace_code:
  "str_replace old new (c # cs) =
     (if old = [] then c # cs
      else case strip_prefix old (c # cs) of
              Some r \<Rightarrow> new @ str_replace old new r
            | None \<Rightarrow> c # str_replace old new cs)"
  by (subst str_replace.simps) simp

lemma memory_pattern_prefix:
  assumes "plain_prefix p"
  shows "memory_pattern (p @ ''*'') = p @ ''[^.]*''" and "memory_pattern (p @ ''**'') = p @ ''*''"
proof -
  have p: "CHR ''*'' \<notin> set p" "CHR ''_'' \<notin> set p"
    using assms by (auto simp: plain_prefix_def)
  then show "memory_pattern (p @ ''*'') = p @ ''[^.]*''" "memory_pattern (p @ ''**'') = p @ ''*''"
    by (simp_all add: memory_pattern_def Let_def str_replace_skip str_replace_code)
qed

lemma glob_tokens_caret: "glob_tokens ''[^.]*'' = [GSet False [(CHR ''^'', CHR ''^''), (dot, dot)], GStar]"
  by (subst glob_tokens.simps) (simp add: bracket_split_def split_if_def bracket_tok_def)

lemma in_ranges_caret: "in_ranges c [(CHR ''^'', CHR ''^''), (dot, dot)] \<longleftrightarrow> c = CHR ''^'' \<or> c = dot"
proof -
  have "of_char x \<le> (of_char c :: nat) \<and> of_char c \<le> (of_char x :: nat) \<longleftrightarrow> c = x" for x
    by (metis nle_le of_char_eq_iff)
  from this[of "CHR ''^''"] this[of dot] show ?thesis by (simp add: in_ranges_def)
qed

lemma glob_match_caret:
  "glob_match [GSet False [(CHR ''^'', CHR ''^''), (dot, dot)], GStar] s \<longleftrightarrow>
     (\<exists>c r. s = c # r \<and> (c = CHR ''^'' \<or> c = dot))"
  by (cases s) (simp_all add: in_ranges_caret)

lemma to_nats_subject_split:
  "str_split dot (to_nats_subject t) =
     map (\<lambda>tok. if tok = ''**'' then ''>'' else tok) (str_split dot t)"
proof -
  have "list_all (\<lambda>w. dot \<notin> set w) (str_split dot t)"
    by (induction t) (auto split: list.splits)
  then have "list_all (\<lambda>w. dot \<notin> set w) (map (\<lambda>tok. if tok = ''**'' then ''>'' else tok) (str_split dot t))"
    by (induction "str_split dot t") (auto simp: list_all_iff)
  then show ?thesis
    by (simp add: to_nats_subject_def Let_def split_join)
qed

section \<open>Properties\<close>



text \<open>
  C40. The matcher of the in-memory transport does not give \<open>*\<close> its documented meaning: the rewritten
  glob contains \<open>[^.]\<close>, which \<open>fnmatch\<close> reads as the two characters \<open>^\<close> and \<open>.\<close>, so a pattern
  \<open>p*\<close> matches exactly the topics that continue \<open>p\<close> with one of those two characters (and the
  pattern itself). A pattern \<open>p**\<close> matches exactly the topics that start with \<open>p\<close>.
\<close>

theorem memory_matches_wildcards:
  assumes "plain_prefix p"
  shows "(memory_matches t (p @ ''*'') \<longleftrightarrow>
      t = p @ ''*'' \<or> (\<exists>c r. t = p @ c # r \<and> (c = CHR ''^'' \<or> c = CHR ''.''))) \<and>
    (memory_matches t (p @ ''**'') \<longleftrightarrow> (\<exists>r. t = p @ r))"
proof
  have "fnmatch t (p @ ''[^.]*'') \<longleftrightarrow> (\<exists>c r. t = p @ c # r \<and> (c = CHR ''^'' \<or> c = dot))"
    unfolding fnmatch_def glob_tokens_plain[OF assms] glob_tokens_caret glob_match_lits
      glob_match_caret by blast
  then show "memory_matches t (p @ ''*'') \<longleftrightarrow>
      t = p @ ''*'' \<or> (\<exists>c r. t = p @ c # r \<and> (c = CHR ''^'' \<or> c = CHR ''.''))"
    by (auto simp: memory_matches_def memory_pattern_prefix[OF assms])
  have "fnmatch t (p @ ''*'') \<longleftrightarrow> (\<exists>r. t = p @ r)"
    by (simp add: fnmatch_def glob_tokens_plain[OF assms] glob_match_lits)
  then show "memory_matches t (p @ ''**'') \<longleftrightarrow> (\<exists>r. t = p @ r)"
    by (auto simp: memory_matches_def memory_pattern_prefix[OF assms])
qed

theorem memory_matches_wildcards_witness:
  "\<not> memory_matches ''events.user'' ''events.*'' \<and> memory_matches ''events.user'' ''events.**''"
  using memory_matches_wildcards[of "''events.''" "''events.user''"]
  by (simp add: plain_prefix_def)

lemma fnmatch_plain: "plain_prefix p \<Longrightarrow> fnmatch t p \<longleftrightarrow> t = p"
  using glob_match_lits[of p "[]" t] glob_tokens_plain[of p "[]"] by (simp add: fnmatch_def)

lemma memory_matches_plain: "plain_prefix p \<Longrightarrow> memory_matches t p \<longleftrightarrow> t = p"
  by (auto simp: memory_matches_def memory_pattern_plain fnmatch_plain)

lemma tcp_matches_plain: "plain_prefix p \<Longrightarrow> tcp_topic_matches t p \<longleftrightarrow> t = p"
  by (auto simp: tcp_topic_matches_def fnmatch_plain)

lemma redis_matches_plain: "plain_prefix p \<Longrightarrow> newline \<notin> set t \<Longrightarrow> redis_matches t p \<longleftrightarrow> t = p"
  using redis_tokens_word[of p "[]"] re_match_lits[of p "[]" t]
  by (auto simp: plain_prefix_def re_match.simps(1) redis_matches_def)

text \<open>
  A subscription topic without wildcards is matched by its own name only, by every transport's
  matcher.
\<close>

theorem matchers_exact_on_plain_topics:
  assumes "plain_prefix p" "newline \<notin> set t"
  shows "(memory_matches t p \<longleftrightarrow> t = p) \<and> (tcp_topic_matches t p \<longleftrightarrow> t = p) \<and>
    (redis_matches t p \<longleftrightarrow> t = p)"
  using assms by (simp add: memory_matches_plain tcp_matches_plain redis_matches_plain)

theorem matchers_exact_on_plain_topics_witness:
  "memory_matches ''a.b'' ''a.b'' \<and> \<not> tcp_topic_matches ''a.c'' ''a.b'' \<and> redis_matches ''a.b'' ''a.b''"
  using matchers_exact_on_plain_topics[of "''a.b''" "''a.b''"]
    matchers_exact_on_plain_topics[of "''a.b''" "''a.c''"]
  by (simp add: plain_prefix_def)

text \<open>
  The NATS subject of a topic has the topic's tokens, in order and equal in number, with \<open>>\<close> for
  a token \<open>**\<close> and every other token unchanged; a topic without a \<open>**\<close> token is its own subject.
\<close>

theorem nats_subject_tokens:
  "str_split dot (to_nats_subject t) =
     map (\<lambda>tok. if tok = ''**'' then ''>'' else tok) (str_split dot t) \<and>
   (to_nats_subject t = t \<or> ''**'' \<in> set (str_split dot t))"
proof (intro conjI disjCI)
  assume "''**'' \<notin> set (str_split dot t)"
  then have "map (\<lambda>tok. if tok = ''**'' then ''>'' else tok) (str_split dot t) = str_split dot t"
    by (auto intro: map_idI)
  then show "to_nats_subject t = t"
    by (simp add: to_nats_subject_def join_split)
qed (rule to_nats_subject_split)

end
