(* ===== verification/Memory_Transport.thy ===== *)
theory Memory_Transport
  imports Subscriptions Topic_Match
begin

text \<open>
  \<open>src/eventforge/transports/memory.py\<close>: the in-process transport. The state is the object's fields
  beside the rest of the program (\<open>'w\<close>). Callbacks are names of type \<open>'cb\<close>; \<open>run_cb cb m\<close> is what
  calling one does, on the whole state, since the lock is re-entrant and a callback may use the
  transport. Values drawn with \<open>uuid4\<close> are arguments. A blocking read has the outcome
  \<open>Blocked\<close> when it would wait for another thread for ever.
\<close>

record 'cb memory_transport =
  mt_max_queue_size :: int
  mt_queues :: "(string, message list) dict"
  mt_subscribers :: "(string, 'cb) dict"
  mt_topic_subs :: "(string, string list) dict"
  mt_sub_topic :: "(string, string) dict"
  mt_closed :: bool

definition mt_init :: "int \<Rightarrow> 'cb memory_transport" where
  "mt_init max_queue_size =
     \<lparr>mt_max_queue_size = max_queue_size, mt_queues = [], mt_subscribers = [], mt_topic_subs = [],
      mt_sub_topic = [], mt_closed = False\<rparr>"

definition negative_timeout :: pyexn where
  "negative_timeout = Exception ''ValueError'' (squote @ ''timeout'' @ squote @ '' must be a non-negative number'')"

definition transport_closed :: pyexn where
  "transport_closed = Exception ''RuntimeError'' ''Transport is closed''"

definition transport_full :: "int \<Rightarrow> string \<Rightarrow> pyexn" where
  "transport_full maxsize topic =
     Exception ''TransportFullError''
       (''transport queue for topic '' @ py_repr topic @ '' is full ('' @ str_of_int maxsize @ '' messages)'')"

definition mt_queue :: "'cb memory_transport \<Rightarrow> string \<Rightarrow> message list" where
  "mt_queue t topic = dict_get_default (mt_queues t) topic []"

text \<open>\<open>Queue.put_nowait\<close>: a bound of zero or less means unbounded.\<close>

definition queue_full :: "int \<Rightarrow> message list \<Rightarrow> bool" where
  "queue_full maxsize q = (0 < maxsize \<and> maxsize \<le> int (length q))"

definition mt_put :: "message \<Rightarrow> ('cb memory_transport \<times> 'w, unit) py" where
  "mt_put message = (\<lambda>(t, w).
     let q = mt_queue t (m_topic message) in
     if queue_full (mt_max_queue_size t) q
     then (Inl (transport_full (mt_max_queue_size t) (m_topic message)), (t\<lparr>mt_queues := dict_set (m_topic message) q (mt_queues t)\<rparr>, w))
     else (Inr (), (t\<lparr>mt_queues := dict_set (m_topic message) (q @ [message]) (mt_queues t)\<rparr>, w)))"

text \<open>
  One iteration of the notification loop: the subscription's pattern is looked up at its turn, so a
  subscription removed by an earlier callback of the same send is skipped.
\<close>

definition mt_notify ::
  "('cb \<Rightarrow> message \<Rightarrow> ('cb memory_transport \<times> 'w, unit) py) \<Rightarrow> message \<Rightarrow> string \<times> 'cb \<Rightarrow>
   ('cb memory_transport \<times> 'w, unit) py" where
  "mt_notify run_cb message = (\<lambda>(sub_id, callback) (t, w).
     case dict_get (mt_sub_topic t) sub_id of
       None \<Rightarrow> (Inr (), (t, w))
     | Some sub_topic \<Rightarrow>
         if memory_matches (m_topic message) sub_topic
         then py_suppress (run_cb callback message) (t, w) else (Inr (), (t, w)))"

definition mt_send ::
  "('cb \<Rightarrow> message \<Rightarrow> ('cb memory_transport \<times> 'w, unit) py) \<Rightarrow> message \<Rightarrow>
   ('cb memory_transport \<times> 'w, unit) py" where
  "mt_send run_cb message = (\<lambda>(t, w).
     if mt_closed t then (Inl transport_closed, (t, w))
     else py_seq (py_for (mt_notify run_cb message) (mt_subscribers t)) (mt_put message) (t, w))"

datatype 'a waiting = Got 'a | Blocked

definition mt_pop :: "string \<Rightarrow> 'cb memory_transport \<Rightarrow> message option \<times> 'cb memory_transport" where
  "mt_pop topic t = (case mt_queue t topic of
       [] \<Rightarrow> (None, t\<lparr>mt_queues := dict_set topic [] (mt_queues t)\<rparr>)
     | m # q \<Rightarrow> (Some m, t\<lparr>mt_queues := dict_set topic q (mt_queues t)\<rparr>))"

text \<open>\<open>receive\<close> with no other thread sending meanwhile; \<open>Queue.get\<close> refuses a negative timeout.\<close>

definition mt_receive ::
  "string \<Rightarrow> real option \<Rightarrow> ('cb memory_transport \<times> 'w, message option waiting) py" where
  "mt_receive topic timeout = (\<lambda>(t, w).
     if mt_closed t then (Inr (Got None), (t, w))
     else case timeout of
       Some x \<Rightarrow>
         if x < 0 then (Inl negative_timeout, (t, w))
         else (case mt_pop topic t of (m, t') \<Rightarrow> (Inr (Got m), (t', w)))
     | None \<Rightarrow>
         (case mt_pop topic t of
            (Some m, t') \<Rightarrow> (Inr (Got (Some m)), (t', w))
          | (None, t') \<Rightarrow> (Inr Blocked, (t', w))))"

definition mt_add :: "string \<Rightarrow> string \<Rightarrow> 'cb \<Rightarrow> 'cb memory_transport \<Rightarrow> 'cb memory_transport" where
  "mt_add sub_id topic callback t =
     t\<lparr>mt_subscribers := dict_set sub_id callback (mt_subscribers t),
       mt_topic_subs := dict_set topic (dict_get_default (mt_topic_subs t) topic [] @ [sub_id]) (mt_topic_subs t),
       mt_sub_topic := dict_set sub_id topic (mt_sub_topic t)\<rparr>"

definition mt_subscribe :: "string \<Rightarrow> string \<Rightarrow> 'cb \<Rightarrow> ('cb memory_transport \<times> 'w, string) py" where
  "mt_subscribe sub_id topic callback = (\<lambda>(t, w).
     if mt_closed t then (Inl transport_closed, (t, w))
     else (Inr sub_id, (mt_add sub_id topic callback t, w)))"

definition mt_remove :: "string \<Rightarrow> 'cb memory_transport \<Rightarrow> 'cb memory_transport" where
  "mt_remove sub_id t =
     (if dict_get (mt_subscribers t) sub_id = None then t
      else
        let t1 = t\<lparr>mt_subscribers := dict_del sub_id (mt_subscribers t),
                   mt_sub_topic := dict_del sub_id (mt_sub_topic t)\<rparr>
        in case dict_get (mt_sub_topic t) sub_id of
             None \<Rightarrow> t1
           | Some topic \<Rightarrow>
               (case dict_get (mt_topic_subs t) topic of
                  None \<Rightarrow> t1
                | Some subs \<Rightarrow>
                    if sub_id \<in> set subs
                    then t1\<lparr>mt_topic_subs := dict_set topic (remove1 sub_id subs) (mt_topic_subs t)\<rparr>
                    else t1))"

definition mt_unsubscribe :: "string \<Rightarrow> ('cb memory_transport \<times> 'w, bool) py" where
  "mt_unsubscribe sub_id = (\<lambda>(t, w).
     (Inr (dict_get (mt_subscribers t) sub_id \<noteq> None), (mt_remove sub_id t, w)))"

definition mt_close :: "('cb memory_transport \<times> 'w, unit) py" where
  "mt_close = py_modify (\<lambda>(t, w).
     (t\<lparr>mt_closed := True, mt_subscribers := [], mt_topic_subs := [], mt_sub_topic := []\<rparr>, w))"

section \<open>Invariant\<close>

text \<open>
  The three indexes agree: ids are distinct, the reverse index has exactly the subscribers' ids,
  and an id is listed under a topic exactly when that is its topic, once.
\<close>

definition mt_ok :: "'cb memory_transport \<Rightarrow> bool" where
  "mt_ok t \<longleftrightarrow>
     dict_ok (mt_subscribers t) \<and>
     (\<forall>i. (dict_get (mt_sub_topic t) i = None) = (dict_get (mt_subscribers t) i = None)) \<and>
     (\<forall>i p. (i \<in> set (dict_get_default (mt_topic_subs t) p [])) = (dict_get (mt_sub_topic t) i = Some p)) \<and>
     (\<forall>p. distinct (dict_get_default (mt_topic_subs t) p []))"

definition mt_bounded :: "'cb memory_transport \<Rightarrow> bool" where
  "mt_bounded t = (0 < mt_max_queue_size t \<longrightarrow>
     (\<forall>topic. int (length (mt_queue t topic)) \<le> mt_max_queue_size t))"

lemma mt_init_ok: "mt_ok (mt_init n)" "mt_bounded (mt_init n)"
  by (simp_all add: mt_ok_def mt_bounded_def mt_init_def mt_queue_def)

lemma mt_okD:
  assumes "mt_ok t"
  shows "dict_ok (mt_subscribers t)"
    and "(dict_get (mt_sub_topic t) i = None) = (dict_get (mt_subscribers t) i = None)"
    and "(i \<in> set (dict_get_default (mt_topic_subs t) p [])) = (dict_get (mt_sub_topic t) i = Some p)"
    and "distinct (dict_get_default (mt_topic_subs t) p [])"
  using assms by (simp_all add: mt_ok_def)

lemma mt_add_ok:
  assumes "mt_ok t" "dict_get (mt_subscribers t) i = None"
  shows "mt_ok (mt_add i p cb t)"
  unfolding mt_ok_def
proof (intro conjI allI)
  have none: "dict_get (mt_sub_topic t) i = None" using assms mt_okD(2) by blast
  show "dict_ok (mt_subscribers (mt_add i p cb t))"
    using mt_okD(1)[OF assms(1)] by (simp add: mt_add_def)
  fix j q
  show "(dict_get (mt_sub_topic (mt_add i p cb t)) j = None) =
      (dict_get (mt_subscribers (mt_add i p cb t)) j = None)"
    by (simp add: mt_add_def mt_okD(2)[OF assms(1)])
  show "(j \<in> set (dict_get_default (mt_topic_subs (mt_add i p cb t)) q [])) =
      (dict_get (mt_sub_topic (mt_add i p cb t)) j = Some q)"
    using none by (auto simp: mt_add_def mt_okD(3)[OF assms(1)])
  show "distinct (dict_get_default (mt_topic_subs (mt_add i p cb t)) q [])"
    using none by (simp add: mt_add_def mt_okD(3,4)[OF assms(1)])
qed

lemma mt_remove_known:
  assumes "mt_ok t" "dict_get (mt_subscribers t) i \<noteq> None"
  obtains p where "dict_get (mt_sub_topic t) i = Some p"
    and "mt_remove i t = t\<lparr>mt_subscribers := dict_del i (mt_subscribers t),
      mt_sub_topic := dict_del i (mt_sub_topic t),
      mt_topic_subs := dict_set p (remove1 i (dict_get_default (mt_topic_subs t) p [])) (mt_topic_subs t)\<rparr>"
proof -
  obtain p where p: "dict_get (mt_sub_topic t) i = Some p"
    using mt_okD(2)[OF assms(1), of i] assms(2) by auto
  then have "i \<in> set (dict_get_default (mt_topic_subs t) p [])"
    using mt_okD(3)[OF assms(1)] by simp
  then obtain subs where "dict_get (mt_topic_subs t) p = Some subs" "i \<in> set subs"
    by (cases "dict_get (mt_topic_subs t) p") (simp_all add: dict_get_default_def)
  with assms(2) p have "mt_remove i t = t\<lparr>mt_subscribers := dict_del i (mt_subscribers t),
      mt_sub_topic := dict_del i (mt_sub_topic t),
      mt_topic_subs := dict_set p (remove1 i (dict_get_default (mt_topic_subs t) p [])) (mt_topic_subs t)\<rparr>"
    by (auto simp: mt_remove_def Let_def dict_get_default_def)
  with p that show ?thesis by blast
qed

lemma mt_remove_absent: "dict_get (mt_subscribers t) i = None \<Longrightarrow> mt_remove i t = t"
  by (simp add: mt_remove_def)

lemma mt_remove_ok:
  assumes "mt_ok t"
  shows "mt_ok (mt_remove i t)"
proof (cases "dict_get (mt_subscribers t) i = None")
  case True
  with assms show ?thesis by (simp add: mt_remove_absent)
next
  case False
  then obtain p where p: "dict_get (mt_sub_topic t) i = Some p"
    and rm: "mt_remove i t = t\<lparr>mt_subscribers := dict_del i (mt_subscribers t),
      mt_sub_topic := dict_del i (mt_sub_topic t),
      mt_topic_subs := dict_set p (remove1 i (dict_get_default (mt_topic_subs t) p [])) (mt_topic_subs t)\<rparr>"
    using mt_remove_known[OF assms False] by blast
  show ?thesis
    unfolding mt_ok_def rm
  proof (intro conjI allI)
    fix j q
    let ?t = "t\<lparr>mt_subscribers := dict_del i (mt_subscribers t),
      mt_sub_topic := dict_del i (mt_sub_topic t),
      mt_topic_subs := dict_set p (remove1 i (dict_get_default (mt_topic_subs t) p [])) (mt_topic_subs t)\<rparr>"
    show "dict_ok (mt_subscribers ?t)" by (simp add: mt_okD(1)[OF assms])
    show "(dict_get (mt_sub_topic ?t) j = None) = (dict_get (mt_subscribers ?t) j = None)"
      by (simp add: mt_okD(2)[OF assms])
    show "distinct (dict_get_default (mt_topic_subs ?t) q [])" by (simp add: mt_okD(4)[OF assms])
    show "(j \<in> set (dict_get_default (mt_topic_subs ?t) q [])) = (dict_get (mt_sub_topic ?t) j = Some q)"
      using p by (auto simp: mt_okD(3,4)[OF assms] set_remove1_eq)
  qed
qed

lemma dict_del_filter: "dict_del i d = filter (\<lambda>(j, _). j \<noteq> i) d"
  by (induction d) auto

lemma mt_remove_tables:
  assumes "mt_ok t"
  shows "mt_subscribers (mt_remove i t) = dict_del i (mt_subscribers t) \<and>
    mt_sub_topic (mt_remove i t) = dict_del i (mt_sub_topic t)"
proof (cases "dict_get (mt_subscribers t) i = None")
  case True
  with mt_okD(2)[OF assms] have "dict_get (mt_sub_topic t) i = None" by simp
  with True show ?thesis
    by (simp add: mt_remove_absent dict_del_absent)
next
  case False
  show ?thesis by (rule mt_remove_known[OF assms False]) simp
qed

interpretation memory_table: subscription_table mt_add mt_remove mt_subscribers
  "\<lambda>t. dict_get (mt_sub_topic t)" mt_ok
proof unfold_locales
  show "mt_ok (mt_add i p cb t)" if "mt_ok t" "i \<notin> fst ` set (mt_subscribers t)" for t i p and cb :: 'a
    using that by (intro mt_add_ok) (simp_all add: map_of_eq_None_iff)
qed (simp_all add: mt_remove_ok mt_okD(1) mt_remove_tables dict_del_filter[symmetric]
      map_of_eq_None_iff mt_add_def dict_set_fresh)

section \<open>Operations on the queues\<close>

lemma mt_queue_update [simp]:
  "mt_queue (t\<lparr>mt_queues := dict_set topic q d\<rparr>) topic' = (if topic' = topic then q else dict_get_default d topic' [])"
  by (simp add: mt_queue_def)

lemma mt_put_queue:
  "mt_put m (t, w) = (r, (t', w')) \<Longrightarrow>
     w' = w \<and> mt_subscribers t' = mt_subscribers t \<and> mt_sub_topic t' = mt_sub_topic t \<and>
     mt_topic_subs t' = mt_topic_subs t \<and> mt_closed t' = mt_closed t \<and>
     mt_max_queue_size t' = mt_max_queue_size t \<and>
     mt_queue t' topic = mt_queue t topic @
       (if topic = m_topic m \<and> \<not> queue_full (mt_max_queue_size t) (mt_queue t (m_topic m)) then [m] else [])"
  by (auto simp: mt_put_def Let_def mt_queue_def split: if_splits)

lemma mt_put_outcome:
  "fst (mt_put m (t, w)) =
     (if queue_full (mt_max_queue_size t) (mt_queue t (m_topic m)) then Inl (transport_full (mt_max_queue_size t) (m_topic m)) else Inr ())"
  by (simp add: mt_put_def Let_def)

lemma mt_put_bounded: "mt_bounded t \<Longrightarrow> mt_bounded (fst (snd (mt_put m (t, w))))"
  by (auto simp: mt_bounded_def mt_put_def Let_def queue_full_def mt_queue_def[symmetric])

section \<open>Sending to callbacks that leave the transport alone\<close>

abbreviation mt_targets :: "'cb memory_transport \<Rightarrow> string \<Rightarrow> 'cb list" where
  "mt_targets t topic \<equiv> targets memory_matches (mt_subscribers t) (dict_get (mt_sub_topic t)) topic"

lemma mt_notify_with: "mt_notify run_cb m = notify_with (\<lambda>t. dict_get (mt_sub_topic t)) memory_matches run_cb m"
  by (intro ext) (simp add: mt_notify_def notify_with_def split: prod.split)

lemma mt_notify_all_quiet:
  assumes "catchable h"
  shows "py_for (mt_notify (lift_rest h) m) subs (t, w) =
    (Inr (), (t, run_quietly h m (targets memory_matches subs (dict_get (mt_sub_topic t)) (m_topic m)) w))"
  unfolding mt_notify_with by (rule notify_quiet[OF assms])

lemma mt_send_quiet:
  assumes "\<not> mt_closed t" and "catchable h"
  shows "mt_send (lift_rest h) m (t, w) =
    mt_put m (t, run_quietly h m (mt_targets t (m_topic m)) w)"
  using assms(1) by (simp add: mt_send_def py_simps mt_notify_all_quiet[where h = h, OF assms(2)])

text \<open>
  Callbacks that return and leave the subscriptions alone, in the states a condition allows: a send runs
  exactly the matching ones, in order, and then queues the message.
\<close>

lemma mt_notify_pure:
  assumes "P s" and "\<And>s. P s \<Longrightarrow> mt_sub_topic (fst s) = tab"
    and "\<And>cb s. cb \<in> snd ` set subs \<Longrightarrow> P s \<Longrightarrow> run_cb cb m s = (Inr (), g cb s) \<and> P (g cb s)"
  shows "py_for (mt_notify run_cb m) subs s =
      (Inr (), fold g (targets memory_matches subs (dict_get tab) (m_topic m)) s)"
  using assms(1,3)
proof (induction subs arbitrary: s)
  case (Cons x subs)
  obtain i cb t w where x: "x = (i, cb)" and s: "s = (t, w)" by fastforce
  have IH: "P s' \<Longrightarrow> py_for (mt_notify run_cb m) subs s' =
      (Inr (), fold g (targets memory_matches subs (dict_get tab) (m_topic m)) s')" for s'
    using Cons.IH[of s'] Cons.prems(2) by simp
  have cb: "run_cb cb m (t, w) = (Inr (), g cb (t, w))" "P (g cb (t, w))" "mt_sub_topic t = tab"
    using Cons.prems(2)[of cb s] Cons.prems(1) assms(2)[of s] x s by simp_all
  show ?case
  proof (cases "\<exists>p. dict_get tab i = Some p \<and> memory_matches (m_topic m) p")
    case True
    with x s IH[of "g cb (t, w)"] cb show ?thesis
      by (auto simp: mt_notify_def targets_def py_simps)
  next
    case False
    with x s IH[OF Cons.prems(1)] cb(3) show ?thesis
      by (auto simp: mt_notify_def targets_def split: option.split)
  qed
qed simp

lemma mt_send_pure:
  assumes "\<not> mt_closed t" and "P (t, w)" and "\<And>s. P s \<Longrightarrow> mt_sub_topic (fst s) = mt_sub_topic t"
    and "\<And>cb s. cb \<in> snd ` set (mt_subscribers t) \<Longrightarrow> P s \<Longrightarrow> run_cb cb m s = (Inr (), g cb s) \<and> P (g cb s)"
  shows "mt_send run_cb m (t, w) = mt_put m (fold g (mt_targets t (m_topic m)) (t, w))"
proof -
  have "py_for (mt_notify run_cb m) (mt_subscribers t) (t, w) = (Inr (), fold g (mt_targets t (m_topic m)) (t, w))"
    by (rule mt_notify_pure[where P = P]) (fact assms)+
  then show ?thesis using assms(1) by (simp add: mt_send_def py_simps)
qed

section \<open>Preservation of the invariant\<close>

definition mt_inv :: "'cb memory_transport \<Rightarrow> bool" where
  "mt_inv t = (mt_ok t \<and> mt_bounded t)"

lemma mt_ok_queues [simp]: "mt_ok (t\<lparr>mt_queues := q\<rparr>) = mt_ok t"
  by (simp add: mt_ok_def)

lemma mt_inv_queues: "mt_inv t \<Longrightarrow> mt_bounded (t\<lparr>mt_queues := q\<rparr>) \<Longrightarrow> mt_inv (t\<lparr>mt_queues := q\<rparr>)"
  by (simp add: mt_inv_def mt_ok_def)

lemma mt_put_inv: "mt_inv t \<Longrightarrow> mt_inv (fst (snd (mt_put m (t, w))))"
  using mt_put_bounded[of t m w]
  by (auto simp: mt_put_def Let_def mt_inv_def mt_ok_def)

lemma mt_pop_inv: "mt_inv t \<Longrightarrow> mt_inv (snd (mt_pop topic t))"
  unfolding mt_pop_def
  by (cases "mt_queue t topic")
    (auto intro!: mt_inv_queues simp: mt_inv_def mt_bounded_def mt_queue_def[symmetric] dest: spec[of _ topic])

lemma mt_add_inv: "mt_inv t \<Longrightarrow> dict_get (mt_subscribers t) i = None \<Longrightarrow> mt_inv (mt_add i p cb t)"
  by (simp add: mt_inv_def mt_add_ok) (simp add: mt_bounded_def mt_add_def mt_queue_def)

lemma mt_remove_queues: "mt_queues (mt_remove i t) = mt_queues t \<and> mt_max_queue_size (mt_remove i t) = mt_max_queue_size t"
  by (simp add: mt_remove_def Let_def split: option.split)

lemma mt_remove_inv: "mt_inv t \<Longrightarrow> mt_inv (mt_remove i t)"
  by (simp add: mt_inv_def mt_remove_ok) (simp add: mt_bounded_def mt_queue_def mt_remove_queues)

lemma mt_send_inv:
  assumes "\<And>cb m s. mt_inv (fst s) \<Longrightarrow> mt_inv (fst (snd (run_cb cb m s)))" and "mt_inv (fst s)"
  shows "mt_inv (fst (snd (mt_send run_cb m s)))"
proof -
  have step: "mt_inv (fst (snd (mt_notify run_cb m x s)))" if "mt_inv (fst s)" for x s
    using that assms(1)
    by (auto simp: mt_notify_def py_suppress_state split: prod.splits option.splits)
  have loop: "mt_inv (fst (snd (py_for (mt_notify run_cb m) subs s)))" for subs
    by (rule py_for_inv[where I = "\<lambda>s. mt_inv (fst s)"]) (simp_all add: step assms(2))
  obtain r s' where run: "py_for (mt_notify run_cb m) (mt_subscribers (fst s)) s = (r, s')" by (metis surj_pair)
  with loop have "mt_inv (fst s')" by (metis snd_conv)
  then show ?thesis
    using run assms(2) mt_put_inv[of "fst s'" m "snd s'"]
    by (cases r) (auto simp: mt_send_def py_simps split: prod.splits)
qed

section \<open>Properties\<close>

text \<open>
  Delivery. A send on an open transport calls each subscription whose pattern matches the
  topic, exactly once and in subscription order, whatever \<open>Exception\<close>s those callbacks raise; the
  message is then appended to its topic's queue, or, if that queue is at its bound,
  \<open>TransportFullError\<close> is raised after all of them were called and the queue keeps its contents.
\<close>

theorem memory_send_delivers:
  assumes "\<not> mt_closed t" and "catchable h"
  shows "\<exists>t'. mt_send (lift_rest h) m (t, w) =
      ((if queue_full (mt_max_queue_size t) (mt_queue t (m_topic m))
        then Inl (transport_full (mt_max_queue_size t) (m_topic m)) else Inr ()),
       (t', run_quietly h m (mt_targets t (m_topic m)) w)) \<and>
    mt_subscribers t' = mt_subscribers t \<and> mt_sub_topic t' = mt_sub_topic t \<and>
    (\<forall>topic. mt_queue t' topic = mt_queue t topic @
       (if topic = m_topic m \<and> \<not> queue_full (mt_max_queue_size t) (mt_queue t (m_topic m)) then [m] else []))"
proof -
  let ?w' = "run_quietly h m (mt_targets t (m_topic m)) w"
  obtain r t' w' where put: "mt_put m (t, ?w') = (r, (t', w'))" by (metis surj_pair)
  have "mt_send (lift_rest h) m (t, w) = (r, (t', w'))"
    using mt_send_quiet[where h = h, OF assms(1) assms(2)] put by simp
  then show ?thesis
    using mt_put_queue[OF put] mt_put_outcome[of m t ?w'] put by auto
qed

definition demo_message :: "string \<Rightarrow> string \<Rightarrow> message" where
  "demo_message i topic = \<lparr>m_id = i, m_topic = topic, m_payload = PNone, m_headers = [], m_timestamp = 0,
     m_reply_to = None, m_correlation_id = None\<rparr>"

theorem memory_send_delivers_witness:
  "\<exists>t'. mt_send (lift_rest (\<lambda>cb m w. (Inl (Exception ''E'' ''boom''), w @ [cb]))) (demo_message ''m1'' ''a'')
      (mt_add ''s2'' ''b'' (2::nat) (mt_add ''s1'' ''a'' 1 (mt_init 1)), []) = (Inr (), (t', [1]))"
  using memory_send_delivers[of "mt_add ''s2'' ''b'' (2::nat) (mt_add ''s1'' ''a'' 1 (mt_init 1))"
      "\<lambda>cb m w. (Inl (Exception ''E'' ''boom''), w @ [cb])" "demo_message ''m1'' ''a''" "[]"]
  by (auto simp: catchable_def mt_add_def mt_init_def demo_message_def queue_full_def mt_queue_def targets_def
      memory_matches_def fnmatch_def memory_pattern_def str_replace_code glob_tokens.simps Let_def)

text \<open>
  Well-formedness. Every operation of the transport keeps its subscription indexes consistent and
  its queues within the bound: \<open>subscribe\<close> with an unused id, \<open>unsubscribe\<close>, \<open>receive\<close>, \<open>close\<close>, and
  \<open>send\<close> with callbacks that may themselves use the transport in ways that keep this.
\<close>

theorem memory_transport_invariant:
  assumes "mt_inv t" and "dict_get (mt_subscribers t) new_id = None"
    and "\<And>cb m s. mt_inv (fst s) \<Longrightarrow> mt_inv (fst (snd (run_cb cb m s)))"
  shows "mt_inv (fst (snd (mt_subscribe new_id topic cb (t, w)))) \<and>
    mt_inv (fst (snd (mt_unsubscribe i (t, w)))) \<and>
    mt_inv (fst (snd (mt_receive topic timeout (t, w)))) \<and>
    mt_inv (fst (snd (mt_close (t, w)))) \<and>
    mt_inv (fst (snd (mt_send run_cb m (t, w))))"
proof (intro conjI)
  show "mt_inv (fst (snd (mt_subscribe new_id topic cb (t, w))))"
    using assms(1,2) by (simp add: mt_subscribe_def mt_add_inv)
  show "mt_inv (fst (snd (mt_unsubscribe i (t, w))))"
    using assms(1) by (simp add: mt_unsubscribe_def mt_remove_inv)
  show "mt_inv (fst (snd (mt_receive topic timeout (t, w))))"
    using assms(1) mt_pop_inv[of t topic]
    by (auto simp: mt_receive_def split: option.split prod.split)
  show "mt_inv (fst (snd (mt_close (t, w))))"
    using assms(1) by (simp add: mt_close_def py_simps mt_inv_def mt_ok_def mt_bounded_def mt_queue_def)
  show "mt_inv (fst (snd (mt_send run_cb m (t, w))))"
    using assms(1,3) by (intro mt_send_inv) simp_all
qed

theorem memory_transport_invariant_witness:
  "mt_inv (fst (snd (mt_send (\<lambda>cb m. mt_close) (demo_message ''m'' ''a'') (mt_add ''s1'' ''a'' () (mt_init 1), ()))))"
proof -
  have "mt_inv (mt_init 1 :: unit memory_transport)" by (simp add: mt_inv_def mt_init_ok)
  then have "mt_inv (mt_add ''s1'' ''a'' () (mt_init 1))" by (rule mt_add_inv) (simp add: mt_init_def)
  moreover have "mt_inv (fst (snd (mt_close s)))" if "mt_inv (fst s)" for s :: "unit memory_transport \<times> unit"
    using that by (cases s) (simp add: mt_close_def py_simps mt_inv_def mt_ok_def mt_bounded_def mt_queue_def)
  moreover have "dict_get (mt_subscribers (mt_add ''s1'' ''a'' () (mt_init 1))) ''s2'' = None"
    by (simp add: mt_add_def mt_init_def)
  ultimately show ?thesis
    by (intro memory_transport_invariant[where new_id = "''s2''", THEN conjunct2, THEN conjunct2,
          THEN conjunct2, THEN conjunct2]) simp_all
qed

text \<open>Sends that fit append to the topic's queue; receives drain it from the front.\<close>

lemma sends_append:
  assumes quiet: "catchable h"
    and "\<not> mt_closed t" "list_all (\<lambda>m. m_topic m = topic) ms"
    and "mt_max_queue_size t \<le> 0 \<or> int (length (mt_queue t topic @ ms)) \<le> mt_max_queue_size t"
  shows "\<exists>t' w'. py_for (mt_send (lift_rest h)) ms (t, w) = (Inr (), (t', w')) \<and>
    \<not> mt_closed t' \<and> mt_queue t' topic = mt_queue t topic @ ms"
  using assms(2-)
proof (induction ms arbitrary: t w)
  case (Cons m ms)
  obtain r t1 w1 where put: "mt_send (lift_rest h) m (t, w) = (r, (t1, w1))" by (metis surj_pair)
  with mt_send_quiet[where h = h and m = m and w = w, OF Cons.prems(1) quiet]
  have put': "mt_put m (t, run_quietly h m (mt_targets t (m_topic m)) w) = (r, (t1, w1))" by simp
  have room: "\<not> queue_full (mt_max_queue_size t) (mt_queue t topic)" "m_topic m = topic"
    using Cons.prems by (auto simp: queue_full_def)
  have "r = fst (mt_put m (t, run_quietly h m (mt_targets t (m_topic m)) w))"
    by (simp add: put')
  then have r: "r = Inr ()" using room by (simp add: mt_put_outcome)
  from mt_put_queue[OF put', of topic] room
  have t1: "\<not> mt_closed t1" "mt_queue t1 topic = mt_queue t topic @ [m]"
    "mt_max_queue_size t1 = mt_max_queue_size t"
    using Cons.prems(1) by simp_all
  with r Cons.IH[of t1 w1] Cons.prems put show ?case by auto
qed simp

lemma receives_drain:
  assumes "\<not> mt_closed t" "mt_queue t topic = ms"
  shows "\<exists>s2. py_map (\<lambda>_. mt_receive topic (Some 0)) ms (t, w) = (Inr (map (\<lambda>m. Got (Some m)) ms), s2)"
  using assms
proof (induction ms arbitrary: t)
  case (Cons m ms)
  let ?t1 = "t\<lparr>mt_queues := dict_set topic ms (mt_queues t)\<rparr>"
  have "mt_receive topic (Some 0) (t, w) = (Inr (Got (Some m)), (?t1, w))"
    using Cons.prems by (simp add: mt_receive_def mt_pop_def)
  with Cons.IH[of ?t1] Cons.prems(1) show ?case by (auto simp: mt_queue_def)
qed simp

text \<open>
  FIFO. Messages sent on a topic whose queue is empty and has room for them are received from it
  in the order they were sent.
\<close>

theorem memory_fifo:
  assumes "\<not> mt_closed t" and "mt_queue t topic = []" and "list_all (\<lambda>m. m_topic m = topic) ms"
    and "mt_max_queue_size t \<le> 0 \<or> int (length ms) \<le> mt_max_queue_size t"
    and "catchable h"
  shows "\<exists>s1 s2. py_for (mt_send (lift_rest h)) ms (t, w) = (Inr (), s1) \<and>
    py_map (\<lambda>_. mt_receive topic (Some 0)) ms s1 = (Inr (map (\<lambda>m. Got (Some m)) ms), s2)"
proof -
  have "\<exists>t' w'. py_for (mt_send (lift_rest h)) ms (t, w) = (Inr (), (t', w')) \<and>
      \<not> mt_closed t' \<and> mt_queue t' topic = mt_queue t topic @ ms"
    by (rule sends_append) (use assms in \<open>simp_all\<close>)
  then obtain t' w' where sent: "py_for (mt_send (lift_rest h)) ms (t, w) = (Inr (), (t', w'))"
    "\<not> mt_closed t'" "mt_queue t' topic = ms"
    using assms(2) by auto
  from receives_drain[OF sent(2,3), of w'] sent(1) show ?thesis by blast
qed

theorem memory_fifo_witness:
  "\<exists>s1 s2. py_for (mt_send (lift_rest (\<lambda>(cb::unit) m w. (Inr (), w))))
        [demo_message ''m1'' ''a'', demo_message ''m2'' ''a''] (mt_init 2, ()) = (Inr (), s1) \<and>
    py_map (\<lambda>_. mt_receive ''a'' (Some 0)) [demo_message ''m1'' ''a'', demo_message ''m2'' ''a''] s1 =
      (Inr (map (\<lambda>m. Got (Some m)) [demo_message ''m1'' ''a'', demo_message ''m2'' ''a'']), s2)"
  by (rule memory_fifo) (simp_all add: mt_init_def mt_queue_def demo_message_def catchable_def)

end
