(* ===== verification/Round_Robin.thy ===== *)
theory Round_Robin
  imports Main
begin

text \<open>
  The round-robin contract. Three parts of the program rotate over a list with a cursor
  (\<open>RoundRobinDispatcher\<close>, \<open>RoundRobinRPCClient\<close> and the consumer groups of \<open>WorkQueue\<close>), each with
  its own update of the cursor. The locale states what they share; fairness is proved once.
\<close>

text \<open>The first \<open>k\<close> picks of a cursor rule \<open>nxt\<close> over \<open>n\<close> entries, from cursor \<open>i\<close>.\<close>

fun rr_picks :: "(nat \<Rightarrow> nat \<Rightarrow> nat \<times> nat) \<Rightarrow> nat \<Rightarrow> nat \<Rightarrow> nat \<Rightarrow> nat list" where
  "rr_picks nxt n i 0 = []"
| "rr_picks nxt n i (Suc k) = (case nxt n i of (p, i') \<Rightarrow> p # rr_picks nxt n i' k)"

lemma count_list_distinct: "distinct xs \<Longrightarrow> count_list xs x = (if x \<in> set xs then 1 else 0)"
  by (induction xs) auto

lemma rotation_window:
  assumes "r \<le> n"
  shows "map (\<lambda>t. (i + t) mod n) [0..<r] = take r (rotate i [0..<n])"
  using assms by (intro nth_equalityI) (auto simp: nth_rotate)

lemma count_rotation_window:
  assumes "r \<le> n" "j < n"
  shows "count_list (map (\<lambda>t. (i + t) mod n) [0..<r]) j \<le> 1"
    and "r = n \<Longrightarrow> count_list (map (\<lambda>t. (i + t) mod n) [0..<r]) j = 1"
proof -
  have "distinct (take r (rotate i [0..<n]))" by simp
  then show "count_list (map (\<lambda>t. (i + t) mod n) [0..<r]) j \<le> 1"
    unfolding rotation_window[OF assms(1)] by (simp add: count_list_distinct)
  assume "r = n"
  then have "take r (rotate i [0..<n]) = rotate i [0..<n]" by simp
  then show "count_list (map (\<lambda>t. (i + t) mod n) [0..<r]) j = 1"
    unfolding rotation_window[OF assms(1)] using assms(2) by (simp add: count_list_distinct)
qed

lemma upt_add_map: "[0..<a + b] = [0..<a] @ map (\<lambda>t. a + t) [0..<b]"
  by (induction b) auto

lemma count_rotation:
  assumes "j < n"
  shows "k div n \<le> count_list (map (\<lambda>t. (i + t) mod n) [0..<k]) j \<and>
    count_list (map (\<lambda>t. (i + t) mod n) [0..<k]) j \<le> k div n + 1"
proof (induction k arbitrary: i rule: less_induct)
  case (less k)
  show ?case
  proof (cases "k < n")
    case True
    then show ?thesis using count_rotation_window(1)[of k n j i] assms by simp
  next
    case False
    then obtain m where k: "k = n + m" by (metis add_diff_inverse_nat)
    have m: "m < k" using assms k by simp
    have "map (\<lambda>t. (i + t) mod n) [0..<k] =
        map (\<lambda>t. (i + t) mod n) [0..<n] @ map (\<lambda>t. (i + t) mod n) [0..<m]"
      by (simp add: k upt_add_map comp_def)
        (metis (no_types, opaque_lifting) add.left_commute mod_add_self1)
    moreover have "count_list (map (\<lambda>t. (i + t) mod n) [0..<n]) j = 1"
      using count_rotation_window(2)[of n n j i] assms by simp
    moreover have "k div n = m div n + 1" using assms k by (simp add: div_add_self1)
    ultimately show ?thesis using less[OF m, of i] by simp
  qed
qed

locale round_robin =
  fixes nxt :: "nat \<Rightarrow> nat \<Rightarrow> nat \<times> nat"
    and ok :: "nat \<Rightarrow> nat \<Rightarrow> bool"
  assumes pick: "0 < n \<Longrightarrow> ok n i \<Longrightarrow> fst (nxt n i) = i mod n"
    and advance: "0 < n \<Longrightarrow> ok n i \<Longrightarrow> snd (nxt n i) mod n = Suc i mod n"
    and ok_next: "0 < n \<Longrightarrow> ok n i \<Longrightarrow> ok n (snd (nxt n i))"
begin

lemma picks:
  "0 < n \<Longrightarrow> ok n i \<Longrightarrow> rr_picks nxt n i k = map (\<lambda>t. (i + t) mod n) [0..<k]"
proof (induction k arbitrary: i)
  case 0
  then show ?case by simp
next
  case (Suc k)
  obtain p i' where nx: "nxt n i = (p, i')" by fastforce
  with Suc.prems pick[of n i] advance[of n i] ok_next[of n i]
  have p: "p = i mod n" and i': "i' mod n = Suc i mod n" and ok': "ok n i'" by auto
  have "rr_picks nxt n i' k = map (\<lambda>t. (i' + t) mod n) [0..<k]"
    using Suc.IH Suc.prems ok' by blast
  also have "\<dots> = map (\<lambda>t. (Suc i + t) mod n) [0..<k]"
    using i' by (metis mod_add_left_eq)
  also have "\<dots> = map (\<lambda>t. (i + t) mod n) [Suc 0..<Suc k]"
    by (simp add: map_Suc_upt[symmetric] comp_def del: upt_Suc)
  finally show ?case
    using nx p by (simp add: upt_conv_Cons del: upt_Suc)
qed

lemma fair:
  assumes "j < n" "ok n i"
  shows "k div n \<le> count_list (rr_picks nxt n i k) j \<and>
    count_list (rr_picks nxt n i k) j \<le> k div n + 1"
proof -
  have "0 < n" using assms(1) by simp
  then show ?thesis using picks[of n i k] count_rotation[OF assms(1), of k i] assms(2) by simp
qed

lemma in_range: "0 < n \<Longrightarrow> ok n i \<Longrightarrow> p \<in> set (rr_picks nxt n i k) \<Longrightarrow> p < n"
  by (auto simp: picks)

end

end
