(* ===== verification/Observers.thy ===== *)
theory Observers
  imports EF_Types Round_Robin "HOL-Library.Char_ord" "HOL-Library.List_Lexorder"
begin

text \<open>
  The dispatch core of \<open>src/eventforge/observers.py\<close>: \<open>Node\<close>, the four dispatchers, \<open>Eventful\<close>
  channels with their class-level subscribers, and \<open>Observable\<close>.

  Callables are names of type \<open>'h\<close>; what a call does is a parameter (\<open>call\<close>), a computation on the
  whole program state \<open>'s\<close>, so a subscriber may subscribe, unsubscribe, fire or raise. The objects
  the code mutates live in a store (\<open>'h objects\<close>, reached through \<open>obj\<close> and \<open>upd_obj\<close>): nodes by
  name, channels and round-robin cursors by address, and the global registry of class-level
  subscribers. Dispatcher objects may be shared between channels, as a \<open>Meter\<close> does.
\<close>

section \<open>The object store\<close>

record node =
  nd_name :: string
  nd_cpus :: int
  nd_memory_gb :: real
  nd_gpus :: "int list"
  nd_in_flight :: int

datatype dispatcher = Broadcast | RoundRobin nat | Concurrent | LeastLoaded

record 'h eventful =
  ev_subscribers :: "'h list"
  ev_dispatcher :: dispatcher
  ev_owner_mro :: "string list option"
  ev_name :: "string option"

type_synonym 'h class_subscribers = "(string, (string, 'h list) dict) dict"

record 'h objects =
  o_nodes :: "'h \<rightharpoonup> node"
  o_eventfuls :: "nat \<Rightarrow> 'h eventful"
  o_rr_idx :: "nat \<Rightarrow> nat"
  o_class_subscribers :: "'h class_subscribers"

record ('h, 'a, 's) env =
  call :: "'h \<Rightarrow> 'a \<Rightarrow> ('s, pyval) py"
  submit :: "'h \<Rightarrow> 'a \<Rightarrow> ('s, unit) py"
  load_of :: "'h \<Rightarrow> ('s, real) py"
  obj :: "'s \<Rightarrow> 'h objects"
  upd_obj :: "('h objects \<Rightarrow> 'h objects) \<Rightarrow> 's \<Rightarrow> 's"

section \<open>Node\<close>

definition capacity :: "node \<Rightarrow> int" where
  "capacity n = (let g = int (length (nd_gpus n)) in if g \<noteq> 0 then g else max (nd_cpus n div 4) 1)"

definition node_load :: "node \<Rightarrow> real" where
  "node_load n = real_of_int (nd_in_flight n) / real_of_int (capacity n)"

definition try_acquire :: "node \<Rightarrow> bool \<times> node" where
  "try_acquire n =
     (if nd_in_flight n \<ge> capacity n then (False, n)
      else (True, n\<lparr>nd_in_flight := nd_in_flight n + 1\<rparr>))"

definition node_release :: "node \<Rightarrow> node" where
  "node_release n = (if nd_in_flight n > 0 then n\<lparr>nd_in_flight := nd_in_flight n - 1\<rparr> else n)"

definition set_node :: "('h, 'a, 's) env \<Rightarrow> 'h \<Rightarrow> node \<Rightarrow> ('s, unit) py" where
  "set_node env h n = py_modify (upd_obj env (\<lambda>b. b\<lparr>o_nodes := (o_nodes b)(h \<mapsto> n)\<rparr>))"

definition upd_node :: "('h, 'a, 's) env \<Rightarrow> 'h \<Rightarrow> (node \<Rightarrow> node) \<Rightarrow> ('s, unit) py" where
  "upd_node env h f = py_bind (py_gets (\<lambda>s. o_nodes (obj env s) h))
     (\<lambda>no. case no of None \<Rightarrow> py_ret () | Some n \<Rightarrow> set_node env h (f n))"

text \<open>Calling a subscriber: a \<open>Node\<close> counts the call while its handler runs (\<open>Node.__call__\<close>).\<close>

definition invoke :: "('h, 'a, 's) env \<Rightarrow> 'h \<Rightarrow> 'a \<Rightarrow> ('s, pyval) py" where
  "invoke env h a = (\<lambda>s. case o_nodes (obj env s) h of
       None \<Rightarrow> call env h a s
     | Some _ \<Rightarrow>
         py_seq (upd_node env h (\<lambda>n. n\<lparr>nd_in_flight := nd_in_flight n + 1\<rparr>))
           (py_finally (call env h a)
             (upd_node env h (\<lambda>n. n\<lparr>nd_in_flight := nd_in_flight n - 1\<rparr>))) s)"

section \<open>Dispatchers\<close>

definition broadcast_dispatch :: "('h, 'a, 's) env \<Rightarrow> 'h list \<Rightarrow> 'a \<Rightarrow> ('s, unit) py" where
  "broadcast_dispatch env subscribers a = py_for (\<lambda>fn. py_void (invoke env fn a)) subscribers"

text \<open>The cursor of \<open>RoundRobinDispatcher\<close>: which of \<open>n\<close> subscribers, and the next cursor.\<close>

definition rr_next :: "nat \<Rightarrow> nat \<Rightarrow> nat \<times> nat" where
  "rr_next n idx = (idx mod n, idx + 1)"

definition round_robin_dispatch ::
  "('h, 'a, 's) env \<Rightarrow> nat \<Rightarrow> 'h list \<Rightarrow> 'a \<Rightarrow> ('s, unit) py" where
  "round_robin_dispatch env self subscribers a =
     (if subscribers = [] then py_ret ()
      else py_bind (py_gets (\<lambda>s. o_rr_idx (obj env s) self)) (\<lambda>idx.
        case rr_next (length subscribers) idx of (i, idx') \<Rightarrow>
        py_seq (py_modify (upd_obj env (\<lambda>b. b\<lparr>o_rr_idx := (o_rr_idx b)(self := idx')\<rparr>)))
          (py_suppress (py_void (invoke env (subscribers ! i) a)))))"

definition concurrent_dispatch :: "('h, 'a, 's) env \<Rightarrow> 'h list \<Rightarrow> 'a \<Rightarrow> ('s, unit) py" where
  "concurrent_dispatch env subscribers a = py_for (\<lambda>fn. py_suppress (submit env fn a)) subscribers"

text \<open>\<open>load()\<close> of a subscriber: a \<open>Node\<close> computes it, any other object reports its own.\<close>

definition sub_load :: "('h, 'a, 's) env \<Rightarrow> 'h \<Rightarrow> ('s, real) py" where
  "sub_load env h = (\<lambda>s. case o_nodes (obj env s) h of
       Some n \<Rightarrow> (Inr (node_load n), s) | None \<Rightarrow> load_of env h s)"

fun select_first :: "('h, 'a, 's) env \<Rightarrow> 'h list \<Rightarrow> ('s, 'h \<times> bool) py" where
  "select_first env [] s = (Inl (Exception ''RuntimeError'' ''all subscribers saturated''), s)"
| "select_first env (sub # subs) s =
     (case o_nodes (obj env s) sub of
        Some n \<Rightarrow>
          (case try_acquire n of
             (True, n') \<Rightarrow> (Inr (sub, True), snd (set_node env sub n' s))
           | (False, _) \<Rightarrow> select_first env subs s)
      | None \<Rightarrow>
          (case load_of env sub s of
             (Inl e, s') \<Rightarrow> (Inl e, s')
           | (Inr l, s') \<Rightarrow> if l < 1 then (Inr (sub, False), s') else select_first env subs s'))"

definition by_load :: "(real \<times> 'h) list \<Rightarrow> 'h list" where
  "by_load xs = map snd (sort_key fst xs)"

definition ll_select :: "('h, 'a, 's) env \<Rightarrow> 'h list \<Rightarrow> ('s, 'h \<times> bool) py" where
  "ll_select env subscribers =
     py_bind (py_map (sub_load env) subscribers) (\<lambda>loads.
       select_first env (by_load (zip loads subscribers)))"

definition ll_release :: "('h, 'a, 's) env \<Rightarrow> 'h \<Rightarrow> bool \<Rightarrow> ('s, unit) py" where
  "ll_release env chosen reserved =
     (if reserved then upd_node env chosen node_release else py_ret ())"

definition ll_call :: "('h, 'a, 's) env \<Rightarrow> 'h \<Rightarrow> bool \<Rightarrow> 'a \<Rightarrow> ('s, pyval) py" where
  "ll_call env chosen reserved a =
     (if reserved then call env chosen a else invoke env chosen a)"

definition ll_route :: "('h, 'a, 's) env \<Rightarrow> 'h list \<Rightarrow> 'a \<Rightarrow> ('s, pyval) py" where
  "ll_route env subscribers a =
     py_bind (ll_select env subscribers) (\<lambda>(chosen, reserved).
       py_finally (ll_call env chosen reserved a) (ll_release env chosen reserved))"

definition least_loaded_dispatch :: "('h, 'a, 's) env \<Rightarrow> 'h list \<Rightarrow> 'a \<Rightarrow> ('s, unit) py" where
  "least_loaded_dispatch env subscribers a =
     (if subscribers = [] then py_ret ()
      else py_bind (ll_select env subscribers) (\<lambda>(chosen, reserved).
        py_finally (py_suppress (py_void (ll_call env chosen reserved a)))
          (ll_release env chosen reserved)))"

definition dispatch :: "('h, 'a, 's) env \<Rightarrow> dispatcher \<Rightarrow> 'h list \<Rightarrow> 'a \<Rightarrow> ('s, unit) py" where
  "dispatch env d = (case d of
       Broadcast \<Rightarrow> broadcast_dispatch env
     | RoundRobin self \<Rightarrow> round_robin_dispatch env self
     | Concurrent \<Rightarrow> concurrent_dispatch env
     | LeastLoaded \<Rightarrow> least_loaded_dispatch env)"

section \<open>Eventful\<close>

definition eventful_new :: "dispatcher option \<Rightarrow> string list option \<Rightarrow> string option \<Rightarrow> 'h eventful" where
  "eventful_new d owner nm =
     \<lparr>ev_subscribers = [], ev_dispatcher = (case d of None \<Rightarrow> Broadcast | Some x \<Rightarrow> x),
      ev_owner_mro = owner, ev_name = nm\<rparr>"

definition upd_eventful ::
  "('h, 'a, 's) env \<Rightarrow> nat \<Rightarrow> ('h eventful \<Rightarrow> 'h eventful) \<Rightarrow> ('s, unit) py" where
  "upd_eventful env ch f =
     py_modify (upd_obj env (\<lambda>b. b\<lparr>o_eventfuls := (o_eventfuls b)(ch := f (o_eventfuls b ch))\<rparr>))"

definition ev_subscribe :: "('h, 'a, 's) env \<Rightarrow> nat \<Rightarrow> 'h \<Rightarrow> ('s, 'h) py" where
  "ev_subscribe env ch fn =
     py_seq (upd_eventful env ch (\<lambda>c. c\<lparr>ev_subscribers := ev_subscribers c @ [fn]\<rparr>)) (py_ret fn)"

definition ev_unsubscribe :: "('h, 'a, 's) env \<Rightarrow> nat \<Rightarrow> 'h \<Rightarrow> ('s, bool) py" where
  "ev_unsubscribe env ch fn =
     py_bind (py_gets (\<lambda>s. ev_subscribers (o_eventfuls (obj env s) ch))) (\<lambda>subs.
       if fn \<in> set subs
       then py_seq (upd_eventful env ch (\<lambda>c. c\<lparr>ev_subscribers := remove1 fn (ev_subscribers c)\<rparr>))
              (py_ret True)
       else py_ret False)"

definition class_subs :: "'h class_subscribers \<Rightarrow> string \<Rightarrow> string \<Rightarrow> 'h list" where
  "class_subs reg klass nm = dict_get_default (dict_get_default reg klass []) nm []"

definition fire_class :: "('h, 'a, 's) env \<Rightarrow> string \<Rightarrow> 'a \<Rightarrow> string \<Rightarrow> ('s, unit) py" where
  "fire_class env nm a klass =
     (if klass = ''object'' then py_ret ()
      else py_bind (py_gets (\<lambda>s. class_subs (o_class_subscribers (obj env s)) klass nm)) (\<lambda>cls_subs.
        py_for (\<lambda>fn. py_suppress (py_void (invoke env fn a))) cls_subs))"

definition ev_fire :: "('h, 'a, 's) env \<Rightarrow> nat \<Rightarrow> 'a \<Rightarrow> ('s, unit) py" where
  "ev_fire env ch a =
     py_bind (py_gets (\<lambda>s. o_eventfuls (obj env s) ch)) (\<lambda>c.
       py_seq (dispatch env (ev_dispatcher c) (ev_subscribers c) a)
         (case (ev_owner_mro c, ev_name c) of
            (Some mro, Some nm) \<Rightarrow> py_for (fire_class env nm a) mro
          | _ \<Rightarrow> py_ret ()))"

definition ev_subscribers_of :: "('h, 'a, 's) env \<Rightarrow> nat \<Rightarrow> ('s, 'h list) py" where
  "ev_subscribers_of env ch = py_gets (\<lambda>s. ev_subscribers (o_eventfuls (obj env s) ch))"

definition set_dispatcher :: "('h, 'a, 's) env \<Rightarrow> nat \<Rightarrow> dispatcher \<Rightarrow> ('s, unit) py" where
  "set_dispatcher env ch d = upd_eventful env ch (\<lambda>c. c\<lparr>ev_dispatcher := d\<rparr>)"

text \<open>\<open>_register_class_subscriber\<close>\<close>

definition register_class_subscriber ::
  "('h, 'a, 's) env \<Rightarrow> string \<Rightarrow> string \<Rightarrow> 'h \<Rightarrow> ('s, unit) py" where
  "register_class_subscriber env target_cls event fn =
     py_modify (upd_obj env (\<lambda>b. b\<lparr>o_class_subscribers :=
       (let reg = o_class_subscribers b;
            evs = dict_get_default reg target_cls [];
            fns = dict_get_default evs event []
        in dict_set target_cls (dict_set event (fns @ [fn]) evs) reg)\<rparr>))"

section \<open>Observable\<close>

text \<open>The attributes of an instance: channels (by address) and anything else.\<close>

datatype attr = AEventful nat | AOther

type_synonym attrs = "(string, attr) dict"

definition no_eventful :: "string \<Rightarrow> string \<Rightarrow> pyexn" where
  "no_eventful cls event =
     Exception ''AttributeError'' (cls @ '' has no Eventful attribute '' @ py_repr event)"

definition obs_on :: "('h, 'a, 's) env \<Rightarrow> string \<Rightarrow> attrs \<Rightarrow> string \<Rightarrow> 'h \<Rightarrow> ('s, 'h) py" where
  "obs_on env cls self event fn = (case dict_get self event of
       Some (AEventful ch) \<Rightarrow> ev_subscribe env ch fn
     | _ \<Rightarrow> py_raise (no_eventful cls event))"

definition obs_fire :: "('h, 'a, 's) env \<Rightarrow> string \<Rightarrow> attrs \<Rightarrow> string \<Rightarrow> 'a \<Rightarrow> ('s, unit) py" where
  "obs_fire env cls self event a = (case dict_get self event of
       Some (AEventful ch) \<Rightarrow> ev_fire env ch a
     | _ \<Rightarrow> py_raise (no_eventful cls event))"

definition obs_events :: "attrs \<Rightarrow> string list" where
  "obs_events self = sort (map fst (filter (\<lambda>(nm, v).
     \<not> (nm \<noteq> [] \<and> hd nm = CHR ''_'') \<and> (case v of AEventful _ \<Rightarrow> True | AOther \<Rightarrow> False)) self))"

section \<open>The contract of the store\<close>

definition has_spare :: "node \<Rightarrow> bool" where
  "has_spare n = (nd_in_flight n < capacity n)"

definition booked :: "node \<Rightarrow> node" where
  "booked n = n\<lparr>nd_in_flight := nd_in_flight n + 1\<rparr>"

text \<open>Every node has between zero and \<open>capacity\<close> calls in flight.\<close>

definition nodes_ok :: "('h \<rightharpoonup> node) \<Rightarrow> bool" where
  "nodes_ok ns = (\<forall>h n. ns h = Some n \<longrightarrow> 0 \<le> nd_in_flight n \<and> nd_in_flight n \<le> capacity n)"

definition saturated_error :: pyexn where
  "saturated_error = Exception ''RuntimeError'' ''all subscribers saturated''"

lemma capacity_pos: "0 < capacity n"
  by (auto simp: capacity_def Let_def max_def)

lemma capacity_booked [simp]: "capacity (n\<lparr>nd_in_flight := k\<rparr>) = capacity n"
  by (simp add: capacity_def)

lemma try_acquire_spare: "try_acquire n = (if has_spare n then (True, booked n) else (False, n))"
  by (simp add: try_acquire_def has_spare_def booked_def)

lemma booked_release: "0 \<le> nd_in_flight n \<Longrightarrow> node_release (booked n) = n"
  by (simp add: node_release_def booked_def)

lemma sort_key_zip: "by_load (zip (map f xs) xs) = sort_key f xs"
proof -
  have "insort_key fst (f x, x) (map (\<lambda>x. (f x, x)) ys) = map (\<lambda>x. (f x, x)) (insort_key f x ys)" for x ys
    by (induction ys) auto
  then have "sort_key fst (map (\<lambda>x. (f x, x)) xs) = map (\<lambda>x. (f x, x)) (sort_key f xs)"
    by (induction xs) simp_all
  moreover have "zip (map f xs) xs = map (\<lambda>x. (f x, x)) xs"
    by (induction xs) auto
  ultimately show ?thesis by (simp add: by_load_def comp_def)
qed

lemma find_sorted_min:
  assumes "find P (sort_key f xs) = Some h" and "h' \<in> set xs" and "P h'"
  shows "h \<in> set xs \<and> P h \<and> f h \<le> (f h' :: real)"
proof -
  let ?ys = "sort_key f xs"
  obtain i where i: "i < length ?ys" "P (?ys ! i)" "h = ?ys ! i" "\<And>j. j < i \<Longrightarrow> \<not> P (?ys ! j)"
    using assms(1) by (auto simp: find_Some_iff)
  obtain j where j: "j < length ?ys" "h' = ?ys ! j"
    using assms(2) by (metis in_set_conv_nth set_sort)
  with assms(3) i(4) have "i \<le> j" by (meson not_le)
  then have "map f ?ys ! i \<le> map f ?ys ! j"
    using j(1) by (intro sorted_nth_mono) simp_all
  moreover have "h \<in> set xs" using i(1,3) by (metis nth_mem set_sort)
  ultimately show ?thesis using i(1,2,3) j by simp
qed

lemma node_release_ok:
  "0 \<le> nd_in_flight n \<and> nd_in_flight n \<le> capacity n \<Longrightarrow>
     0 \<le> nd_in_flight (node_release n) \<and> nd_in_flight (node_release n) \<le> capacity (node_release n)"
  by (simp add: node_release_def)

lemma nodes_ok_upd:
  "nodes_ok ns \<Longrightarrow> 0 \<le> nd_in_flight n \<Longrightarrow> nd_in_flight n \<le> capacity n \<Longrightarrow> nodes_ok (ns(h \<mapsto> n))"
  by (simp add: nodes_ok_def)

lemma nodes_okD: "nodes_ok ns \<Longrightarrow> ns h = Some n \<Longrightarrow> 0 \<le> nd_in_flight n \<and> nd_in_flight n \<le> capacity n"
  by (simp add: nodes_ok_def)

lemma nodes_ok_booked: "nodes_ok ns \<Longrightarrow> ns h = Some n \<Longrightarrow> has_spare n \<Longrightarrow> nodes_ok (ns(h \<mapsto> booked n))"
  by (rule nodes_ok_upd) (auto simp: has_spare_def booked_def dest: nodes_okD)

locale object_store =
  fixes env :: "('h, 'a, 's) env"
  assumes obj_upd: "obj env (upd_obj env f s) = f (obj env s)"
begin

lemma o_nodes_set_node [simp]:
  "o_nodes (obj env (snd (set_node env h n s))) = (o_nodes (obj env s))(h \<mapsto> n)"
  by (simp add: set_node_def py_simps obj_upd)

lemma set_node_ok [simp]: "fst (set_node env h n s) = Inr ()"
  by (simp add: set_node_def py_simps)

lemma upd_node_ok [simp]: "fst (upd_node env h f s) = Inr ()"
  by (cases "o_nodes (obj env s) h") (simp_all add: upd_node_def py_simps set_node_def)

lemma o_nodes_upd_node:
  "o_nodes (obj env (snd (upd_node env h f s))) =
     (case o_nodes (obj env s) h of None \<Rightarrow> o_nodes (obj env s)
      | Some n \<Rightarrow> (o_nodes (obj env s))(h \<mapsto> f n))"
  by (simp add: upd_node_def py_simps set_node_def obj_upd split: option.split)

lemma py_map_loads:
  "\<forall>h \<in> set subs. o_nodes (obj env s) h \<noteq> None \<Longrightarrow>
     py_map (sub_load env) subs s =
       (Inr (map (\<lambda>h. node_load (the (o_nodes (obj env s) h))) subs), s)"
  by (induction subs) (auto simp: sub_load_def)

lemma select_first_nodes:
  "\<forall>h \<in> set hs. o_nodes (obj env s) h \<noteq> None \<Longrightarrow>
     select_first env hs s =
       (case find (\<lambda>h. has_spare (the (o_nodes (obj env s) h))) hs of
          None \<Rightarrow> (Inl saturated_error, s)
        | Some h \<Rightarrow> (Inr (h, True), snd (set_node env h (booked (the (o_nodes (obj env s) h))) s)))"
  by (induction hs) (auto simp: try_acquire_spare saturated_error_def)

lemma ll_select_nodes:
  assumes "\<forall>h \<in> set subs. o_nodes (obj env s) h \<noteq> None"
  shows "ll_select env subs s =
    (case find (\<lambda>h. has_spare (the (o_nodes (obj env s) h)))
        (sort_key (\<lambda>h. node_load (the (o_nodes (obj env s) h))) subs) of
       None \<Rightarrow> (Inl saturated_error, s)
     | Some h \<Rightarrow> (Inr (h, True), snd (set_node env h (booked (the (o_nodes (obj env s) h))) s)))"
  using assms
  by (simp add: ll_select_def py_simps py_map_loads sort_key_zip select_first_nodes)

lemma select_first_keeps_nodes_ok:
  assumes "\<And>h s. o_nodes (obj env (snd (load_of env h s))) = o_nodes (obj env s)"
  shows "nodes_ok (o_nodes (obj env s)) \<Longrightarrow> nodes_ok (o_nodes (obj env (snd (select_first env hs s))))"
proof (induction hs arbitrary: s)
  case Nil
  then show ?case by simp
next
  case (Cons h hs)
  show ?case
  proof (cases "o_nodes (obj env s) h")
    case (Some n)
    with Cons show ?thesis
      by (cases "has_spare n") (simp_all add: try_acquire_spare nodes_ok_booked del: fun_upd_apply)
  next
    case None
    obtain r s' where ld: "load_of env h s = (r, s')" by fastforce
    with assms[of h s] have "o_nodes (obj env s') = o_nodes (obj env s)" by simp
    with Cons None ld show ?thesis by (auto split: sum.split)
  qed
qed

lemma py_map_keeps_nodes:
  assumes "\<And>h s. o_nodes (obj env (snd (load_of env h s))) = o_nodes (obj env s)"
  shows "o_nodes (obj env (snd (py_map (sub_load env) hs s))) = o_nodes (obj env s)"
proof (induction hs arbitrary: s)
  case Nil
  show ?case by simp
next
  case (Cons h hs)
  obtain r s' where ld: "sub_load env h s = (r, s')" by fastforce
  with assms[of h s] have "o_nodes (obj env s') = o_nodes (obj env s)"
    by (auto simp: sub_load_def split: option.splits)
  with Cons[of s'] ld show ?case by (auto split: sum.split prod.split)
qed

lemma ll_select_keeps_nodes_ok:
  assumes "\<And>h s. o_nodes (obj env (snd (load_of env h s))) = o_nodes (obj env s)"
    and "nodes_ok (o_nodes (obj env s))"
  shows "nodes_ok (o_nodes (obj env (snd (ll_select env subs s))))"
proof -
  obtain r s' where m: "py_map (sub_load env) subs s = (r, s')" by fastforce
  with py_map_keeps_nodes[OF assms(1), of subs s] assms(2)
  have "nodes_ok (o_nodes (obj env s'))" by simp
  with m show ?thesis
    by (cases r) (auto simp: ll_select_def py_simps intro!: select_first_keeps_nodes_ok assms(1))
qed

lemma ll_release_keeps_nodes_ok:
  "nodes_ok (o_nodes (obj env s)) \<Longrightarrow> nodes_ok (o_nodes (obj env (snd (ll_release env h b s))))"
  by (cases "o_nodes (obj env s) h")
    (simp_all add: ll_release_def py_simps o_nodes_upd_node nodes_ok_upd node_release_ok nodes_okD)

end

section \<open>Channels in the store\<close>

context object_store begin

lemma o_eventfuls_upd_eventful [simp]:
  "o_eventfuls (obj env (snd (upd_eventful env ch f s))) =
     (o_eventfuls (obj env s))(ch := f (o_eventfuls (obj env s) ch))"
  by (simp add: upd_eventful_def py_simps obj_upd)

lemma ev_subscribe_subs:
  "ev_subscribers (o_eventfuls (obj env (snd (ev_subscribe env ch fn s))) ch') =
     ev_subscribers (o_eventfuls (obj env s) ch') @ (if ch' = ch then [fn] else [])"
  by (simp add: ev_subscribe_def py_simps upd_eventful_def obj_upd)

lemma ev_unsubscribe_subs:
  "ev_subscribers (o_eventfuls (obj env (snd (ev_unsubscribe env ch fn s))) ch') =
     (if ch' = ch then remove1 fn (ev_subscribers (o_eventfuls (obj env s) ch))
      else ev_subscribers (o_eventfuls (obj env s) ch'))"
  by (auto simp: ev_unsubscribe_def py_simps upd_eventful_def obj_upd remove1_idem)

lemma ev_unsubscribe_result:
  "fst (ev_unsubscribe env ch fn s) = Inr (fn \<in> set (ev_subscribers (o_eventfuls (obj env s) ch)))"
  by (simp add: ev_unsubscribe_def py_simps upd_eventful_def)

lemma fire_plain:
  assumes "ev_owner_mro (o_eventfuls (obj env s) ch) = None"
  shows "ev_fire env ch a s =
    dispatch env (ev_dispatcher (o_eventfuls (obj env s) ch)) (ev_subscribers (o_eventfuls (obj env s) ch)) a s"
  using assms by (auto simp: ev_fire_def py_simps split: prod.split sum.split)

text \<open>Where every exception is an \<open>Exception\<close>, class-level subscribers cannot make a fire fail.\<close>

lemma fire_class_ok:
  assumes "\<And>h s e s'. invoke env h a s = (Inl e, s') \<Longrightarrow> is_Exc e"
  shows "fst (fire_class env nm a klass s) = Inr ()"
proof -
  have "fst (py_suppress (py_void (invoke env fn a)) s) = Inr ()" for fn s
    by (rule py_suppress_ok) (auto simp: py_simps split: prod.splits sum.splits dest: assms)
  then show ?thesis
    by (simp add: fire_class_def py_simps(1,3,4,5) py_bind_apply py_for_ok)
qed

lemma fire_with_owner:
  assumes "ev_owner_mro (o_eventfuls (obj env s) ch) = Some mro"
    and "ev_name (o_eventfuls (obj env s) ch) = Some nm"
    and "\<And>h s e s'. invoke env h a s = (Inl e, s') \<Longrightarrow> is_Exc e"
  shows "fst (ev_fire env ch a s) =
    fst (dispatch env (ev_dispatcher (o_eventfuls (obj env s) ch)) (ev_subscribers (o_eventfuls (obj env s) ch)) a s)"
proof -
  have "fst (py_for (fire_class env nm a) mro s) = Inr ()" for s
    by (subst py_for_ok) (simp_all add: fire_class_ok assms(3))
  then show ?thesis
    using assms(1,2) by (auto simp: ev_fire_def py_simps split: prod.split sum.split)
qed

lemma invoke_plain: "o_nodes (obj env s) h = None \<Longrightarrow> invoke env h a s = call env h a s"
  by (simp add: invoke_def)

end

section \<open>What firing leaves alone\<close>

text \<open>If no callable and no update of the objects touches a part of the state, no fire does.\<close>

lemma keeps_upd_node:
  "(\<And>f s. g (upd_obj env f s) = g s) \<Longrightarrow> py_keeps g (upd_node env h f)"
  unfolding upd_node_def set_node_def by (intro keeps) (auto split: option.split intro: keeps)

lemma keeps_invoke:
  assumes "\<And>h a. py_keeps g (call env h a)" "\<And>f s. g (upd_obj env f s) = g s"
  shows "py_keeps g (invoke env h a)"
proof -
  have "py_keeps g (py_seq (upd_node env h (\<lambda>n. n\<lparr>nd_in_flight := nd_in_flight n + 1\<rparr>))
      (py_finally (call env h a) (upd_node env h (\<lambda>n. n\<lparr>nd_in_flight := nd_in_flight n - 1\<rparr>))))"
    by (intro keeps keeps_upd_node assms)
  then show ?thesis
    using assms(1)[of h a] by (auto simp: py_keeps_def invoke_def split: option.split)
qed

lemma keeps_select:
  assumes "\<And>h. py_keeps g (load_of env h)" "\<And>f s. g (upd_obj env f s) = g s"
  shows "py_keeps g (ll_select env subs)"
proof -
  have "py_keeps g (sub_load env h)" for h
    using assms(1) by (auto simp: py_keeps_def sub_load_def split: option.split)
  moreover have "g (snd (select_first env hs s)) = g s" for hs s
  proof (induction hs arbitrary: s)
    case (Cons h hs)
    obtain r s1 where ld: "load_of env h s = (r, s1)" by fastforce
    have "g s1 = g s" using py_keepsD[OF assms(1) ld] .
    with Cons[of s1] Cons[of s] ld show ?case
      by (auto simp: set_node_def py_simps assms(2) split: option.split sum.split prod.split bool.split)
  qed simp
  then have "py_keeps g (select_first env hs)" for hs by (simp add: py_keeps_def)
  ultimately show ?thesis unfolding ll_select_def by (intro keeps)
qed

lemma keeps_dispatch:
  assumes "\<And>h a. py_keeps g (call env h a)" "\<And>h a. py_keeps g (submit env h a)" "\<And>h. py_keeps g (load_of env h)"
    "\<And>f s. g (upd_obj env f s) = g s"
  shows "py_keeps g (dispatch env d subs a)"
proof (cases d)
  case LeastLoaded
  have "py_keeps g (ll_call env h b a)" "py_keeps g (ll_release env h b)" for h b
    unfolding ll_call_def ll_release_def by (auto intro: keeps keeps_invoke keeps_upd_node assms)
  then show ?thesis
    unfolding LeastLoaded dispatch_def least_loaded_dispatch_def
    by (auto intro!: keeps keeps_select assms)
qed (auto simp: dispatch_def broadcast_dispatch_def round_robin_dispatch_def concurrent_dispatch_def
    split: prod.split intro!: keeps keeps_invoke assms)

lemma keeps_fire:
  assumes "\<And>h a. py_keeps g (call env h a)" "\<And>h a. py_keeps g (submit env h a)" "\<And>h. py_keeps g (load_of env h)"
    "\<And>f s. g (upd_obj env f s) = g s"
  shows "py_keeps g (ev_fire env ch a)"
proof -
  have "py_keeps g (fire_class env nm a k)" for nm k
    unfolding fire_class_def by (auto intro!: keeps keeps_invoke assms)
  then show ?thesis
    unfolding ev_fire_def by (auto split: option.split intro!: keeps keeps_dispatch assms)
qed

section \<open>The program's own store\<close>

text \<open>
  The state of a program that uses only the observer core: the objects, and everything else
  (\<open>'w\<close>). Calls, submissions and foreign \<open>load()\<close> methods are arbitrary computations on it.
\<close>

definition base_env ::
  "('h \<Rightarrow> 'a \<Rightarrow> ('h objects \<times> 'w, pyval) py) \<Rightarrow> ('h \<Rightarrow> 'a \<Rightarrow> ('h objects \<times> 'w, unit) py) \<Rightarrow>
   ('h \<Rightarrow> ('h objects \<times> 'w, real) py) \<Rightarrow> ('h, 'a, 'h objects \<times> 'w) env" where
  "base_env c sb ld = \<lparr>call = c, submit = sb, load_of = ld, obj = fst, upd_obj = apfst\<rparr>"

lemma base_env_simps [simp]:
  "call (base_env c sb ld) = c" "submit (base_env c sb ld) = sb" "load_of (base_env c sb ld) = ld"
  "obj (base_env c sb ld) = fst" "upd_obj (base_env c sb ld) = apfst"
  by (simp_all add: base_env_def)

interpretation base: object_store "base_env c sb ld" for c sb ld
  by unfold_locales simp

interpretation rr_dispatcher: round_robin rr_next "\<lambda>_ _. True"
  by unfold_locales (simp_all add: rr_next_def)

text \<open>
  A schedule of reservations and releases, as concurrent callers of a least-loaded dispatcher make
  them: each is one critical section.
\<close>

datatype 'h node_op = NSelect "'h list" | NRelease 'h

definition node_step :: "('h, 'a, 's) env \<Rightarrow> 'h node_op \<Rightarrow> 's \<Rightarrow> 's" where
  "node_step env op s = (case op of
       NSelect subs \<Rightarrow> snd (ll_select env subs s)
     | NRelease h \<Rightarrow> snd (ll_release env h True s))"

text \<open>A store and a set of failing subscribers for the examples; a call that returns is logged.\<close>

definition demo_objects :: "nat list \<Rightarrow> dispatcher \<Rightarrow> nat objects" where
  "demo_objects subs d = \<lparr>o_nodes = Map.empty,
     o_eventfuls = (\<lambda>_. \<lparr>ev_subscribers = subs, ev_dispatcher = d, ev_owner_mro = None, ev_name = None\<rparr>),
     o_rr_idx = (\<lambda>_. 0), o_class_subscribers = []\<rparr>"

definition demo_call :: "nat set \<Rightarrow> nat \<Rightarrow> unit \<Rightarrow> (nat objects \<times> nat list, pyval) py" where
  "demo_call bad h a s =
     (if h \<in> bad then (Inl (Exception ''E'' ''boom''), s) else (Inr PNone, (fst s, snd s @ [h])))"

definition demo_env :: "nat set \<Rightarrow> (nat, unit, nat objects \<times> nat list) env" where
  "demo_env bad = base_env (demo_call bad) (\<lambda>_ _ s. (Inr (), s)) (\<lambda>_ s. (Inr 0, s))"

lemmas demo_simps = demo_objects_def demo_call_def demo_env_def

section \<open>Properties\<close>

text \<open>
  Firing a broadcast channel calls the subscribers of the moment in subscription order. It
  raises exactly when one of them raises after all earlier ones have returned; that exception is
  the one raised, the effects of the earlier subscribers stay, and no later one is called.
\<close>

theorem broadcast_fire_propagates:
  assumes "ev_dispatcher (o_eventfuls b ch) = Broadcast" "ev_owner_mro (o_eventfuls b ch) = None"
  shows "(ev_fire (base_env c sb ld) ch a (b, w) = (Inl e, s') \<longleftrightarrow>
      (\<exists>pre fn post s1. ev_subscribers (o_eventfuls b ch) = pre @ fn # post \<and>
        py_for (\<lambda>fn. py_void (invoke (base_env c sb ld) fn a)) pre (b, w) = (Inr (), s1) \<and>
        py_void (invoke (base_env c sb ld) fn a) s1 = (Inl e, s'))) \<and>
    (ev_fire (base_env c sb ld) ch a (b, w) = (Inr (), s') \<longleftrightarrow>
      py_for (\<lambda>fn. py_void (invoke (base_env c sb ld) fn a)) (ev_subscribers (o_eventfuls b ch)) (b, w)
        = (Inr (), s'))"
  using assms
  by (simp add: base.fire_plain dispatch_def broadcast_dispatch_def py_for_raises_iff)

theorem broadcast_fire_propagates_witness:
  "ev_fire (demo_env {2}) 0 () (demo_objects [1, 2, 3] Broadcast, []) =
     (Inl (Exception ''E'' ''boom''), (demo_objects [1, 2, 3] Broadcast, [1]))"
proof -
  let ?run = "\<lambda>fn. py_void (invoke (demo_env {2}) fn ())"
  have "py_for ?run [1] (demo_objects [1, 2, 3] Broadcast, []) =
      (Inr (), (demo_objects [1, 2, 3] Broadcast, [1]))"
    and "?run 2 (demo_objects [1, 2, 3] Broadcast, [1]) =
      (Inl (Exception ''E'' ''boom''), (demo_objects [1, 2, 3] Broadcast, [1]))"
    by (simp_all add: demo_simps py_simps invoke_def)
  moreover have "ev_subscribers (o_eventfuls (demo_objects [1, 2, 3] Broadcast) 0) = [1] @ 2 # [3]"
    by (simp add: demo_simps)
  ultimately show ?thesis
    unfolding demo_env_def
    by (intro broadcast_fire_propagates[THEN conjunct1, THEN iffD2]) (simp add: demo_simps, simp add: demo_simps, blast)
qed

text \<open>
  A round-robin channel with at least one subscriber never lets an \<open>Exception\<close> of a subscriber
  escape; a fire calls exactly the subscriber at the cursor modulo their number, after advancing the
  cursor by one, whether or not the call fails.
\<close>

theorem round_robin_fire:
  assumes "ev_dispatcher (o_eventfuls b ch) = RoundRobin self" "ev_owner_mro (o_eventfuls b ch) = None"
    and "ev_subscribers (o_eventfuls b ch) = subs" "subs \<noteq> []"
    and "\<And>h a s e s'. c h a s = (Inl e, s') \<Longrightarrow> is_Exc e"
    and "o_nodes b = Map.empty"
  shows "ev_fire (base_env c sb ld) ch a (b, w) =
    (Inr (), snd (c (subs ! (o_rr_idx b self mod length subs)) a
      (b\<lparr>o_rr_idx := (o_rr_idx b)(self := o_rr_idx b self + 1)\<rparr>, w)))"
proof -
  let ?h = "subs ! (o_rr_idx b self mod length subs)"
  let ?s = "(b\<lparr>o_rr_idx := (o_rr_idx b)(self := o_rr_idx b self + 1)\<rparr>, w)"
  have "ev_fire (base_env c sb ld) ch a (b, w) = py_suppress (py_void (c ?h a)) ?s"
    using assms(1-4,6)
    by (simp add: base.fire_plain dispatch_def round_robin_dispatch_def py_simps rr_next_def invoke_def)
  also have "\<dots> = (Inr (), snd (c ?h a ?s))"
    by (cases "c ?h a ?s") (auto simp: py_simps split: sum.split dest: assms(5))
  finally show ?thesis .
qed

theorem round_robin_fire_witness:
  "ev_fire (demo_env {1}) 0 () (demo_objects [1, 2, 3] (RoundRobin 7), []) =
     (Inr (), (demo_objects [1, 2, 3] (RoundRobin 7))\<lparr>o_rr_idx := (\<lambda>_. 0)(7 := 1)\<rparr>, [])"
  unfolding demo_env_def
  by (subst round_robin_fire) (auto simp: demo_simps split: if_splits)

text \<open>
  Over any \<open>k\<close> consecutive picks with \<open>n\<close> subscribers, the round-robin dispatcher chooses each
  subscriber \<open>k div n\<close> or \<open>k div n + 1\<close> times, wherever its cursor starts.
\<close>

theorem round_robin_dispatcher_fair:
  assumes "j < n"
  shows "k div n \<le> count_list (rr_picks rr_next n idx k) j \<and>
    count_list (rr_picks rr_next n idx k) j \<le> k div n + 1"
  using assms by (rule rr_dispatcher.fair) simp

theorem round_robin_dispatcher_fair_witness:
  "2 \<le> count_list (rr_picks rr_next 3 5 7) 1 \<and> count_list (rr_picks rr_next 3 5 7) 1 \<le> 3"
  using round_robin_dispatcher_fair[of 1 3 7 5] by simp

text \<open>Selection among nodes takes the first one with spare capacity in the order of load.\<close>

lemma ll_select_least:
  assumes nodes: "\<forall>h \<in> set subs. o_nodes b h \<noteq> None"
  shows "if \<exists>h \<in> set subs. has_spare (the (o_nodes b h))
    then \<exists>h n. h \<in> set subs \<and> o_nodes b h = Some n \<and> has_spare n \<and>
      (\<forall>h' \<in> set subs. has_spare (the (o_nodes b h')) \<longrightarrow> node_load n \<le> node_load (the (o_nodes b h'))) \<and>
      ll_select (base_env c sb ld) subs (b, w) =
        (Inr (h, True), (b\<lparr>o_nodes := (o_nodes b)(h \<mapsto> booked n)\<rparr>, w))
    else ll_select (base_env c sb ld) subs (b, w) = (Inl saturated_error, (b, w))"
proof -
  let ?spare = "\<lambda>h. has_spare (the (o_nodes b h))"
  let ?f = "find ?spare (sort_key (\<lambda>h. node_load (the (o_nodes b h))) subs)"
  have sel: "ll_select (base_env c sb ld) subs (b, w) =
    (case ?f of None \<Rightarrow> (Inl saturated_error, (b, w))
     | Some h \<Rightarrow> (Inr (h, True), (b\<lparr>o_nodes := (o_nodes b)(h \<mapsto> booked (the (o_nodes b h)))\<rparr>, w)))"
    using base.ll_select_nodes[where subs = subs and s = "(b, w)" and c = c and sb = sb and ld = ld] nodes
    by (simp add: set_node_def py_simps split: option.split)
  show ?thesis
  proof (cases "\<exists>h \<in> set subs. ?spare h")
    case True
    then obtain h where h: "?f = Some h" by (fastforce simp: find_None_iff)
    with True have hs: "h \<in> set subs" "?spare h" "\<forall>h' \<in> set subs. ?spare h' \<longrightarrow>
        node_load (the (o_nodes b h)) \<le> node_load (the (o_nodes b h'))"
      using find_sorted_min[OF h] by blast+
    with nodes obtain n where n: "o_nodes b h = Some n" by blast
    with True sel h hs show ?thesis by auto
  next
    case False
    then have "?f = None" by (simp add: find_None_iff)
    with sel False show ?thesis by simp
  qed
qed

text \<open>
  With \<open>Node\<close> subscribers, least-loaded selection succeeds exactly when some node has spare
  capacity; it then reserves one slot, on a node with spare capacity whose load is least among those
  that have any, and changes nothing else. If every node is full it raises and changes nothing.
\<close>

theorem least_loaded_select:
  assumes "\<forall>h \<in> set subs. o_nodes b h \<noteq> None"
  shows "if \<exists>h \<in> set subs. has_spare (the (o_nodes b h))
    then \<exists>h n. h \<in> set subs \<and> o_nodes b h = Some n \<and> has_spare n \<and>
      (\<forall>h' \<in> set subs. has_spare (the (o_nodes b h')) \<longrightarrow> node_load n \<le> node_load (the (o_nodes b h'))) \<and>
      ll_select (base_env c sb ld) subs (b, w) =
        (Inr (h, True), (b\<lparr>o_nodes := (o_nodes b)(h \<mapsto> booked n)\<rparr>, w))
    else ll_select (base_env c sb ld) subs (b, w) = (Inl saturated_error, (b, w))"
  by (rule ll_select_least[OF assms])

definition demo_node :: "int \<Rightarrow> node" where
  "demo_node k = \<lparr>nd_name = ''n'', nd_cpus = 8, nd_memory_gb = 16, nd_gpus = [], nd_in_flight = k\<rparr>"

theorem least_loaded_select_witness:
  "\<exists>h. ll_select (demo_env {}) [1, 2] ((demo_objects [] LeastLoaded)\<lparr>o_nodes := [1 \<mapsto> demo_node 1, 2 \<mapsto> demo_node 0]\<rparr>, [])
     = (Inr (h, True), ((demo_objects [] LeastLoaded)\<lparr>o_nodes :=
          [1 \<mapsto> demo_node 1, 2 \<mapsto> demo_node 0, h \<mapsto> booked (the ([1 \<mapsto> demo_node 1, 2 \<mapsto> demo_node 0] h))]\<rparr>, []))"
  using least_loaded_select[of "[1, 2]" "(demo_objects [] LeastLoaded)\<lparr>o_nodes := [1 \<mapsto> demo_node 1, 2 \<mapsto> demo_node 0]\<rparr>"
      "demo_call {}" "\<lambda>_ _ s. (Inr (), s)" "\<lambda>_ s. (Inr 0, s)" "[]"]
  unfolding demo_env_def
  by (fastforce simp: demo_node_def has_spare_def capacity_def demo_objects_def split: if_splits)

text \<open>
  C28. No interleaving of reservations and releases over-books a node or drives its count negative:
  if every node has between zero and \<open>capacity\<close> calls in flight, this holds after any schedule of
  selections (which reserve) and releases by concurrent users of the dispatcher.
\<close>

theorem reservations_never_overbook:
  assumes "\<And>h s. o_nodes (fst (snd (ld h s))) = o_nodes (fst s)" and "nodes_ok (o_nodes b)"
  shows "nodes_ok (o_nodes (fst (fold (node_step (base_env c sb ld)) ops (b, w))))"
proof -
  have "nodes_ok (o_nodes (fst s)) \<Longrightarrow> nodes_ok (o_nodes (fst (fold (node_step (base_env c sb ld)) ops s)))" for s
  proof (induction ops arbitrary: s)
    case (Cons op ops)
    have "nodes_ok (o_nodes (fst (node_step (base_env c sb ld) op s)))"
      using Cons.prems base.ll_select_keeps_nodes_ok[where c = c and sb = sb and ld = ld and s = s]
        base.ll_release_keeps_nodes_ok[where c = c and sb = sb and ld = ld and s = s] assms(1)
      by (cases op) (simp_all add: node_step_def)
    with Cons.IH show ?case by simp
  qed simp
  with assms(2) show ?thesis by simp
qed

theorem reservations_never_overbook_witness:
  "nodes_ok (o_nodes (fst (fold (node_step (demo_env {})) [NSelect [1], NSelect [1], NRelease 1, NSelect [1]]
     ((demo_objects [] LeastLoaded)\<lparr>o_nodes := [1 \<mapsto> demo_node 1]\<rparr>, []))))"
  unfolding demo_env_def
  by (rule reservations_never_overbook)
    (simp_all add: nodes_ok_def demo_node_def capacity_def)

text \<open>
  A routed call leaves the reservations as it found them: with \<open>Node\<close> subscribers and handlers
  that do not touch the nodes, \<open>route\<close> returns or raises with every node's in-flight count
  restored.
\<close>

theorem route_restores_nodes:
  assumes nodes: "\<forall>h \<in> set subs. o_nodes b h \<noteq> None" and ok: "nodes_ok (o_nodes b)"
    and keep: "\<And>h s. o_nodes (fst (snd (c h a s))) = o_nodes (fst s)"
  shows "o_nodes (fst (snd (ll_route (base_env c sb ld) subs a (b, w)))) = o_nodes b"
proof (cases "\<exists>h \<in> set subs. has_spare (the (o_nodes b h))")
  case False
  with ll_select_least[OF nodes, of c sb ld w] show ?thesis
    by (simp add: ll_route_def py_simps)
next
  case True
  with ll_select_least[OF nodes, of c sb ld w] obtain h n where n: "o_nodes b h = Some n"
    and sel: "ll_select (base_env c sb ld) subs (b, w) =
      (Inr (h, True), (b\<lparr>o_nodes := (o_nodes b)(h \<mapsto> booked n)\<rparr>, w))" by auto
  let ?s1 = "(b\<lparr>o_nodes := (o_nodes b)(h \<mapsto> booked n)\<rparr>, w)"
  have "o_nodes (fst (snd (c h a ?s1))) = (o_nodes b)(h \<mapsto> booked n)" by (simp add: keep)
  moreover have "node_release (booked n) = n"
    using ok n by (intro booked_release) (auto dest: nodes_okD)
  ultimately show ?thesis
    using n by (cases "c h a ?s1")
      (auto simp: ll_route_def py_simps sel ll_call_def ll_release_def upd_node_def set_node_def)
qed

theorem route_restores_nodes_witness:
  "o_nodes (fst (snd (ll_route (demo_env {1}) [1] ()
     ((demo_objects [] LeastLoaded)\<lparr>o_nodes := [1 \<mapsto> demo_node 1]\<rparr>, [])))) = [1 \<mapsto> demo_node 1]"
  unfolding demo_env_def
  by (subst route_restores_nodes)
    (simp_all add: nodes_ok_def demo_node_def capacity_def demo_call_def)

end
