(* ===== verification/Message_Queue.thy ===== *)
theory Message_Queue
  imports Memory_Transport Observers
begin

text \<open>
  \<open>src/eventforge/queue.py\<close>: the topic-keyed \<open>MessageQueue\<close> on top of a \<open>Transport\<close>
  (\<open>src/eventforge/transports/base.py\<close>). The transport is the record of its operations; the channel of a
  topic is an \<open>Eventful\<close> of the object store, and the callback a queue gives to the transport is that
  channel's \<open>fire\<close>, named by the channel's address. The last part puts the queue on the in-memory
  transport and proves delivery end to end.
\<close>

section \<open>The transport interface\<close>

record ('cb, 's) transport_ops =
  t_send :: "message \<Rightarrow> ('s, unit) py"
  t_receive :: "string \<Rightarrow> real option \<Rightarrow> ('s, message option waiting) py"
  t_subscribe :: "string \<Rightarrow> 'cb \<Rightarrow> ('s, string) py"
  t_unsubscribe :: "string \<Rightarrow> ('s, bool) py"
  t_close :: "('s, unit) py"

section \<open>State\<close>

record 'h mqueue =
  mq_topics :: "(string, nat) dict"
  mq_sub_ids :: "(string, string \<times> 'h) dict"
  mq_transport_subs :: "(string, string) dict"
  mq_next :: nat

text \<open>
  Where a queue finds its parts in the program state \<open>'s\<close>: its own fields, the object store and calls,
  the transport, the source of identifiers (\<open>uuid4 n\<close> is the \<open>n\<close>-th one) and the clock.
\<close>

record ('h, 's) mq_ctx =
  c_env :: "('h, message, 's) env"
  c_ops :: "(nat, 's) transport_ops"
  c_mq :: "'s \<Rightarrow> 'h mqueue"
  c_upd_mq :: "('h mqueue \<Rightarrow> 'h mqueue) \<Rightarrow> 's \<Rightarrow> 's"
  c_drawn :: "'s \<Rightarrow> nat"
  c_tick :: "'s \<Rightarrow> 's"
  c_uuid :: "nat \<Rightarrow> string"
  c_clock :: "'s \<Rightarrow> int"

definition mq_init :: "'h mqueue" where
  "mq_init = \<lparr>mq_topics = [], mq_sub_ids = [], mq_transport_subs = [], mq_next = 0\<rparr>"

definition mq_uuid :: "('h, 's) mq_ctx \<Rightarrow> ('s, string) py" where
  "mq_uuid c = py_bind (py_gets (c_drawn c)) (\<lambda>n. py_seq (py_modify (c_tick c)) (py_ret (c_uuid c n)))"

section \<open>Topics and subscriptions\<close>

definition mq_topic :: "('h, 's) mq_ctx \<Rightarrow> string \<Rightarrow> dispatcher option \<Rightarrow> ('s, nat) py" where
  "mq_topic c name dsp =
     py_bind (py_gets (c_mq c)) (\<lambda>q.
       case dict_get (mq_topics q) name of
         Some channel \<Rightarrow> py_ret channel
       | None \<Rightarrow>
           (let channel = mq_next q in
            py_seq (upd_eventful (c_env c) channel
                (\<lambda>_. eventful_new (Some (case dsp of Some d \<Rightarrow> d | None \<Rightarrow> Broadcast)) None None))
            (py_seq (py_modify (c_upd_mq c (\<lambda>q. q\<lparr>mq_topics := dict_set name channel (mq_topics q),
                 mq_next := channel + 1\<rparr>)))
            (py_bind (t_subscribe (c_ops c) name channel) (\<lambda>sub_id.
            py_seq (py_modify (c_upd_mq c (\<lambda>q. q\<lparr>mq_transport_subs := dict_set name sub_id (mq_transport_subs q)\<rparr>)))
              (py_ret channel))))))"

definition mq_subscribe :: "('h, 's) mq_ctx \<Rightarrow> string \<Rightarrow> 'h \<Rightarrow> ('s, string) py" where
  "mq_subscribe c topic fn =
     py_bind (mq_topic c topic None) (\<lambda>channel.
     py_seq (ev_subscribe (c_env c) channel fn)
     (py_bind (mq_uuid c) (\<lambda>handler_id.
     py_seq (py_modify (c_upd_mq c (\<lambda>q. q\<lparr>mq_sub_ids := dict_set handler_id (topic, fn) (mq_sub_ids q)\<rparr>)))
       (py_ret handler_id))))"

text \<open>\<open>on(topic, fn)\<close>, and the decorator \<open>@on(topic)\<close> applied to a handler.\<close>

definition mq_on :: "('h, 's) mq_ctx \<Rightarrow> string \<Rightarrow> 'h \<Rightarrow> ('s, string) py" where
  "mq_on c event_or_topic fn = mq_subscribe c event_or_topic fn"

definition mq_on_decorator :: "('h, 's) mq_ctx \<Rightarrow> string \<Rightarrow> 'h \<Rightarrow> ('s, 'h) py" where
  "mq_on_decorator c event_or_topic fn = py_seq (mq_subscribe c event_or_topic fn) (py_ret fn)"

definition mq_unsubscribe :: "('h, 's) mq_ctx \<Rightarrow> string \<Rightarrow> ('s, bool) py" where
  "mq_unsubscribe c handler_id =
     py_bind (py_gets (c_mq c)) (\<lambda>q.
       case dict_get (mq_sub_ids q) handler_id of
         None \<Rightarrow> py_ret False
       | Some (topic, fn) \<Rightarrow>
           py_seq (py_modify (c_upd_mq c (\<lambda>q. q\<lparr>mq_sub_ids := dict_del handler_id (mq_sub_ids q)\<rparr>)))
             (case dict_get (mq_topics q) topic of
                None \<Rightarrow> py_ret False
              | Some channel \<Rightarrow> ev_unsubscribe (c_env c) channel fn))"

section \<open>Publish, receive, request and reply\<close>

definition mq_message ::
  "('h, 's) mq_ctx \<Rightarrow> string \<Rightarrow> pyval \<Rightarrow> kwargs \<Rightarrow> string option \<Rightarrow> string option \<Rightarrow> ('s, message) py" where
  "mq_message c topic payload headers reply_to correlation_id =
     py_bind (mq_uuid c) (\<lambda>mid. py_gets (\<lambda>s.
       \<lparr>m_id = mid, m_topic = topic, m_payload = payload, m_headers = headers,
        m_timestamp = c_clock c s, m_reply_to = reply_to, m_correlation_id = correlation_id\<rparr>))"

definition mq_publish :: "('h, 's) mq_ctx \<Rightarrow> string \<Rightarrow> pyval \<Rightarrow> kwargs \<Rightarrow> ('s, string) py" where
  "mq_publish c topic payload headers =
     py_bind (mq_message c topic payload headers None None) (\<lambda>message.
     py_seq (t_send (c_ops c) message) (py_ret (m_id message)))"

definition mq_fire :: "('h, 's) mq_ctx \<Rightarrow> string \<Rightarrow> pyval list \<Rightarrow> kwargs \<Rightarrow> ('s, string) py" where
  "mq_fire c event_or_topic args kw =
     mq_publish c event_or_topic (case args of [] \<Rightarrow> PNone | payload # _ \<Rightarrow> payload) kw"

definition mq_receive :: "('h, 's) mq_ctx \<Rightarrow> string \<Rightarrow> real option \<Rightarrow> ('s, message option waiting) py" where
  "mq_receive c topic timeout = t_receive (c_ops c) topic timeout"

definition mq_request :: "('h, 's) mq_ctx \<Rightarrow> string \<Rightarrow> pyval \<Rightarrow> real \<Rightarrow> kwargs \<Rightarrow> ('s, message option waiting) py" where
  "mq_request c topic payload timeout headers =
     py_bind (mq_uuid c) (\<lambda>u. let reply_topic = ''_reply.'' @ u in
     py_bind (mq_uuid c) (\<lambda>correlation_id.
     py_bind (mq_message c topic payload headers (Some reply_topic) (Some correlation_id)) (\<lambda>message.
     py_seq (t_send (c_ops c) message) (t_receive (c_ops c) reply_topic (Some timeout)))))"

definition mq_reply :: "('h, 's) mq_ctx \<Rightarrow> message \<Rightarrow> pyval \<Rightarrow> kwargs \<Rightarrow> ('s, string) py" where
  "mq_reply c original payload headers =
     (case m_reply_to original of
        Some (x # xs) \<Rightarrow>
          py_bind (mq_message c (x # xs) payload headers None (m_correlation_id original)) (\<lambda>reply.
          py_seq (t_send (c_ops c) reply) (py_ret (m_id reply)))
      | _ \<Rightarrow> py_raise (Exception ''ValueError'' ''Original message has no reply_to''))"

text \<open>
  The arguments the handler of \<open>register_task\<close> passes on (positional, keyword); \<open>wrap\<close> makes the
  handler from the task function.
\<close>

definition task_args :: "pyval \<Rightarrow> pyval list \<times> kwargs" where
  "task_args payload = (case payload of
       PDict d \<Rightarrow> ([], d) | PList xs \<Rightarrow> (xs, []) | PTuple xs \<Rightarrow> (xs, []) | v \<Rightarrow> ([v], []))"

definition mq_register_task :: "('h, 's) mq_ctx \<Rightarrow> ('f \<Rightarrow> 'h) \<Rightarrow> string \<Rightarrow> 'f \<Rightarrow> ('s, string) py" where
  "mq_register_task c wrap topic task_func = mq_subscribe c topic (wrap task_func)"

definition mq_close :: "('h, 's) mq_ctx \<Rightarrow> ('s, unit) py" where
  "mq_close c = t_close (c_ops c)"

definition mq_topic_names :: "('h, 's) mq_ctx \<Rightarrow> ('s, string list) py" where
  "mq_topic_names c = py_gets (\<lambda>s. map fst (mq_topics (c_mq c s)))"

lemmas mq_defs [component_defs] = mq_uuid_def mq_topic_def mq_subscribe_def mq_unsubscribe_def mq_message_def
  mq_publish_def mq_request_def mq_reply_def mq_close_def mq_receive_def

section \<open>The queue on the in-memory transport\<close>

record ('h, 'w) mq_rest =
  r_objects :: "'h objects"
  r_mq :: "'h mqueue"
  r_drawn :: nat
  r_user :: 'w

type_synonym ('h, 'w) mem_state = "nat memory_transport \<times> ('h, 'w) mq_rest"

text \<open>The store and the calls of a program whose state is a transport and the rest.\<close>

definition rest_env ::
  "('h \<Rightarrow> message \<Rightarrow> ('t \<times> ('h, 'w) mq_rest, pyval) py) \<Rightarrow> ('h \<Rightarrow> message \<Rightarrow> ('t \<times> ('h, 'w) mq_rest, unit) py) \<Rightarrow>
   ('h \<Rightarrow> ('t \<times> ('h, 'w) mq_rest, real) py) \<Rightarrow> ('h, message, 't \<times> ('h, 'w) mq_rest) env" where
  "rest_env c sb ld = \<lparr>call = c, submit = sb, load_of = ld, obj = (\<lambda>(t, r). r_objects r),
     upd_obj = (\<lambda>f (t, r). (t, r\<lparr>r_objects := f (r_objects r)\<rparr>))\<rparr>"

definition mem_ops ::
  "(nat \<Rightarrow> string) \<Rightarrow> ('h, message, ('h, 'w) mem_state) env \<Rightarrow> (nat, ('h, 'w) mem_state) transport_ops" where
  "mem_ops uuid4 env =
     \<lparr>t_send = mt_send (ev_fire env), t_receive = mt_receive,
      t_subscribe = (\<lambda>topic cb (t, r). mt_subscribe (uuid4 (r_drawn r)) topic cb (t, r\<lparr>r_drawn := r_drawn r + 1\<rparr>)),
      t_unsubscribe = mt_unsubscribe, t_close = mt_close\<rparr>"

definition mem_ctx ::
  "(nat \<Rightarrow> string) \<Rightarrow> ('w \<Rightarrow> int) \<Rightarrow> ('h, message, ('h, 'w) mem_state) env \<Rightarrow> ('h, ('h, 'w) mem_state) mq_ctx" where
  "mem_ctx uuid4 clock env =
     \<lparr>c_env = env, c_ops = mem_ops uuid4 env, c_mq = (\<lambda>(t, r). r_mq r),
      c_upd_mq = (\<lambda>f (t, r). (t, r\<lparr>r_mq := f (r_mq r)\<rparr>)), c_drawn = (\<lambda>(t, r). r_drawn r),
      c_tick = (\<lambda>(t, r). (t, r\<lparr>r_drawn := r_drawn r + 1\<rparr>)), c_uuid = uuid4,
      c_clock = (\<lambda>(t, r). clock (r_user r))\<rparr>"

lemma mem_simps [simp]:
  "call (rest_env c sb ld) = c" "obj (rest_env c sb ld) = (\<lambda>(t, r). r_objects r)"
  "upd_obj (rest_env c sb ld) = (\<lambda>f (t, r). (t, r\<lparr>r_objects := f (r_objects r)\<rparr>))"
  "t_send (mem_ops uuid4 env) = mt_send (ev_fire env)" "t_receive (mem_ops uuid4 env) = mt_receive"
  "t_close (mem_ops uuid4 env) = mt_close" "c_env (mem_ctx uuid4 clock env) = env"
  "t_subscribe (mem_ops uuid4 env) = (\<lambda>topic cb (t, r). mt_subscribe (uuid4 (r_drawn r)) topic cb (t, r\<lparr>r_drawn := r_drawn r + 1\<rparr>))"
  "c_ops (mem_ctx uuid4 clock env) = mem_ops uuid4 env" "c_mq (mem_ctx uuid4 clock env) = (\<lambda>(t, r). r_mq r)"
  "c_upd_mq (mem_ctx uuid4 clock env) = (\<lambda>f (t, r). (t, r\<lparr>r_mq := f (r_mq r)\<rparr>))"
  "c_drawn (mem_ctx uuid4 clock env) = (\<lambda>(t, r). r_drawn r)"
  "c_tick (mem_ctx uuid4 clock env) = (\<lambda>(t, r). (t, r\<lparr>r_drawn := r_drawn r + 1\<rparr>))"
  "c_uuid (mem_ctx uuid4 clock env) = uuid4" "c_clock (mem_ctx uuid4 clock env) = (\<lambda>(t, r). clock (r_user r))"
  by (simp_all add: rest_env_def mem_ops_def mem_ctx_def)

text \<open>The subscribers of a topic, none if the topic has no channel.\<close>

definition mq_subs :: "('h, 's) mq_ctx \<Rightarrow> string \<Rightarrow> 's \<Rightarrow> 'h list" where
  "mq_subs c topic s = (case dict_get (mq_topics (c_mq c s)) topic of
     None \<Rightarrow> [] | Some ch \<Rightarrow> ev_subscribers (o_eventfuls (obj (c_env c) s) ch))"

section \<open>The contract between the queue and the state it lives in\<close>

text \<open>
  What the queue relies on: its fields, the object store and the identifier source are separate parts
  of the state, and subscribing at the transport touches neither the queue's fields nor the objects.
\<close>

locale queue_state = object_store "c_env c" for c :: "('h, 's) mq_ctx" +
  assumes mq_upd: "c_mq c (c_upd_mq c f s) = f (c_mq c s)"
    and obj_upd_mq: "obj (c_env c) (c_upd_mq c f s) = obj (c_env c) s"
    and mq_upd_obj: "c_mq c (upd_obj (c_env c) g s) = c_mq c s"
    and tick: "c_mq c (c_tick c s) = c_mq c s" "obj (c_env c) (c_tick c s) = obj (c_env c) s"
    and subscribe_frame: "c_mq c (snd (t_subscribe (c_ops c) topic cb s)) = c_mq c s"
      "obj (c_env c) (snd (t_subscribe (c_ops c) topic cb s)) = obj (c_env c) s"
begin

lemma topic_known: "dict_get (mq_topics (c_mq c s)) name = Some ch \<Longrightarrow> mq_topic c name d s = (Inr ch, s)"
  by (simp add: mq_topic_def py_simps)

lemma topic_effect:
  assumes "mq_topic c name d s = (Inr ch, s')"
  shows "dict_get (mq_topics (c_mq c s')) name = Some ch \<and> mq_subs c name s' = mq_subs c name s \<and>
    mq_sub_ids (c_mq c s') = mq_sub_ids (c_mq c s)"
proof (cases "dict_get (mq_topics (c_mq c s)) name")
  case None
  define s1 where "s1 = c_upd_mq c (\<lambda>q. q\<lparr>mq_topics := dict_set name (mq_next (c_mq c s)) (mq_topics q), mq_next := mq_next (c_mq c s) + 1\<rparr>)
    (snd (upd_eventful (c_env c) (mq_next (c_mq c s)) (\<lambda>_. eventful_new (Some (case d of Some d \<Rightarrow> d | None \<Rightarrow> Broadcast)) None None) s))"
  obtain r s2 where sub: "t_subscribe (c_ops c) name (mq_next (c_mq c s)) s1 = (r, s2)" by fastforce
  have "c_mq c s2 = c_mq c s1" "obj (c_env c) s2 = obj (c_env c) s1"
    using subscribe_frame[of name "mq_next (c_mq c s)" s1] sub by simp_all
  with assms None sub show ?thesis
    by (cases r) (auto simp: mq_topic_def py_simps s1_def upd_eventful_def mq_upd obj_upd_mq mq_upd_obj obj_upd
        mq_subs_def eventful_new_def Let_def)
next
  case (Some x)
  with assms topic_known[OF Some] show ?thesis by auto
qed

text \<open>A topic keeps its one channel: asking again changes nothing, whatever dispatcher is passed.\<close>

lemma topic_idempotent: "mq_topic c name d s = (Inr ch, s') \<Longrightarrow> mq_topic c name d' s' = (Inr ch, s')"
  using topic_effect topic_known by blast

lemma subscribe_effect:
  assumes "mq_subscribe c topic fn s = (Inr hid, s')"
  shows "mq_subs c topic s' = mq_subs c topic s @ [fn] \<and>
    mq_sub_ids (c_mq c s') = dict_set hid (topic, fn) (mq_sub_ids (c_mq c s))"
proof -
  obtain r s1 where t: "mq_topic c topic None s = (r, s1)" by fastforce
  with assms obtain ch where r: "r = Inr ch" by (cases r) (simp_all add: mq_subscribe_def py_simps)
  from topic_effect t r have "dict_get (mq_topics (c_mq c s1)) topic = Some ch" "mq_subs c topic s1 = mq_subs c topic s"
    "mq_sub_ids (c_mq c s1) = mq_sub_ids (c_mq c s)" by auto
  with assms t r show ?thesis
    by (auto simp: mq_subscribe_def mq_uuid_def py_simps ev_subscribe_def upd_eventful_def mq_upd obj_upd_mq mq_upd_obj
        obj_upd tick mq_subs_def)
qed

text \<open>Unsubscribing with the id returned removes the handler; the id is then unknown.\<close>

lemma unsubscribe_effect:
  assumes "dict_get (mq_sub_ids (c_mq c s)) hid = Some (topic, fn)" and "fn \<in> set (mq_subs c topic s)"
  shows "\<exists>s'. mq_unsubscribe c hid s = (Inr True, s') \<and> mq_subs c topic s' = remove1 fn (mq_subs c topic s) \<and>
    mq_unsubscribe c hid s' = (Inr False, s')"
proof -
  from assms(2) obtain ch where "dict_get (mq_topics (c_mq c s)) topic = Some ch"
    "fn \<in> set (ev_subscribers (o_eventfuls (obj (c_env c) s) ch))"
    by (cases "dict_get (mq_topics (c_mq c s)) topic") (auto simp: mq_subs_def)
  with assms(1) show ?thesis
    by (simp add: mq_unsubscribe_def py_simps ev_unsubscribe_def upd_eventful_def mq_upd obj_upd_mq mq_upd_obj
        obj_upd mq_subs_def)
qed

text \<open>If the transport refuses the subscription of a new topic, the topic keeps a channel all the same.\<close>

lemma refused_topic:
  assumes "dict_get (mq_topics (c_mq c s)) topic = None"
    and "\<And>s cb. fst (t_subscribe (c_ops c) topic cb s) = Inl e"
  shows "\<exists>s1 hid s2. mq_subscribe c topic fn s = (Inl e, s1) \<and> mq_subscribe c topic fn s1 = (Inr hid, s2)"
proof -
  define s0 where "s0 = c_upd_mq c (\<lambda>q. q\<lparr>mq_topics := dict_set topic (mq_next (c_mq c s)) (mq_topics q), mq_next := mq_next (c_mq c s) + 1\<rparr>)
    (snd (upd_eventful (c_env c) (mq_next (c_mq c s)) (\<lambda>_. eventful_new (Some Broadcast) None None) s))"
  define s1 where "s1 = snd (t_subscribe (c_ops c) topic (mq_next (c_mq c s)) s0)"
  have sub: "t_subscribe (c_ops c) topic (mq_next (c_mq c s)) s0 = (Inl e, s1)"
    using assms(2)[of "mq_next (c_mq c s)" s0] by (simp add: s1_def prod_eq_iff)
  have "mq_subscribe c topic fn s = (Inl e, s1)"
    using assms(1) sub by (simp add: mq_subscribe_def mq_topic_def py_simps s0_def upd_eventful_def Let_def)
  moreover have "dict_get (mq_topics (c_mq c s1)) topic = Some (mq_next (c_mq c s))"
    by (simp add: s1_def s0_def subscribe_frame mq_upd)
  then have "\<exists>hid s2. mq_subscribe c topic fn s1 = (Inr hid, s2)"
    by (simp add: mq_subscribe_def topic_known py_simps ev_subscribe_def upd_eventful_def mq_uuid_def)
  ultimately show ?thesis by blast
qed

end

interpretation mem_queue: queue_state "mem_ctx uuid4 clock (rest_env cl sb ld)" for uuid4 clock cl sb ld
  by unfold_locales (auto simp: mt_subscribe_def split: prod.split)

section \<open>Channels wired to the in-memory transport\<close>

text \<open>
  The queue's topics and the transport's subscriptions correspond one to one, in order; channels are
  distinct, broadcast and belong to no class.
\<close>

definition mq_wired :: "(nat \<Rightarrow> string) \<Rightarrow> ('h, 'w) mem_state \<Rightarrow> bool" where
  "mq_wired uuid4 = (\<lambda>(t, r). \<not> mt_closed t \<and> dict_ok (mq_topics (r_mq r)) \<and> distinct (map snd (mq_topics (r_mq r))) \<and>
     list_all2 (\<lambda>(i, cb) (name, ch). dict_get (mt_sub_topic t) i = Some name \<and> cb = ch)
       (mt_subscribers t) (mq_topics (r_mq r)) \<and>
     (\<forall>i \<in> fst ` set (mt_subscribers t). i \<in> uuid4 ` {..<r_drawn r}) \<and>
     (\<forall>ch \<in> snd ` set (mq_topics (r_mq r)). ch < mq_next (r_mq r) \<and>
        ev_dispatcher (o_eventfuls (r_objects r) ch) = Broadcast \<and> ev_owner_mro (o_eventfuls (r_objects r) ch) = None))"

lemma targets_wired:
  assumes "list_all2 (\<lambda>(i, cb) (name, ch). pat i = Some name \<and> cb = ch) subs topics"
  shows "targets mat subs pat topic = map snd (filter (\<lambda>(name, _). mat topic name) topics)"
  using assms by (induction rule: list_all2_induct) (auto simp: targets_def)

lemma filter_key: "dict_ok d \<Longrightarrow> map snd (filter (\<lambda>(n, _). n = k) d) = (case dict_get d k of None \<Rightarrow> [] | Some v \<Rightarrow> [v])"
proof (induction d)
  case (Cons x d)
  then show ?case
    using map_of_eq_None_iff[of d k] by (cases x) (auto simp: filter_empty_conv)
qed simp

lemma dict_value_inj: "distinct (map snd d) \<Longrightarrow> dict_get d x = Some v \<Longrightarrow> dict_get d y = Some v \<Longrightarrow> x = y"
  by (induction d) (force split: if_splits dest: map_of_SomeD)+

lemma wired_targets:
  assumes "mq_wired uuid4 (t, r)" and "list_all (\<lambda>(name, _). plain_prefix name) (mq_topics (r_mq r))"
  shows "mt_targets t topic = (case dict_get (mq_topics (r_mq r)) topic of None \<Rightarrow> [] | Some ch \<Rightarrow> [ch])"
proof -
  have "mt_targets t topic = map snd (filter (\<lambda>(name, _). memory_matches topic name) (mq_topics (r_mq r)))"
    using assms(1) by (intro targets_wired) (simp add: mq_wired_def)
  also have "filter (\<lambda>(name, _). memory_matches topic name) (mq_topics (r_mq r)) =
      filter (\<lambda>(name, _). name = topic) (mq_topics (r_mq r))"
    using assms(2) by (intro filter_cong) (auto simp: list_all_iff memory_matches_plain)
  finally show ?thesis using assms(1) by (simp add: mq_wired_def filter_key)
qed

lemma wired_fresh_id:
  assumes "inj uuid4" "mq_wired uuid4 (t, r)"
  shows "uuid4 (r_drawn r) \<notin> fst ` set (mt_subscribers t)"
  using assms by (auto simp: mq_wired_def inj_eq)

text \<open>The state after a new topic was made: its channel, its transport subscription, its entries.\<close>

definition topic_added :: "(nat \<Rightarrow> string) \<Rightarrow> string \<Rightarrow> ('h, 'w) mem_state \<Rightarrow> ('h, 'w) mem_state" where
  "topic_added uuid4 topic = (\<lambda>(t, r).
     (mt_add (uuid4 (r_drawn r)) topic (mq_next (r_mq r)) t,
      r\<lparr>r_objects := (r_objects r)\<lparr>o_eventfuls := (o_eventfuls (r_objects r))(mq_next (r_mq r) := eventful_new (Some Broadcast) None None)\<rparr>,
        r_mq := (r_mq r)\<lparr>mq_topics := dict_set topic (mq_next (r_mq r)) (mq_topics (r_mq r)), mq_next := mq_next (r_mq r) + 1,
          mq_transport_subs := dict_set topic (uuid4 (r_drawn r)) (mq_transport_subs (r_mq r))\<rparr>,
        r_drawn := r_drawn r + 1\<rparr>))"

lemma mq_topic_new:
  assumes "\<not> mt_closed t" "dict_get (mq_topics (r_mq r)) topic = None"
  shows "mq_topic (mem_ctx uuid4 clock (rest_env cl sb ld)) topic None (t, r) =
    (Inr (mq_next (r_mq r)), topic_added uuid4 topic (t, r))"
  using assms by (simp add: mq_topic_def py_simps Let_def upd_eventful_def mt_subscribe_def topic_added_def)

lemma topic_added_wired:
  assumes "inj uuid4" "mq_wired uuid4 (t, r)" "dict_get (mq_topics (r_mq r)) topic = None"
  shows "mq_wired uuid4 (topic_added uuid4 topic (t, r))"
proof -
  note w = assms(2)[unfolded mq_wired_def, simplified]
  have new: "dict_get (mt_subscribers t) (uuid4 (r_drawn r)) = None"
    using wired_fresh_id[OF assms(1,2)] by (simp add: map_of_eq_None_iff)
  have "list_all2 (\<lambda>(i, cb) (name, ch). dict_get (dict_set (uuid4 (r_drawn r)) topic (mt_sub_topic t)) i = Some name \<and> cb = ch)
      (mt_subscribers t) (mq_topics (r_mq r))"
    using w wired_fresh_id[OF assms(1,2)] by (auto elim!: list.rel_mono_strong simp: image_iff)
  moreover have "topic \<notin> fst ` set (mq_topics (r_mq r))" "mq_next (r_mq r) \<notin> snd ` set (mq_topics (r_mq r))"
    using w assms(3) by (auto simp: map_of_eq_None_iff)
  ultimately show ?thesis
    using w by (auto simp: mq_wired_def topic_added_def mt_add_def dict_set_fresh[OF new] dict_set_fresh[OF assms(3)]
        list_all2_appendI eventful_new_def less_Suc_eq)
qed

lemma topic_wired:
  fixes clock cl sb ld
  assumes "inj uuid4" "mq_wired uuid4 (t, r)"
  defines "c \<equiv> mem_ctx uuid4 clock (rest_env cl sb ld)"
  shows "\<exists>ch t' r'. mq_topic c topic None (t, r) = (Inr ch, (t', r')) \<and> mq_wired uuid4 (t', r') \<and>
    dict_get (mq_topics (r_mq r')) topic = Some ch \<and>
    mt_queues t' = mt_queues t \<and> mt_max_queue_size t' = mt_max_queue_size t \<and>
    r_user r' = r_user r \<and> o_nodes (r_objects r') = o_nodes (r_objects r) \<and>
    fst ` set (mq_topics (r_mq r')) = insert topic (fst ` set (mq_topics (r_mq r))) \<and>
    (\<forall>x. mq_subs c x (t', r') = mq_subs c x (t, r))"
proof (cases "dict_get (mq_topics (r_mq r)) topic")
  case None
  note w = assms(2)[unfolded mq_wired_def, simplified]
  obtain t' r' where s': "topic_added uuid4 topic (t, r) = (t', r')" by fastforce
  have neq: "ch \<noteq> mq_next (r_mq r)" if "dict_get (mq_topics (r_mq r)) x = Some ch" for x ch
    using that w by (force dest: map_of_SomeD)
  have subs: "mq_subs c x (t', r') = mq_subs c x (t, r)" for x
    using None s' neq[of x]
    by (cases "x = topic"; cases "dict_get (mq_topics (r_mq r)) x")
      (auto simp: mq_subs_def topic_added_def c_def eventful_new_def)
  have "mq_topic c topic None (t, r) = (Inr (mq_next (r_mq r)), (t', r'))"
    using w None by (simp add: c_def mq_topic_new s')
  moreover have "mq_wired uuid4 (t', r')" using topic_added_wired[OF assms(1,2) None] by (simp add: s')
  moreover have "dict_get (mq_topics (r_mq r')) topic = Some (mq_next (r_mq r))" "mt_queues t' = mt_queues t"
    "mt_max_queue_size t' = mt_max_queue_size t" "r_user r' = r_user r" "o_nodes (r_objects r') = o_nodes (r_objects r)"
    using s' by (auto simp: topic_added_def mt_add_def)
  moreover have "fst ` set (mq_topics (r_mq r')) = insert topic (fst ` set (mq_topics (r_mq r)))"
    using s' by (auto simp: topic_added_def dict_set_fresh[OF None])
  ultimately show ?thesis using subs by blast
next
  case (Some ch)
  then have "topic \<in> fst ` set (mq_topics (r_mq r))" by (force dest: map_of_SomeD)
  moreover have "mq_topic c topic None (t, r) = (Inr ch, (t, r))"
    using mem_queue.topic_known[of uuid4 clock cl sb ld "(t, r)" topic ch] Some by (simp add: c_def)
  ultimately show ?thesis using Some assms(2) by (intro exI[of _ ch] exI[of _ t] exI[of _ r]) auto
qed

text \<open>What one subscription does to the wired state.\<close>

lemma subscribe_wired:
  fixes clock cl sb ld
  assumes "inj uuid4" "mq_wired uuid4 (t, r)"
  defines "c \<equiv> mem_ctx uuid4 clock (rest_env cl sb ld)"
  shows "\<exists>hid t' r'. mq_subscribe c topic fn (t, r) = (Inr hid, (t', r')) \<and> mq_wired uuid4 (t', r') \<and>
    mt_queues t' = mt_queues t \<and> mt_max_queue_size t' = mt_max_queue_size t \<and>
    r_user r' = r_user r \<and> o_nodes (r_objects r') = o_nodes (r_objects r) \<and>
    fst ` set (mq_topics (r_mq r')) = insert topic (fst ` set (mq_topics (r_mq r))) \<and>
    (\<forall>x. mq_subs c x (t', r') = mq_subs c x (t, r) @ (if x = topic then [fn] else []))"
proof -
  obtain ch t1 r1 where top: "mq_topic c topic None (t, r) = (Inr ch, (t1, r1))" "mq_wired uuid4 (t1, r1)"
    "dict_get (mq_topics (r_mq r1)) topic = Some ch" "mt_queues t1 = mt_queues t" "mt_max_queue_size t1 = mt_max_queue_size t"
    "r_user r1 = r_user r" "o_nodes (r_objects r1) = o_nodes (r_objects r)"
    "fst ` set (mq_topics (r_mq r1)) = insert topic (fst ` set (mq_topics (r_mq r)))"
    "\<forall>x. mq_subs c x (t1, r1) = mq_subs c x (t, r)"
    using topic_wired[OF assms(1,2), of clock cl sb ld topic] unfolding c_def by blast
  define r2 where "r2 = r1\<lparr>r_objects := (r_objects r1)\<lparr>o_eventfuls := (o_eventfuls (r_objects r1))(ch := (o_eventfuls (r_objects r1) ch)
      \<lparr>ev_subscribers := ev_subscribers (o_eventfuls (r_objects r1) ch) @ [fn]\<rparr>)\<rparr>,
      r_mq := (r_mq r1)\<lparr>mq_sub_ids := dict_set (uuid4 (r_drawn r1)) (topic, fn) (mq_sub_ids (r_mq r1))\<rparr>,
      r_drawn := Suc (r_drawn r1)\<rparr>"
  have run: "mq_subscribe c topic fn (t, r) = (Inr (uuid4 (r_drawn r1)), (t1, r2))"
    using top(1) by (simp add: mq_subscribe_def py_simps ev_subscribe_def upd_eventful_def mq_uuid_def c_def r2_def)
  have wired: "mq_wired uuid4 (t1, r2)"
    using top(2) by (auto simp: mq_wired_def r2_def lessThan_Suc)
  have inj_ch: "ch' \<noteq> ch" if "dict_get (mq_topics (r_mq r1)) x = Some ch'" "x \<noteq> topic" for x ch'
    using that top(2,3) dict_value_inj[of "mq_topics (r_mq r1)" x ch topic] by (auto simp: mq_wired_def)
  have "mq_subs c x (t1, r2) = mq_subs c x (t, r) @ (if x = topic then [fn] else [])" for x
    unfolding top(9)[rule_format, symmetric]
    using top(3) inj_ch[of x] by (auto simp: mq_subs_def c_def r2_def split: option.split)
  with run wired top show ?thesis by (intro exI[of _ "uuid4 (r_drawn r1)"] exI[of _ t1] exI[of _ r2]) (auto simp: r2_def)
qed

section \<open>Publishing to handlers\<close>

text \<open>Handlers that act on the user's part of the state and return \<open>None\<close>.\<close>

definition user_call :: "('h \<Rightarrow> message \<Rightarrow> 'w \<Rightarrow> 'w) \<Rightarrow> 'h \<Rightarrow> message \<Rightarrow> (('h, 'w) mem_state, pyval) py" where
  "user_call u h m = (\<lambda>(t, r). (Inr PNone, (t, r\<lparr>r_user := u h m (r_user r)\<rparr>)))"

definition plain_channel :: "nat \<Rightarrow> 'h objects \<Rightarrow> bool" where
  "plain_channel ch b \<longleftrightarrow> ev_dispatcher (o_eventfuls b ch) = Broadcast \<and> ev_owner_mro (o_eventfuls b ch) = None"

lemma fire_user_call:
  assumes "plain_channel ch (r_objects r)" "o_nodes (r_objects r) = (\<lambda>_. None)"
  shows "ev_fire (rest_env (user_call u) sb ld) ch m (t, r) =
    (Inr (), (t, r\<lparr>r_user := fold (\<lambda>h. u h m) (ev_subscribers (o_eventfuls (r_objects r) ch)) (r_user r)\<rparr>))"
proof -
  let ?env = "rest_env (user_call u) sb ld"
  have inv: "invoke ?env h m (t, r\<lparr>r_user := w\<rparr>) = (Inr PNone, (t, r\<lparr>r_user := u h m w\<rparr>))" for h w
    using assms(2) by (simp add: invoke_def user_call_def)
  have "broadcast_dispatch ?env hs m (t, r\<lparr>r_user := w\<rparr>) = (Inr (), (t, r\<lparr>r_user := fold (\<lambda>h. u h m) hs w\<rparr>))" for hs w
    by (induction hs arbitrary: w) (simp_all add: broadcast_dispatch_def py_simps inv)
  from this[of _ "r_user r"] show ?thesis
    using assms(1) by (simp add: ev_fire_def py_simps plain_channel_def dispatch_def)
qed

lemma wired_channels: "mq_wired uuid4 (t, r) \<Longrightarrow> map snd (mt_subscribers t) = map snd (mq_topics (r_mq r))"
proof -
  have "list_all2 (\<lambda>(i, cb) (name, ch). P i name \<and> cb = ch) xs ys \<Longrightarrow> map snd xs = map snd ys" for P xs ys
    by (induction rule: list_all2_induct) auto
  then show "mq_wired uuid4 (t, r) \<Longrightarrow> ?thesis" by (auto simp: mq_wired_def)
qed

lemma wired_plain: "mq_wired uuid4 (t, r) \<Longrightarrow> cb \<in> snd ` set (mt_subscribers t) \<Longrightarrow> plain_channel cb (r_objects r)"
  using wired_channels[of uuid4 t r] unfolding set_map[symmetric] by (auto simp: mq_wired_def plain_channel_def)

text \<open>Any list of subscriptions on a fresh queue succeeds and leaves the handlers where they belong.\<close>

lemma subscribe_all_wired:
  fixes clock cl sb ld
  assumes "inj uuid4" "mq_wired uuid4 (t, r)"
  defines "c \<equiv> mem_ctx uuid4 clock (rest_env cl sb ld)"
  shows "\<exists>ids t' r'. py_map (\<lambda>(x, fn). mq_subscribe c x fn) subs (t, r) = (Inr ids, (t', r')) \<and> mq_wired uuid4 (t', r') \<and>
    mt_queues t' = mt_queues t \<and> mt_max_queue_size t' = mt_max_queue_size t \<and>
    r_user r' = r_user r \<and> o_nodes (r_objects r') = o_nodes (r_objects r) \<and>
    fst ` set (mq_topics (r_mq r')) = fst ` set subs \<union> fst ` set (mq_topics (r_mq r)) \<and>
    (\<forall>x. mq_subs c x (t', r') = mq_subs c x (t, r) @ map snd (filter (\<lambda>(y, _). y = x) subs))"
  using assms(2)
proof (induction subs arbitrary: t r)
  case Nil
  then show ?case by simp
next
  case (Cons s subs)
  obtain x fn where s: "s = (x, fn)" by fastforce
  from subscribe_wired[OF assms(1) Cons.prems, of clock cl sb ld x fn] obtain hid t1 r1 where
    1: "mq_subscribe c x fn (t, r) = (Inr hid, (t1, r1))" "mq_wired uuid4 (t1, r1)"
    "mt_queues t1 = mt_queues t" "mt_max_queue_size t1 = mt_max_queue_size t"
    "r_user r1 = r_user r" "o_nodes (r_objects r1) = o_nodes (r_objects r)"
    "fst ` set (mq_topics (r_mq r1)) = insert x (fst ` set (mq_topics (r_mq r)))"
    "\<forall>y. mq_subs c y (t1, r1) = mq_subs c y (t, r) @ (if y = x then [fn] else [])"
    unfolding c_def by blast
  from Cons.IH[OF 1(2)] obtain ids t2 r2 where
    "py_map (\<lambda>(x, fn). mq_subscribe c x fn) subs (t1, r1) = (Inr ids, (t2, r2))" "mq_wired uuid4 (t2, r2)"
    "mt_queues t2 = mt_queues t1" "mt_max_queue_size t2 = mt_max_queue_size t1"
    "r_user r2 = r_user r1" "o_nodes (r_objects r2) = o_nodes (r_objects r1)"
    "fst ` set (mq_topics (r_mq r2)) = fst ` set subs \<union> fst ` set (mq_topics (r_mq r1))"
    "\<forall>y. mq_subs c y (t2, r2) = mq_subs c y (t1, r1) @ map snd (filter (\<lambda>(z, _). z = y) subs)" by blast
  with 1 s show ?case by auto
qed

lemma publish_wired:
  fixes topic payload headers clock u sb ld
  assumes "mq_wired uuid4 (t, r)" "list_all (\<lambda>(name, _). plain_prefix name) (mq_topics (r_mq r))"
    and "o_nodes (r_objects r) = (\<lambda>_. None)"
  defines "m \<equiv> \<lparr>m_id = uuid4 (r_drawn r), m_topic = topic, m_payload = payload, m_headers = headers,
    m_timestamp = clock (r_user r), m_reply_to = None, m_correlation_id = None\<rparr>"
    and "c \<equiv> mem_ctx uuid4 clock (rest_env (user_call u) sb ld)"
  shows "mq_publish c topic payload headers (t, r) =
    (case mt_put m (t, r\<lparr>r_drawn := Suc (r_drawn r), r_user := fold (\<lambda>h. u h m) (mq_subs c topic (t, r)) (r_user r)\<rparr>) of
       (Inl e, s) \<Rightarrow> (Inl e, s) | (Inr _, s) \<Rightarrow> (Inr (m_id m), s))"
proof -
  let ?r = "r\<lparr>r_drawn := Suc (r_drawn r)\<rparr>"
  let ?g = "\<lambda>ch (t, r). (t, r\<lparr>r_user := fold (\<lambda>h. u h m) (ev_subscribers (o_eventfuls (r_objects r) ch)) (r_user r)\<rparr>)"
  have fire: "ev_fire (rest_env (user_call u) sb ld) cb m s = (Inr (), ?g cb s) \<and> fst (?g cb s) = t \<and>
      r_objects (snd (?g cb s)) = r_objects r"
    if "cb \<in> snd ` set (mt_subscribers t)" "fst s = t \<and> r_objects (snd s) = r_objects r" for cb s
    using wired_plain[OF assms(1) that(1)] that(2) assms(3) by (cases s) (simp add: fire_user_call)
  have "\<not> mt_closed t" using assms(1) by (simp add: mq_wired_def)
  then have "mt_send (ev_fire (rest_env (user_call u) sb ld)) m (t, ?r) = mt_put m (fold ?g (mt_targets t (m_topic m)) (t, ?r))"
    by (rule mt_send_pure[where P = "\<lambda>s. fst s = t \<and> r_objects (snd s) = r_objects r"]) (use fire in auto)
  also have "fold ?g (mt_targets t (m_topic m)) (t, ?r) =
      (t, ?r\<lparr>r_user := fold (\<lambda>h. u h m) (mq_subs c topic (t, r)) (r_user r)\<rparr>)"
    by (auto simp: wired_targets[OF assms(1,2)] mq_subs_def c_def m_def split: option.split)
  finally show ?thesis
    by (simp add: mq_publish_def mq_message_def mq_uuid_def py_simps c_def m_def split: prod.split sum.split)
qed


text \<open>A queue whose handlers write their name to a log, for the witnesses.\<close>

definition demo_ids :: "nat \<Rightarrow> string" where
  "demo_ids n = replicate n CHR ''u''"

lemma demo_ids_inj: "inj demo_ids"
  by (rule injI) (metis demo_ids_def length_replicate)

definition demo_ctx :: "(nat, (nat, nat list) mem_state) mq_ctx" where
  "demo_ctx = mem_ctx demo_ids (\<lambda>_. 0) (rest_env (user_call (\<lambda>h m w. w @ [h])) (\<lambda>_ _. py_ret ()) (\<lambda>_. py_ret 0))"

definition demo_rest :: "(nat, nat list) mq_rest" where
  "demo_rest = \<lparr>r_objects = \<lparr>o_nodes = (\<lambda>_. None), o_eventfuls = (\<lambda>_. eventful_new None None None),
       o_rr_idx = (\<lambda>_. 0), o_class_subscribers = []\<rparr>, r_mq = mq_init, r_drawn = 0, r_user = []\<rparr>"


section \<open>Unsubscribing, and a queue that was closed\<close>

text \<open>
  Unsubscribing undoes a subscription. The handler id a subscription returned removes one occurrence
  of the handler from its topic and returns \<open>True\<close>; the topic then has the subscribers it had, up to
  the place of equal handlers; using the id a second time returns \<open>False\<close> and changes nothing.
\<close>

theorem subscribe_then_unsubscribe:
  assumes "mq_subscribe (mem_ctx uuid4 clock (rest_env cl sb ld)) topic fn s = (Inr hid, s1)"
  shows "\<exists>s2. mq_unsubscribe (mem_ctx uuid4 clock (rest_env cl sb ld)) hid s1 = (Inr True, s2) \<and>
    mq_subs (mem_ctx uuid4 clock (rest_env cl sb ld)) topic s2 =
      remove1 fn (mq_subs (mem_ctx uuid4 clock (rest_env cl sb ld)) topic s @ [fn]) \<and>
    mq_unsubscribe (mem_ctx uuid4 clock (rest_env cl sb ld)) hid s2 = (Inr False, s2)"
proof -
  let ?c = "mem_ctx uuid4 clock (rest_env cl sb ld)"
  from mem_queue.subscribe_effect[OF assms] have
    "mq_subs ?c topic s1 = mq_subs ?c topic s @ [fn]" "dict_get (mq_sub_ids (c_mq ?c s1)) hid = Some (topic, fn)" by simp_all
  with mem_queue.unsubscribe_effect[of uuid4 clock cl sb ld s1 hid topic fn] show ?thesis by auto
qed

theorem subscribe_then_unsubscribe_witness:
  "\<exists>hid s1 s2. mq_subscribe demo_ctx ''a'' 1 (mt_init 1, demo_rest) = (Inr hid, s1) \<and>
     mq_unsubscribe demo_ctx hid s1 = (Inr True, s2) \<and> mq_subs demo_ctx ''a'' s2 = []"
proof -
  have "mq_wired demo_ids (mt_init 1, demo_rest)" by (simp add: mq_wired_def mt_init_def demo_rest_def mq_init_def)
  from subscribe_wired[OF demo_ids_inj this] obtain hid s1 where
    sub: "mq_subscribe demo_ctx ''a'' 1 (mt_init 1, demo_rest) = (Inr hid, s1)" unfolding demo_ctx_def by blast
  have "mq_subs demo_ctx ''a'' (mt_init 1, demo_rest) = []"
    by (simp add: mq_subs_def demo_ctx_def demo_rest_def mq_init_def)
  with subscribe_then_unsubscribe[OF sub[unfolded demo_ctx_def]] sub show ?thesis
    unfolding demo_ctx_def by fastforce
qed

text \<open>
  C39. A closed queue refuses a new topic once only. The first subscription to a new topic after \<open>close\<close>
  raises, but leaves the topic registered; a second subscription to it then returns a handler id
  although the transport has no subscription for the topic.
\<close>

theorem closed_queue_accepts_second_subscribe:
  assumes "mt_closed t" and "dict_get (mq_topics (r_mq r)) topic = None"
  shows "\<exists>s1 hid s2. mq_subscribe (mem_ctx uuid4 clock (rest_env cl sb ld)) topic fn (t, r) = (Inl transport_closed, s1) \<and>
    mq_subscribe (mem_ctx uuid4 clock (rest_env cl sb ld)) topic fn s1 = (Inr hid, s2) \<and>
    mt_subscribers (fst s2) = mt_subscribers t"
  using assms
  by (simp add: mq_subscribe_def mq_topic_def py_simps Let_def upd_eventful_def mt_subscribe_def ev_subscribe_def mq_uuid_def)

theorem closed_queue_accepts_second_subscribe_witness:
  "\<exists>s1 hid s2. mq_subscribe demo_ctx ''a'' 1 ((mt_init 1)\<lparr>mt_closed := True\<rparr>, demo_rest) = (Inl transport_closed, s1) \<and>
     mq_subscribe demo_ctx ''a'' 1 s1 = (Inr hid, s2) \<and> mt_subscribers (fst s2) = []"
proof -
  have "dict_get (mq_topics (r_mq demo_rest)) ''a'' = None" by (simp add: demo_rest_def mq_init_def)
  from closed_queue_accepts_second_subscribe[OF _ this, of "(mt_init 1)\<lparr>mt_closed := True\<rparr>"]
  show ?thesis unfolding demo_ctx_def by (simp add: mt_init_def)
qed

section \<open>Request and reply\<close>

text \<open>A handler that answers each message with \<open>f\<close> of its payload, through the queue \<open>c\<close>.\<close>

definition answer :: "('h, ('h, 'w) mem_state) mq_ctx \<Rightarrow> (pyval \<Rightarrow> pyval) \<Rightarrow> message \<Rightarrow> (('h, 'w) mem_state, pyval) py" where
  "answer c f m = py_seq (mq_reply c m (f (m_payload m)) []) (py_ret PNone)"

text \<open>A message on a topic nobody subscribed to is queued only.\<close>

lemma notify_unmatched:
  "targets memory_matches subs (dict_get (mt_sub_topic t)) (m_topic m) = [] \<Longrightarrow>
     py_for (mt_notify run_cb m) subs (t, w) = (Inr (), (t, w))"
  by (induction subs) (auto simp: targets_def mt_notify_def split: option.splits if_splits)

lemma send_unmatched:
  assumes "\<not> mt_closed t" "mt_targets t (m_topic m) = []"
  shows "mt_send run_cb m (t, w) = mt_put m (t, w)"
  using assms notify_unmatched[of "mt_subscribers t" t m run_cb w] by (simp add: mt_send_def py_simps)

text \<open>With one matching subscription its callback runs once, then the message is queued.\<close>

lemma notify_single:
  assumes "targets memory_matches subs (dict_get (mt_sub_topic t)) (m_topic m) = [cb]"
    and "py_suppress (run_cb cb m) (t, w) = (Inr (), (t', w'))" and "mt_sub_topic t' = mt_sub_topic t"
  shows "py_for (mt_notify run_cb m) subs (t, w) = (Inr (), (t', w'))"
  using assms(1)
proof (induction subs)
  case (Cons x subs)
  obtain i cb' where x: "x = (i, cb')" by fastforce
  show ?case
  proof (cases "\<exists>p. dict_get (mt_sub_topic t) i = Some p \<and> memory_matches (m_topic m) p")
    case True
    with Cons.prems x have "cb' = cb" "targets memory_matches subs (dict_get (mt_sub_topic t)) (m_topic m) = []"
      by (auto simp: targets_def)
    with True x assms(2,3) notify_unmatched[of subs t' m run_cb w'] show ?thesis
      by (auto simp: mt_notify_def)
  next
    case False
    with Cons x show ?thesis by (auto simp: mt_notify_def targets_def split: option.splits)
  qed
qed (simp add: targets_def)

lemma send_suppressed:
  assumes "\<not> mt_closed t" "mt_targets t (m_topic m) = [cb]" "py_suppress (run_cb cb m) (t, w) = (Inr (), (t', w'))"
    "mt_sub_topic t' = mt_sub_topic t"
  shows "mt_send run_cb m (t, w) = mt_put m (t', w')"
  using assms(1) notify_single[where run_cb = run_cb, OF assms(2,3,4)] by (simp add: mt_send_def py_simps)

lemma send_single:
  assumes "\<not> mt_closed t" "mt_targets t (m_topic m) = [cb]" "run_cb cb m (t, w) = (Inr (), (t', w'))"
    "mt_sub_topic t' = mt_sub_topic t"
  shows "mt_send run_cb m (t, w) = mt_put m (t', w')"
  using assms(3) by (intro send_suppressed[OF assms(1,2) _ assms(4)]) (simp add: py_simps)

lemma answer_queues_reply:
  assumes "\<not> mt_closed t" "m_reply_to m = Some rt" "rt \<noteq> []" "mt_targets t rt = []" "mt_queue t rt = []"
  shows "\<exists>reply t' r'. answer (mem_ctx uuid4 clock (rest_env cl sb ld)) f m (t, r) = (Inr PNone, (t', r')) \<and>
    r_objects r' = r_objects r \<and> mt_sub_topic t' = mt_sub_topic t \<and> mt_closed t' = mt_closed t \<and>
    mt_max_queue_size t' = mt_max_queue_size t \<and>
    (\<forall>x. mt_queue t' x = (if x = rt then [reply] else mt_queue t x)) \<and>
    m_payload reply = f (m_payload m) \<and> m_correlation_id reply = m_correlation_id m \<and> m_topic reply = rt"
proof -
  obtain x xs where rt: "rt = x # xs" using assms(3) by (cases rt) auto
  show ?thesis
    using assms rt
    by (simp add: answer_def mq_reply_def mq_message_def mq_uuid_def py_simps send_unmatched mt_put_def Let_def
        queue_full_def mt_queue_def)
qed

lemma wired_draw: "mq_wired uuid4 (t, r) \<Longrightarrow> r_drawn r \<le> n \<Longrightarrow> mq_wired uuid4 (t, r\<lparr>r_drawn := n\<rparr>)"
  by (auto simp: mq_wired_def)

lemma mq_subs_draw [simp]:
  "mq_subs (mem_ctx uuid4 clock (rest_env cl sb ld)) topic (t, r\<lparr>r_drawn := n\<rparr>) = mq_subs (mem_ctx uuid4 clock (rest_env cl sb ld)) topic (t, r)"
  by (simp add: mq_subs_def cong: option.case_cong)

text \<open>
  A message to a topic with one handler, which leaves one reply on another topic: waiting there returns
  the reply.
\<close>

lemma roundtrip_single:
  fixes clock cl sb ld
  assumes "mq_wired uuid4 (t, r)" "list_all (\<lambda>(name, _). plain_prefix name) (mq_topics (r_mq r))"
    "o_nodes (r_objects r) = (\<lambda>_. None)" "mq_subs (mem_ctx uuid4 clock (rest_env cl sb ld)) (m_topic m) (t, r) = [h]"
    and run: "cl h m (t, r) = (Inr v, (t4, r4))"
    and keeps: "mt_sub_topic t4 = mt_sub_topic t" "mt_closed t4 = mt_closed t" "mt_max_queue_size t4 = mt_max_queue_size t"
    and queues: "\<forall>x. mt_queue t4 x = (if x = rt then [reply] else mt_queue t x)"
    and "m_topic m \<noteq> rt" "\<not> queue_full (mt_max_queue_size t) (mt_queue t (m_topic m))" "0 \<le> timeout"
  shows "\<exists>t'. py_seq (mt_send (ev_fire (rest_env cl sb ld)) m) (mt_receive rt (Some timeout)) (t, r) = (Inr (Got (Some reply)), (t', r4))"
proof -
  let ?env = "rest_env cl sb ld"
  have open_t: "\<not> mt_closed t" using assms(1) by (simp add: mq_wired_def)
  obtain ch where ch: "dict_get (mq_topics (r_mq r)) (m_topic m) = Some ch" "ev_subscribers (o_eventfuls (r_objects r) ch) = [h]"
    using assms(4) by (auto simp: mq_subs_def split: option.splits)
  have "plain_channel ch (r_objects r)"
    using assms(1) ch(1) by (force simp: mq_wired_def plain_channel_def dest: map_of_SomeD)
  then have fire: "ev_fire ?env ch m (t, r) = (Inr (), (t4, r4))"
    using ch(2) assms(3) run
    by (simp add: ev_fire_def py_simps plain_channel_def dispatch_def broadcast_dispatch_def invoke_def)
  have send: "mt_send (ev_fire ?env) m (t, r) = mt_put m (t4, r4)"
    using open_t fire keeps(1) ch(1) by (intro send_single[where cb = ch]) (simp_all add: wired_targets[OF assms(1,2)])
  define t5 where "t5 = t4\<lparr>mt_queues := dict_set (m_topic m) (mt_queue t4 (m_topic m) @ [m]) (mt_queues t4)\<rparr>"
  have put: "mt_put m (t4, r4) = (Inr (), (t5, r4))"
    using assms(10,11) keeps queues by (simp add: mt_put_def Let_def t5_def)
  have "mt_queue t5 rt = [reply]" using queues assms(10) by (simp add: t5_def mt_queue_def)
  with send put show ?thesis
    using assms(12) keeps open_t by (simp add: py_simps mt_receive_def mt_pop_def t5_def)
qed

lemma wired_no_target:
  assumes "mq_wired uuid4 (t, r)" "list_all (\<lambda>(name, _). plain_prefix name) (mq_topics (r_mq r))"
    "rt \<notin> fst ` set (mq_topics (r_mq r))"
  shows "mt_targets t rt = []"
  using assms(3) map_of_eq_None_iff[of "mq_topics (r_mq r)" rt] by (simp add: wired_targets[OF assms(1,2)])

lemma subscribed_topic: "mq_subs (mem_ctx uuid4 clock (rest_env cl sb ld)) topic (t, r) \<noteq> [] \<Longrightarrow> topic \<in> fst ` set (mq_topics (r_mq r))"
  by (force simp: mq_subs_def split: option.splits dest: map_of_SomeD)

text \<open>
  Request and reply. When a topic has one subscriber, which answers every message with \<open>f\<close> of its
  payload, \<open>request\<close> on that topic returns the reply to this very request: its payload is \<open>f\<close> of the
  request's, its correlation id is the one the request was given, and it came through the reply topic
  made for the request. (Handlers that run inside the answering handler's own send are arbitrary: the
  reply topic is new, so none does.)
\<close>

theorem request_gets_reply:
  assumes "mq_wired uuid4 (t, r)" and "list_all (\<lambda>(name, _). plain_prefix name) (mq_topics (r_mq r))"
    and "o_nodes (r_objects r) = (\<lambda>_. None)"
    and "mq_subs (mem_ctx uuid4 clock (rest_env cl sb ld)) topic (t, r) = [h]"
    and "\<And>m s. cl h m s = answer (mem_ctx uuid4 clock (rest_env cl0 sb ld)) f m s"
    and "''_reply.'' @ uuid4 (r_drawn r) \<notin> fst ` set (mq_topics (r_mq r))"
    and "mt_queue t (''_reply.'' @ uuid4 (r_drawn r)) = []"
    and "\<not> queue_full (mt_max_queue_size t) (mt_queue t topic)" and "0 \<le> timeout"
  shows "\<exists>reply s'. mq_request (mem_ctx uuid4 clock (rest_env cl sb ld)) topic payload timeout headers (t, r) =
      (Inr (Got (Some reply)), s') \<and> m_payload reply = f payload \<and>
      m_correlation_id reply = Some (uuid4 (Suc (r_drawn r))) \<and> m_topic reply = ''_reply.'' @ uuid4 (r_drawn r)"
proof -
  let ?rt = "''_reply.'' @ uuid4 (r_drawn r)" and ?c = "mem_ctx uuid4 clock (rest_env cl sb ld)"
  define m where "m = \<lparr>m_id = uuid4 (Suc (Suc (r_drawn r))), m_topic = topic, m_payload = payload, m_headers = headers,
    m_timestamp = clock (r_user r), m_reply_to = Some ?rt, m_correlation_id = Some (uuid4 (Suc (r_drawn r)))\<rparr>"
  define r3 where "r3 = r\<lparr>r_drawn := Suc (Suc (Suc (r_drawn r)))\<rparr>"
  have w3: "mq_wired uuid4 (t, r3)" using wired_draw[OF assms(1)] by (simp add: r3_def)
  have open_t: "\<not> mt_closed t" using assms(1) by (simp add: mq_wired_def)
  have "topic \<in> fst ` set (mq_topics (r_mq r))" using subscribed_topic[of uuid4 clock cl sb ld topic t r] assms(4) by simp
  then have "topic \<noteq> ?rt" using assms(6) by metis
  then have neq: "m_topic m \<noteq> ?rt" by (simp add: m_def)
  obtain reply t4 r4 where a: "answer (mem_ctx uuid4 clock (rest_env cl0 sb ld)) f m (t, r3) = (Inr PNone, (t4, r4))"
    "mt_sub_topic t4 = mt_sub_topic t" "mt_closed t4 = mt_closed t" "mt_max_queue_size t4 = mt_max_queue_size t"
    "\<forall>x. mt_queue t4 x = (if x = ?rt then [reply] else mt_queue t x)"
    "m_payload reply = f payload" "m_correlation_id reply = Some (uuid4 (Suc (r_drawn r)))" "m_topic reply = ?rt"
    using answer_queues_reply[OF open_t _ _ wired_no_target[OF assms(1,2,6)] assms(7), of m uuid4 clock cl0 sb ld f r3]
    by (auto simp: m_def)
  have "\<exists>t'. py_seq (mt_send (ev_fire (rest_env cl sb ld)) m) (mt_receive ?rt (Some timeout)) (t, r3) = (Inr (Got (Some reply)), (t', r4))"
    using assms(2-5,8,9) a(1) neq
    by (intro roundtrip_single[where clock = clock and h = h, OF w3 _ _ _ _ a(2-5)]) (simp_all add: r3_def m_def)
  moreover have "mq_request ?c topic payload timeout headers (t, r) =
      py_seq (mt_send (ev_fire (rest_env cl sb ld)) m) (mt_receive ?rt (Some timeout)) (t, r3)"
    by (simp add: mq_request_def mq_message_def mq_uuid_def py_simps Let_def m_def r3_def)
  ultimately show ?thesis using a(6-8) by auto
qed

text \<open>A program at its start, and after one subscription: the hypotheses above hold there.\<close>

definition fresh_rest :: "'w \<Rightarrow> ('h, 'w) mq_rest" where
  "fresh_rest w = \<lparr>r_objects = \<lparr>o_nodes = (\<lambda>_. None), o_eventfuls = (\<lambda>_. eventful_new None None None),
       o_rr_idx = (\<lambda>_. 0), o_class_subscribers = []\<rparr>, r_mq = mq_init, r_drawn = 0, r_user = w\<rparr>"

lemma one_subscriber:
  fixes h :: 'h and w :: 'w and clock cl sb ld
  assumes "inj uuid4" "plain_prefix topic"
  obtains t r hid where "mq_subscribe (mem_ctx uuid4 clock (rest_env cl sb ld)) topic h (mt_init n, fresh_rest w) = (Inr hid, (t, r))"
    "mq_wired uuid4 (t, r)" "list_all (\<lambda>(name, _). plain_prefix name) (mq_topics (r_mq r))"
    "o_nodes (r_objects r) = (\<lambda>_. None)" "mq_subs (mem_ctx uuid4 clock (rest_env cl sb ld)) topic (t, r) = [h]"
    "r_user r = w" "mt_queues t = []" "fst ` set (mq_topics (r_mq r)) = {topic}"
proof -
  let ?c = "mem_ctx uuid4 clock (rest_env cl sb ld)"
  have w: "mq_wired uuid4 (mt_init n, fresh_rest w :: ('h, 'w) mq_rest)"
    by (simp add: mq_wired_def mt_init_def fresh_rest_def mq_init_def)
  from subscribe_wired[OF assms(1) w, of clock cl sb ld topic h] obtain hid t r where
    s: "mq_subscribe ?c topic h (mt_init n, fresh_rest w) = (Inr hid, (t, r))" "mq_wired uuid4 (t, r)"
    "mt_queues t = []" "r_user r = w" "o_nodes (r_objects r) = (\<lambda>_. None)" "fst ` set (mq_topics (r_mq r)) = {topic}"
    "mq_subs ?c topic (t, r) = [h]"
    by (auto simp: mt_init_def fresh_rest_def mq_init_def mq_subs_def)
  have "\<forall>x \<in> fst ` set (mq_topics (r_mq r)). plain_prefix x" unfolding s(6) by (simp add: assms(2))
  then have "list_all (\<lambda>(name, _). plain_prefix name) (mq_topics (r_mq r))" by (auto simp: list_all_iff)
  with s show ?thesis by (intro that)
qed

theorem request_gets_reply_witness:
  "\<exists>r reply s'. mq_request (mem_ctx demo_ids (\<lambda>_. 0)
      (rest_env (\<lambda>_. answer demo_ctx (\<lambda>p. PList [p])) (\<lambda>_ _. py_ret ()) (\<lambda>_. py_ret 0))) ''a'' PNone 1 [] r =
     (Inr (Got (Some reply)), s') \<and> m_payload reply = PList [PNone]"
proof -
  let ?cl = "\<lambda>_. answer demo_ctx (\<lambda>p. PList [p])"
  let ?c = "mem_ctx demo_ids (\<lambda>_. 0) (rest_env ?cl (\<lambda>_ _. py_ret ()) (\<lambda>_. py_ret 0))"
  have "plain_prefix ''a''" by (simp add: plain_prefix_def)
  then obtain t r where s: "mq_wired demo_ids (t, r)" "list_all (\<lambda>(name, _). plain_prefix name) (mq_topics (r_mq r))"
    "o_nodes (r_objects r) = (\<lambda>_. None)" "mq_subs ?c ''a'' (t, r) = [1]" "mt_queues t = []"
    "fst ` set (mq_topics (r_mq r)) = {''a''}"
    by (rule one_subscriber[OF demo_ids_inj, where h = 1 and n = 1 and w = "[]" and cl = ?cl]) (rule that)
  have "\<exists>reply s'. mq_request ?c ''a'' PNone 1 [] (t, r) = (Inr (Got (Some reply)), s') \<and> m_payload reply = PList [PNone] \<and>
      m_correlation_id reply = Some (demo_ids (Suc (r_drawn r))) \<and> m_topic reply = ''_reply.'' @ demo_ids (r_drawn r)"
    by (rule request_gets_reply[OF s(1-4)]) (simp_all add: s(5,6) demo_ctx_def mt_queue_def queue_full_def)
  then show ?thesis by blast
qed

end
