(* ===== verification/Executor.thy ===== *)
theory Executor
  imports Message_Queue
begin

text \<open>
  \<open>src/eventforge/executor.py\<close>: the executor's tables of results and futures, task execution in the
  calling thread, in a thread pool and in a process pool, and \<open>result\<close>.

  A function is a name of type \<open>'f\<close>; what calling it does is a parameter. A future is running (it
  knows its call) or done; the pool's workers and the done callback are separate steps. The clock, the
  worker's name and the identifier source belong to the context \<open>'s ex_ctx\<close>.
\<close>

section \<open>Results\<close>

datatype execution_mode = SEQUENTIAL | THREAD | PROCESS

fun mode_value :: "execution_mode \<Rightarrow> string" where
  "mode_value SEQUENTIAL = ''sequential''" | "mode_value THREAD = ''thread''" | "mode_value PROCESS = ''process''"

text \<open>What a pool worker hands back: a \<open>TaskResult\<close> (threads) or a dict (processes).\<close>

datatype raw = RTask task_result | RDict kwargs

definition completed_result :: "string \<Rightarrow> pyval \<Rightarrow> real \<Rightarrow> string \<Rightarrow> task_result" where
  "completed_result task_id value elapsed worker =
     \<lparr>tr_task_id = task_id, tr_status = COMPLETED, tr_value = value, tr_error = None, tr_error_type = None,
      tr_execution_time = elapsed, tr_worker_id = worker\<rparr>"

definition failed_result :: "string \<Rightarrow> pyexn \<Rightarrow> real \<Rightarrow> string \<Rightarrow> task_result" where
  "failed_result task_id e elapsed worker =
     \<lparr>tr_task_id = task_id, tr_status = FAILED, tr_value = PNone, tr_error = Some (exn_str e),
      tr_error_type = Some (exn_type e), tr_execution_time = elapsed, tr_worker_id = worker\<rparr>"

definition execute_sync ::
  "('s, real) py \<Rightarrow> ('s \<Rightarrow> string) \<Rightarrow> string \<Rightarrow> ('s, pyval) py \<Rightarrow> ('s, task_result) py" where
  "execute_sync clock thread_name task_id body =
     py_bind clock (\<lambda>start.
     py_bind (py_gets (\<lambda>s. ''thread-'' @ thread_name s)) (\<lambda>worker_id.
     py_except
       (py_bind body (\<lambda>value. py_bind clock (\<lambda>now. py_ret (completed_result task_id value (now - start) worker_id))))
       (\<lambda>e. py_bind clock (\<lambda>now. py_ret (failed_result task_id e (now - start) worker_id)))))"

definition run_with_timing ::
  "('s, real) py \<Rightarrow> ('s \<Rightarrow> int) \<Rightarrow> string \<Rightarrow> ('s, pyval) py \<Rightarrow> ('s, kwargs) py" where
  "run_with_timing clock pid task_id body =
     py_bind clock (\<lambda>start.
     py_except
       (py_bind body (\<lambda>result. py_bind clock (\<lambda>now. py_gets (\<lambda>s.
          [(''task_id'', PStr task_id), (''status'', PStr ''completed''), (''value'', result), (''error'', PNone),
           (''execution_time'', PFloat (now - start)), (''worker_id'', PStr (''process-'' @ str_of_int (pid s)))]))))
       (\<lambda>e. py_bind clock (\<lambda>now. py_gets (\<lambda>s.
          [(''task_id'', PStr task_id), (''status'', PStr ''failed''), (''value'', PNone), (''error'', PStr (exn_str e)),
           (''error_type'', PStr (exn_type e)), (''execution_time'', PFloat (now - start)),
           (''worker_id'', PStr (''process-'' @ str_of_int (pid s)))]))))"

text \<open>
  \<open>TaskResult(task_id=raw["task_id"], status=TaskStatus(raw["status"]), ...)\<close>; a field of the wrong type
  is refused by the model's validation.
\<close>

definition invalid_field :: pyexn where
  "invalid_field = Exception ''ValidationError'' ''TaskResult''"

definition opt_str_field :: "pyval \<Rightarrow> pyexn + string option" where
  "opt_str_field v = (case v of PNone \<Rightarrow> Inr None | PStr x \<Rightarrow> Inr (Some x) | _ \<Rightarrow> Inl invalid_field)"

definition task_result_of_dict :: "kwargs \<Rightarrow> pyexn + task_result" where
  "task_result_of_dict d =
     (case dict_get d ''task_id'' of
        None \<Rightarrow> Inl (Exception ''KeyError'' (py_repr ''task_id''))
      | Some tid \<Rightarrow>
     (case dict_get d ''status'' of
        None \<Rightarrow> Inl (Exception ''KeyError'' (py_repr ''status''))
      | Some st \<Rightarrow>
     (case (tid, st) of
        (PStr task_id, PStr status) \<Rightarrow>
          (case status_of_value status of
             Inl e \<Rightarrow> Inl e
           | Inr stat \<Rightarrow>
          (case (opt_str_field (dict_get_default d ''error'' PNone), opt_str_field (dict_get_default d ''error_type'' PNone),
              dict_get_default d ''execution_time'' (PFloat 0), dict_get_default d ''worker_id'' (PStr [])) of
             (Inr err, Inr etype, PFloat x, PStr w) \<Rightarrow>
               Inr \<lparr>tr_task_id = task_id, tr_status = stat, tr_value = dict_get_default d ''value'' PNone, tr_error = err,
                 tr_error_type = etype, tr_execution_time = x, tr_worker_id = w\<rparr>
           | _ \<Rightarrow> Inl invalid_field))
      | _ \<Rightarrow> Inl invalid_field)))"

definition task_result_of_raw :: "raw \<Rightarrow> pyexn + task_result" where
  "task_result_of_raw r = (case r of RTask t \<Rightarrow> Inr t | RDict d \<Rightarrow> task_result_of_dict d)"

text \<open>The \<open>TaskResult\<close> for an exception that escaped the worker.\<close>

definition escaped_result :: "string \<Rightarrow> pyexn \<Rightarrow> task_result" where
  "escaped_result task_id e = failed_result task_id e 0 []"

section \<open>The executor\<close>

datatype 'f future = FRunning 'f "pyval list" kwargs | FDone "pyexn + raw"

record 'f executor =
  ex_mode :: execution_mode
  ex_max_workers :: int
  ex_results :: "(string, task_result) dict"
  ex_futures :: "(string, 'f future) dict"
  ex_pool :: bool
  ex_running :: bool

definition executor_init :: "execution_mode \<Rightarrow> int \<Rightarrow> 'f executor" where
  "executor_init mode max_workers =
     \<lparr>ex_mode = mode, ex_max_workers = max_workers, ex_results = [], ex_futures = [], ex_pool = False, ex_running = False\<rparr>"

definition executor_start :: "'f executor \<Rightarrow> 'f executor" where
  "executor_start x =
     (if ex_running x then x else x\<lparr>ex_pool := (if ex_mode x = SEQUENTIAL then ex_pool x else True), ex_running := True\<rparr>)"

definition executor_stop :: "'f executor \<Rightarrow> 'f executor" where
  "executor_stop x = (if \<not> ex_running x then x else x\<lparr>ex_pool := False, ex_running := False\<rparr>)"

definition store_result :: "string \<Rightarrow> task_result \<Rightarrow> 'f executor \<Rightarrow> 'f executor" where
  "store_result task_id r x = x\<lparr>ex_results := dict_set task_id r (ex_results x)\<rparr>"

text \<open>
  \<open>submit\<close> in a pool mode: start, and register the future (the pool has the call). No other thread acts in
  between here; \<open>Executor_Threads\<close> takes the two sections apart.
\<close>

definition register_future :: "string \<Rightarrow> 'f future \<Rightarrow> 'f executor \<Rightarrow> 'f executor" where
  "register_future task_id fut x = x\<lparr>ex_futures := dict_set task_id fut (ex_futures x)\<rparr>"

definition submit_pool :: "string \<Rightarrow> 'f \<Rightarrow> pyval list \<Rightarrow> kwargs \<Rightarrow> 'f executor \<Rightarrow> 'f executor" where
  "submit_pool task_id func args kw x =
     register_future task_id (FRunning func args kw) (executor_start x)"

text \<open>\<open>_on_complete\<close>: an \<open>Exception\<close> from the future or the conversion becomes a failed result.\<close>

definition on_complete :: "string \<Rightarrow> pyexn + raw \<Rightarrow> 'f executor \<Rightarrow> (pyexn + unit) \<times> 'f executor" where
  "on_complete task_id outcome x =
     (let store = (\<lambda>r. (Inr (), x\<lparr>ex_results := dict_set task_id r (ex_results x), ex_futures := dict_del task_id (ex_futures x)\<rparr>))
      in case outcome of
           Inl e \<Rightarrow> if is_Exc e then store (escaped_result task_id e) else (Inl e, x)
         | Inr raw \<Rightarrow>
             (case task_result_of_raw raw of
                Inl e \<Rightarrow> if is_Exc e then store (escaped_result task_id e) else (Inl e, x)
              | Inr r \<Rightarrow> store r))"

definition timed_out :: "string \<Rightarrow> pyexn" where
  "timed_out task_id = Exception ''TimeoutError'' (''Task '' @ task_id @ '' timed out'')"

definition not_found :: "string \<Rightarrow> pyexn" where
  "not_found task_id = Exception ''TimeoutError'' (''Task '' @ task_id @ '' not found'')"

text \<open>
  \<open>result\<close>, with no other thread acting meanwhile: a running future makes it wait (\<open>Blocked\<close>) or time
  out. A timeout of zero means no deadline, as the source tests its truth.
\<close>

definition executor_result :: "string \<Rightarrow> real option \<Rightarrow> 'f executor \<Rightarrow> pyexn + task_result waiting" where
  "executor_result task_id timeout x =
     (let deadline = (case timeout of Some t \<Rightarrow> if t = 0 then None else Some t | None \<Rightarrow> None) in
      case dict_get (ex_results x) task_id of
        Some r \<Rightarrow> Inr (Got r)
      | None \<Rightarrow>
          (case dict_get (ex_futures x) task_id of
             Some f \<Rightarrow>
               (if (case deadline of Some t \<Rightarrow> t < 0 | None \<Rightarrow> False) then Inl (timed_out task_id)
                else case f of
                  FRunning _ _ _ \<Rightarrow> if deadline = None then Inr Blocked else Inl (timed_out task_id)
                | FDone outcome \<Rightarrow>
                    (case (case outcome of Inl e \<Rightarrow> Inl e | Inr raw \<Rightarrow> task_result_of_raw raw) of
                       Inr r \<Rightarrow> Inr (Got r)
                     | Inl e \<Rightarrow>
                         if exn_type e = ''TimeoutError'' then Inl (timed_out task_id)
                         else if is_Exc e then Inr (Got (escaped_result task_id e)) else Inl e))
           | None \<Rightarrow> (if deadline = None then Inr Blocked else Inl (not_found task_id))))"

section \<open>Submitting and mapping\<close>

record ('f, 's) ex_ctx =
  x_get :: "'s \<Rightarrow> 'f executor"
  x_upd :: "('f executor \<Rightarrow> 'f executor) \<Rightarrow> 's \<Rightarrow> 's"
  x_uuid :: "('s, string) py"
  x_clock :: "('s, real) py"
  x_thread :: "'s \<Rightarrow> string"
  x_pid :: "'s \<Rightarrow> int"
  x_call :: "'f \<Rightarrow> pyval list \<Rightarrow> kwargs \<Rightarrow> ('s, pyval) py"

text \<open>
  \<open>submit(func, *args, priority=0, timeout=None, **kwargs)\<close>: the two keyword parameters of \<open>submit\<close> itself are
  taken out of the keyword arguments, and neither is used.
\<close>

definition submit_kwargs :: "kwargs \<Rightarrow> kwargs" where
  "submit_kwargs kw = filter (\<lambda>(k, v). k \<noteq> ''priority'' \<and> k \<noteq> ''timeout'') kw"

lemma submit_kwargs_Nil [simp]: "submit_kwargs [] = []"
  by (simp add: submit_kwargs_def)

definition executor_submit :: "('f, 's) ex_ctx \<Rightarrow> 'f \<Rightarrow> pyval list \<Rightarrow> kwargs \<Rightarrow> ('s, string) py" where
  "executor_submit x func args kw =
     py_bind (x_uuid x) (\<lambda>task_id.
     py_bind (py_gets (\<lambda>s. ex_mode (x_get x s))) (\<lambda>mode.
       if mode = SEQUENTIAL
       then py_bind (execute_sync (x_clock x) (x_thread x) task_id (x_call x func args (submit_kwargs kw))) (\<lambda>result.
            py_seq (py_modify (x_upd x (store_result task_id result))) (py_ret task_id))
       else py_seq (py_modify (x_upd x (submit_pool task_id func args (submit_kwargs kw)))) (py_ret task_id)))"

text \<open>A pool worker runs the call of a future to its outcome.\<close>

definition worker_run :: "('f, 's) ex_ctx \<Rightarrow> string \<Rightarrow> ('s, unit) py" where
  "worker_run x task_id =
     py_bind (py_gets (x_get x)) (\<lambda>e.
       case dict_get (ex_futures e) task_id of
         Some (FRunning func args kw) \<Rightarrow>
           (\<lambda>s. case (if ex_mode e = THREAD
                then py_bind (execute_sync (x_clock x) (x_thread x) task_id (x_call x func args kw)) (\<lambda>r. py_ret (RTask r))
                else py_bind (run_with_timing (x_clock x) (x_pid x) task_id (x_call x func args kw)) (\<lambda>d. py_ret (RDict d))) s of
              (outcome, s') \<Rightarrow> (Inr (), x_upd x (\<lambda>e. e\<lparr>ex_futures := dict_set task_id (FDone outcome) (ex_futures e)\<rparr>) s'))
       | _ \<Rightarrow> py_ret ())"

text \<open>An entry \<open>Blocked\<close> of the list means that \<open>map\<close> waits there and does not return.\<close>

definition executor_map :: "('f, 's) ex_ctx \<Rightarrow> 'f \<Rightarrow> pyval list \<Rightarrow> real option \<Rightarrow> ('s, task_result waiting list) py" where
  "executor_map x func items timeout =
     py_bind (py_map (\<lambda>item. executor_submit x func [item] []) items) (\<lambda>task_ids.
       py_map (\<lambda>tid. \<lambda>s. (executor_result tid timeout (x_get x s), s)) task_ids)"

section \<open>The two workers agree\<close>

text \<open>
  Thread and process workers report the same. For every task body, running it through
  \<open>_execute_sync\<close> and through \<open>_run_with_timing\<close> has the same effects; an exception that is no
  \<open>Exception\<close> escapes from both; otherwise the dict of the process worker converts to the \<open>TaskResult\<close>
  of the thread worker, but for the worker's name.
\<close>

theorem workers_agree:
  "case (execute_sync clock thread_name task_id body s, run_with_timing clock pid task_id body s) of
     ((r1, s1), (r2, s2)) \<Rightarrow> s1 = s2 \<and>
       (case r1 of
          Inl e \<Rightarrow> r2 = Inl e
        | Inr t \<Rightarrow> (case r2 of Inl e \<Rightarrow> False
            | Inr d \<Rightarrow> task_result_of_dict d = Inr (t\<lparr>tr_worker_id := ''process-'' @ str_of_int (pid s2)\<rparr>)))"
proof (cases "clock s")
  case (Pair r s1)
  show ?thesis
  proof (cases r)
    case (Inl e)
    with Pair show ?thesis by (simp add: execute_sync_def run_with_timing_def py_simps)
  next
    case (Inr start)
    note st = Pair Inr
    have conv_ok: "task_result_of_dict [(''task_id'', PStr task_id), (''status'', PStr ''completed''), (''value'', v), (''error'', PNone),
           (''execution_time'', PFloat x), (''worker_id'', PStr w)] = Inr (completed_result task_id v x w)" for v x w
      by (simp add: task_result_of_dict_def status_of_value_def opt_str_field_def dict_get_default_def completed_result_def)
    have conv_err: "task_result_of_dict [(''task_id'', PStr task_id), (''status'', PStr ''failed''), (''value'', PNone), (''error'', PStr a),
           (''error_type'', PStr b), (''execution_time'', PFloat x), (''worker_id'', PStr w)] =
         Inr (failed_result task_id (Exception b a) x w)" for a b x w
      by (simp add: task_result_of_dict_def status_of_value_def opt_str_field_def dict_get_default_def failed_result_def)
    show ?thesis
      using st
      by (simp add: execute_sync_def run_with_timing_def py_simps conv_ok conv_err split: prod.split sum.split)
        (auto simp: completed_result_def failed_result_def)
  qed
qed

section \<open>No task is lost\<close>

text \<open>
  The critical sections of an executor, by any thread: a result stored under a new id in sequential mode, a future
  registered under a new id in a pool mode (it may be done already), a worker finishing a call with any
  outcome, the done callback, \<open>start\<close> (also that of \<open>submit\<close>) and \<open>stop\<close>.
\<close>

inductive ex_step :: "'f executor \<Rightarrow> string list \<Rightarrow> 'f executor \<Rightarrow> bool" where
  sequential: "ex_mode x = SEQUENTIAL \<Longrightarrow> dict_get (ex_results x) i = None \<Longrightarrow> dict_get (ex_futures x) i = None \<Longrightarrow>
    ex_step x [i] (store_result i r x)"
| register: "ex_mode x \<noteq> SEQUENTIAL \<Longrightarrow> dict_get (ex_results x) i = None \<Longrightarrow> dict_get (ex_futures x) i = None \<Longrightarrow>
    ex_step x [i] (register_future i fut x)"
| finish: "dict_get (ex_futures x) i = Some (FRunning f args kw) \<Longrightarrow>
    ex_step x [] (x\<lparr>ex_futures := dict_set i (FDone outcome) (ex_futures x)\<rparr>)"
| callback: "dict_get (ex_futures x) i = Some (FDone outcome) \<Longrightarrow> on_complete i outcome x = (r, x') \<Longrightarrow> ex_step x [] x'"
| start: "ex_step x [] (executor_start x)"
| stop: "ex_step x [] (executor_stop x)"

inductive ex_run :: "'f executor \<Rightarrow> string list \<Rightarrow> 'f executor \<Rightarrow> bool" where
  refl: "ex_run x [] x"
| step: "ex_run x ks y \<Longrightarrow> ex_step y js z \<Longrightarrow> ex_run x (ks @ js) z"

definition accounted :: "string set \<Rightarrow> 'f executor \<Rightarrow> bool" where
  "accounted ids x \<longleftrightarrow> dict_ok (ex_results x) \<and> dict_ok (ex_futures x) \<and>
     (\<forall>i. (i \<in> ids) = (dict_get (ex_results x) i \<noteq> None \<or> dict_get (ex_futures x) i \<noteq> None)) \<and>
     (\<forall>i. dict_get (ex_results x) i = None \<or> dict_get (ex_futures x) i = None) \<and>
     ex_pool x = (ex_running x \<and> ex_mode x \<noteq> SEQUENTIAL)"

lemma executor_start_fields [simp]:
  "ex_results (executor_start x) = ex_results x" "ex_futures (executor_start x) = ex_futures x"
  "ex_mode (executor_start x) = ex_mode x"
  by (simp_all add: executor_start_def)

lemma executor_stop_fields [simp]:
  "ex_results (executor_stop x) = ex_results x" "ex_futures (executor_stop x) = ex_futures x"
  "ex_mode (executor_stop x) = ex_mode x"
  by (simp_all add: executor_stop_def)

lemma on_complete_cases:
  assumes "on_complete i outcome x = (r, x')"
  shows "x' = x \<or> (\<exists>t. x' = x\<lparr>ex_results := dict_set i t (ex_results x), ex_futures := dict_del i (ex_futures x)\<rparr>)"
  using assms by (auto simp: on_complete_def Let_def split: sum.splits if_splits)

lemma accounted_fields:
  assumes "accounted ids x" "dict_ok (ex_results y)" "dict_ok (ex_futures y)"
    and "\<And>i. (dict_get (ex_results y) i \<noteq> None \<or> dict_get (ex_futures y) i \<noteq> None) \<longleftrightarrow>
      (dict_get (ex_results x) i \<noteq> None \<or> dict_get (ex_futures x) i \<noteq> None \<or> i \<in> new)"
    and "\<And>i. dict_get (ex_results y) i = None \<or> dict_get (ex_futures y) i = None"
    and "ex_pool y = (ex_running y \<and> ex_mode y \<noteq> SEQUENTIAL)"
  shows "accounted (ids \<union> new) y"
  using assms unfolding accounted_def by (metis Un_iff)

lemma accountedD:
  assumes "accounted ids x"
  shows "dict_ok (ex_results x)" "dict_ok (ex_futures x)" "dict_get (ex_results x) i = None \<or> dict_get (ex_futures x) i = None"
    "ex_pool x = (ex_running x \<and> ex_mode x \<noteq> SEQUENTIAL)"
  using assms by (simp_all add: accounted_def del: map_of_eq_Some_iff)

lemma ex_step_accounted:
  assumes "ex_step x js y" "accounted ids x"
  shows "accounted (ids \<union> set js) y"
  using assms(1)
proof cases
  case (sequential i r)
  then show ?thesis
    using accountedD[OF assms(2)] by (intro accounted_fields[OF assms(2)]) (auto simp: store_result_def simp del: map_of_eq_Some_iff)
next
  case (register i fut)
  then show ?thesis
    using accountedD[OF assms(2)]
    by (intro accounted_fields[OF assms(2)]) (auto simp: register_future_def simp del: map_of_eq_Some_iff)
next
  case (finish i f args kw outcome)
  then show ?thesis
    using accountedD[OF assms(2)] accountedD(3)[OF assms(2), of i]
    by (intro accounted_fields[OF assms(2)]) (auto simp del: map_of_eq_Some_iff)
next
  case (callback i outcome r)
  then show ?thesis
    using on_complete_cases[OF callback(3)] accountedD[OF assms(2)] assms(2)
    by (elim disjE exE) (simp, intro accounted_fields[OF assms(2)], auto simp del: map_of_eq_Some_iff)
next
  case start
  then show ?thesis using assms(2) by (auto simp: accounted_def executor_start_def)
next
  case stop
  then show ?thesis using assms(2) by (auto simp: accounted_def executor_stop_def)
qed

lemma ex_step_results_stable:
  assumes "ex_step x js y" "accounted ids x" "dict_get (ex_results x) i = Some r"
  shows "dict_get (ex_results y) i = Some r"
  using assms
proof (cases rule: ex_step.cases)
  case (callback j outcome r')
  have "j \<noteq> i" using accountedD(3)[OF assms(2), of i] assms(3) callback(2) by auto
  then show ?thesis using assms(3) on_complete_cases[OF callback(3)] by auto
qed (auto simp: store_result_def register_future_def)

text \<open>
  No task is lost or answered twice. In every reachable state of an executor each submitted task id is
  in exactly one of the two tables, the results or the futures, and nothing else is; a pool exists exactly
  while a pool-mode executor runs; and a result, once stored, is what every later state holds.
\<close>

theorem executor_accounts_for_tasks:
  assumes "ex_run (executor_init mode n) ks y" and "ex_run y js z"
  shows "accounted (set (ks @ js)) z \<and>
    (\<forall>i r. dict_get (ex_results y) i = Some r \<longrightarrow> dict_get (ex_results z) i = Some r)"
proof -
  have run: "accounted ids x \<Longrightarrow> accounted (ids \<union> set ks) x' \<and>
      (\<forall>i r. dict_get (ex_results x) i = Some r \<longrightarrow> dict_get (ex_results x') i = Some r)"
    if "ex_run x ks x'" for x ks x' and ids :: "string set"
    using that
  proof (induction rule: ex_run.induct)
    case (step x ks y js z)
    then have "accounted (ids \<union> set ks) y" by simp
    from ex_step_accounted[OF step.hyps(2) this] ex_step_results_stable[OF step.hyps(2) this] step.IH step.prems
    show ?case by (simp add: Un_assoc)
  qed simp
  have "accounted {} (executor_init mode n)" by (simp add: accounted_def executor_init_def)
  from run[OF assms(1) this] run[OF assms(2), of "set ks"] show ?thesis by simp
qed

theorem executor_accounts_for_tasks_witness:
  "accounted {''t''} (store_result ''t'' (completed_result ''t'' PNone 0 []) (executor_init SEQUENTIAL 4))"
proof -
  let ?x = "executor_init SEQUENTIAL 4 :: unit executor" and ?r = "completed_result ''t'' PNone 0 []"
  have "ex_step ?x [''t''] (store_result ''t'' ?r ?x)"
    by (rule ex_step.sequential) (simp_all add: executor_init_def)
  from ex_run.step[OF ex_run.refl this] have run: "ex_run ?x [''t''] (store_result ''t'' ?r ?x)" by simp
  from executor_accounts_for_tasks[OF run ex_run.refl] show ?thesis
    by (simp add: accounted_def store_result_def executor_init_def)
qed

section \<open>Mapping in sequential mode\<close>

text \<open>A program with an executor and the identifier counter; \<open>f\<close> gives what each call returns or raises.\<close>

definition seq_ctx :: "(nat \<Rightarrow> string) \<Rightarrow> ('f \<Rightarrow> pyval list \<Rightarrow> kwargs \<Rightarrow> pyexn + pyval) \<Rightarrow> ('f, 'f executor \<times> nat) ex_ctx" where
  "seq_ctx uuid4 f =
     \<lparr>x_get = fst, x_upd = apfst, x_uuid = (\<lambda>(x, n). (Inr (uuid4 n), (x, Suc n))), x_clock = py_ret 0,
      x_thread = (\<lambda>_. ''MainThread''), x_pid = (\<lambda>_. 1), x_call = (\<lambda>g args kw s. (f g args kw, s))\<rparr>"

definition outcome_result :: "string \<Rightarrow> pyexn + pyval \<Rightarrow> task_result" where
  "outcome_result task_id r = (case r of Inr v \<Rightarrow> completed_result task_id v 0 ''thread-MainThread''
     | Inl e \<Rightarrow> failed_result task_id e 0 ''thread-MainThread'')"

lemma submit_sequential:
  assumes "ex_mode x = SEQUENTIAL" "\<And>e. f g [item] [] = Inl e \<Longrightarrow> is_Exc e"
  shows "executor_submit (seq_ctx uuid4 f) g [item] [] (x, n) =
    (Inr (uuid4 n), (store_result (uuid4 n) (outcome_result (uuid4 n) (f g [item] [])) x, Suc n))"
  using assms
  by (cases "f g [item] []") (auto simp: executor_submit_def seq_ctx_def execute_sync_def py_simps outcome_result_def)

lemma submits_sequential:
  assumes "inj uuid4" "ex_mode x = SEQUENTIAL" "\<forall>item e. f g [item] [] = Inl e \<longrightarrow> is_Exc e"
  shows "\<exists>x'. py_map (\<lambda>item. executor_submit (seq_ctx uuid4 f) g [item] []) items (x, n) =
      (Inr (map uuid4 [n..<n + length items]), (x', n + length items)) \<and>
    (\<forall>j < length items. dict_get (ex_results x') (uuid4 (n + j)) = Some (outcome_result (uuid4 (n + j)) (f g [items ! j] []))) \<and>
    (\<forall>k < n. dict_get (ex_results x') (uuid4 k) = dict_get (ex_results x) (uuid4 k))"
  using assms(2)
proof (induction items arbitrary: x n)
  case (Cons item items)
  let ?x1 = "store_result (uuid4 n) (outcome_result (uuid4 n) (f g [item] [])) x"
  have sub: "executor_submit (seq_ctx uuid4 f) g [item] [] (x, n) = (Inr (uuid4 n), (?x1, Suc n))"
    using Cons.prems assms(3) by (intro submit_sequential) auto
  have "ex_mode ?x1 = SEQUENTIAL" using Cons.prems by (simp add: store_result_def)
  from Cons.IH[OF this, of "Suc n"] obtain x' where IH:
    "py_map (\<lambda>item. executor_submit (seq_ctx uuid4 f) g [item] []) items (?x1, Suc n) =
      (Inr (map uuid4 [Suc n..<Suc n + length items]), (x', Suc n + length items))"
    "\<forall>j < length items. dict_get (ex_results x') (uuid4 (Suc n + j)) = Some (outcome_result (uuid4 (Suc n + j)) (f g [items ! j] []))"
    "\<forall>k < Suc n. dict_get (ex_results x') (uuid4 k) = dict_get (ex_results ?x1) (uuid4 k)" by blast
  have first: "dict_get (ex_results x') (uuid4 n) = Some (outcome_result (uuid4 n) (f g [item] []))"
    using IH(3) by (simp add: store_result_def)
  have "dict_get (ex_results x') (uuid4 (n + j)) = Some (outcome_result (uuid4 (n + j)) (f g [(item # items) ! j] []))"
    if "j < Suc (length items)" for j
    using that first IH(2) by (cases j) auto
  moreover have "dict_get (ex_results x') (uuid4 k) = dict_get (ex_results x) (uuid4 k)" if "k < n" for k
    using that IH(3) assms(1) by (simp add: store_result_def inj_eq)
  moreover have "[n..<n + length (item # items)] = n # [Suc n..<Suc n + length items]" by (simp add: upt_conv_Cons del: upt_Suc)
  ultimately show ?case using sub IH(1) by auto
qed simp

lemma results_found:
  assumes "\<forall>i \<in> set ids. dict_get (ex_results x) i = Some (g i)"
  shows "py_map (\<lambda>tid s. (executor_result tid timeout (fst s), s)) ids (x, n) = (Inr (map (\<lambda>i. Got (g i)) ids), (x, n))"
  using assms by (induction ids) (auto simp: executor_result_def Let_def)

text \<open>
  \<open>map\<close> answers each item in order. In sequential mode, for any function whose failures are
  ordinary exceptions, \<open>map\<close> returns exactly one result per item, in the items' order, completed with
  the function's value or failed with its error, and never raises or blocks, whatever the timeout.
\<close>

theorem map_sequential:
  assumes "inj uuid4" and "ex_mode x = SEQUENTIAL" and "\<forall>item e. f g [item] [] = Inl e \<longrightarrow> is_Exc e"
  shows "\<exists>s'. executor_map (seq_ctx uuid4 f) g items timeout (x, n) =
    (Inr (map (\<lambda>j. Got (outcome_result (uuid4 (n + j)) (f g [items ! j] []))) [0..<length items]), s')"
proof -
  obtain x' where x': "py_map (\<lambda>item. executor_submit (seq_ctx uuid4 f) g [item] []) items (x, n) =
      (Inr (map uuid4 [n..<n + length items]), (x', n + length items))"
    "\<forall>j < length items. dict_get (ex_results x') (uuid4 (n + j)) = Some (outcome_result (uuid4 (n + j)) (f g [items ! j] []))"
    using submits_sequential[where f = f and g = g and items = items and n = n, OF assms] by blast
  let ?r = "\<lambda>i. the (dict_get (ex_results x') i)"
  have "\<forall>i \<in> set (map uuid4 [n..<n + length items]). dict_get (ex_results x') i = Some (?r i)"
  proof
    fix i assume "i \<in> set (map uuid4 [n..<n + length items])"
    then obtain j where "j < length items" "i = uuid4 (n + j)" by (auto simp: le_iff_add)
    with x'(2) show "dict_get (ex_results x') i = Some (?r i)" by simp
  qed
  from results_found[OF this, of timeout "n + length items"] x'(1)
  have "executor_map (seq_ctx uuid4 f) g items timeout (x, n) =
      (Inr (map (\<lambda>i. Got (?r i)) (map uuid4 [n..<n + length items])), (x', n + length items))"
    by (simp add: executor_map_def py_simps) (simp add: seq_ctx_def)
  moreover have "map uuid4 [n..<n + length items] = map (\<lambda>j. uuid4 (n + j)) [0..<length items]"
    by (rule nth_equalityI) auto
  ultimately show ?thesis using x'(2) by auto
qed

definition demo_fun :: "unit \<Rightarrow> pyval list \<Rightarrow> kwargs \<Rightarrow> pyexn + pyval" where
  "demo_fun g args kw = (if args = [PInt 0] then Inl (Exception ''ValueError'' ''zero'') else Inr (hd args))"

theorem map_sequential_witness:
  "\<exists>s'. executor_map (seq_ctx demo_ids demo_fun) () [PInt 1, PInt 0] None (executor_init SEQUENTIAL 4, 0) =
    (Inr [Got (completed_result [] (PInt 1) 0 ''thread-MainThread''),
          Got (failed_result ''u'' (Exception ''ValueError'' ''zero'') 0 ''thread-MainThread'')], s')"
proof -
  have "ex_mode (executor_init SEQUENTIAL 4) = SEQUENTIAL" "\<forall>item e. demo_fun () [item] [] = Inl e \<longrightarrow> is_Exc e"
    by (auto simp: executor_init_def demo_fun_def split: if_splits)
  from map_sequential[where f = demo_fun and g = "()" and items = "[PInt 1, PInt 0]" and timeout = None and n = 0, OF demo_ids_inj this] show ?thesis
    by (simp add: outcome_result_def demo_ids_def demo_fun_def)
qed

end
