(* ===== verification/Task_Pool.thy ===== *)
theory Task_Pool
  imports Memory_Transport
begin

text \<open>
  \<open>TaskPool\<close> of \<open>src/eventforge/task.py\<close>: a counting semaphore with the counters \<open>active\<close>, \<open>queued\<close> and
  \<open>total_processed\<close>. \<open>acquire\<close> and \<open>release\<close> are not atomic: they are the sequences of critical
  sections below, and the step relation lets any number of threads interleave them.
\<close>

record task_pool =
  tp_max :: int
  tp_sem :: int
  tp_active :: int
  tp_total :: int
  tp_queued :: int

definition task_pool_new :: "int \<Rightarrow> pyexn + task_pool" where
  "task_pool_new max_instances =
     (if max_instances < 1 then Inl (Exception ''ValueError'' ''max_instances must be at least 1'')
      else Inr \<lparr>tp_max = max_instances, tp_sem = max_instances, tp_active = 0, tp_total = 0, tp_queued = 0\<rparr>)"

text \<open>The critical sections of \<open>acquire\<close>: announce, take a permit, settle.\<close>

definition tp_arrive :: "task_pool \<Rightarrow> task_pool" where
  "tp_arrive p = p\<lparr>tp_queued := tp_queued p + 1\<rparr>"

definition tp_take :: "task_pool \<Rightarrow> task_pool" where
  "tp_take p = p\<lparr>tp_sem := tp_sem p - 1\<rparr>"

definition tp_settle :: "bool \<Rightarrow> task_pool \<Rightarrow> task_pool" where
  "tp_settle acquired p =
     (let p1 = p\<lparr>tp_queued := tp_queued p - 1\<rparr> in if acquired then p1\<lparr>tp_active := tp_active p1 + 1\<rparr> else p1)"

text \<open>
  \<open>acquire\<close> with no other thread acting meanwhile. \<open>Semaphore.acquire\<close> refuses a timeout on a
  non-blocking call.
\<close>

definition tp_acquire :: "bool \<Rightarrow> real option \<Rightarrow> task_pool \<Rightarrow> (pyexn + bool waiting) \<times> task_pool" where
  "tp_acquire blocking timeout p =
     (let p1 = tp_arrive p in
      if \<not> blocking \<and> timeout \<noteq> None
      then (Inl (Exception ''ValueError'' (''can'' @ squote @ ''t specify timeout for non-blocking acquire'')), p1)
      else if 0 < tp_sem p1 then (Inr (Got True), tp_settle True (tp_take p1))
      else if blocking \<and> timeout = None then (Inr Blocked, p1)
      else (Inr (Got False), tp_settle False p1))"

text \<open>The two sections of \<open>release\<close>.\<close>

definition tp_leave :: "task_pool \<Rightarrow> task_pool" where
  "tp_leave p = p\<lparr>tp_active := tp_active p - 1, tp_total := tp_total p + 1\<rparr>"

definition tp_signal :: "task_pool \<Rightarrow> task_pool" where
  "tp_signal p = p\<lparr>tp_sem := tp_sem p + 1\<rparr>"

definition tp_release :: "task_pool \<Rightarrow> task_pool" where
  "tp_release p = tp_signal (tp_leave p)"

definition tp_available :: "task_pool \<Rightarrow> int" where
  "tp_available p = tp_max p - tp_active p"

definition tp_stats :: "task_pool \<Rightarrow> kwargs" where
  "tp_stats p = [(''active'', PInt (tp_active p)), (''queued'', PInt (tp_queued p)),
     (''available'', PInt (tp_max p - tp_active p)), (''max'', PInt (tp_max p)), (''total_processed'', PInt (tp_total p))]"

text \<open>
  \<open>with pool.slot(blocking, timeout) as acquired: body(acquired)\<close> on a state that has the pool;
  \<open>None\<close> when the acquisition waits for ever.
\<close>

definition tp_slot ::
  "('s \<Rightarrow> task_pool) \<Rightarrow> ((task_pool \<Rightarrow> task_pool) \<Rightarrow> 's \<Rightarrow> 's) \<Rightarrow> bool \<Rightarrow> real option \<Rightarrow> (bool \<Rightarrow> ('s, 'a) py) \<Rightarrow>
   's \<Rightarrow> ((pyexn + 'a) waiting) \<times> 's" where
  "tp_slot get upd blocking timeout body s =
     (case tp_acquire blocking timeout (get s) of
        (Inl e, p) \<Rightarrow> (Got (Inl e), upd (\<lambda>_. p) s)
      | (Inr Blocked, p) \<Rightarrow> (Blocked, upd (\<lambda>_. p) s)
      | (Inr (Got acquired), p) \<Rightarrow>
          (case py_finally (body acquired)
              (if acquired then py_modify (upd tp_release) else py_ret ()) (upd (\<lambda>_. p) s) of
             (r, s') \<Rightarrow> (Got r, s')))"

lemmas tp_defs [component_defs] = tp_arrive_def tp_take_def tp_settle_def tp_leave_def tp_signal_def tp_release_def

section \<open>Threads\<close>

text \<open>
  Threads by where they are: waiting for a permit, holding a permit but not yet counted, active,
  counted out but not yet signalled.
\<close>

record pool_sys =
  p_pool :: task_pool
  p_waiting :: nat
  p_entering :: nat
  p_holding :: nat
  p_leaving :: nat

inductive pool_step :: "pool_sys \<Rightarrow> pool_sys \<Rightarrow> bool" where
  arrive: "pool_step s (s\<lparr>p_pool := tp_arrive (p_pool s), p_waiting := p_waiting s + 1\<rparr>)"
| take: "p_waiting s = Suc n \<Longrightarrow> 0 < tp_sem (p_pool s) \<Longrightarrow>
    pool_step s (s\<lparr>p_pool := tp_take (p_pool s), p_waiting := n, p_entering := p_entering s + 1\<rparr>)"
| give_up: "p_waiting s = Suc n \<Longrightarrow> pool_step s (s\<lparr>p_pool := tp_settle False (p_pool s), p_waiting := n\<rparr>)"
| enter: "p_entering s = Suc n \<Longrightarrow>
    pool_step s (s\<lparr>p_pool := tp_settle True (p_pool s), p_entering := n, p_holding := p_holding s + 1\<rparr>)"
| leave: "p_holding s = Suc n \<Longrightarrow>
    pool_step s (s\<lparr>p_pool := tp_leave (p_pool s), p_holding := n, p_leaving := p_leaving s + 1\<rparr>)"
| signal: "p_leaving s = Suc n \<Longrightarrow> pool_step s (s\<lparr>p_pool := tp_signal (p_pool s), p_leaving := n\<rparr>)"

inductive_cases pool_stepE: "pool_step s s'"

definition pool_sys_init :: "task_pool \<Rightarrow> pool_sys" where
  "pool_sys_init p = \<lparr>p_pool = p, p_waiting = 0, p_entering = 0, p_holding = 0, p_leaving = 0\<rparr>"

definition pool_inv :: "int \<Rightarrow> pool_sys \<Rightarrow> bool" where
  "pool_inv n s \<longleftrightarrow> tp_max (p_pool s) = n \<and> 0 \<le> tp_sem (p_pool s) \<and>
     tp_sem (p_pool s) + int (p_entering s) + int (p_holding s) + int (p_leaving s) = n \<and>
     tp_active (p_pool s) = int (p_holding s) \<and> tp_queued (p_pool s) = int (p_waiting s) + int (p_entering s)"

lemma pool_step_inv: "pool_step s s' \<Longrightarrow> pool_inv n s \<Longrightarrow> pool_inv n s'"
  by (erule pool_stepE) (auto simp: pool_inv_def component_defs Let_def)

lemma pool_new_inv: "task_pool_new n = Inr p \<Longrightarrow> pool_inv n (pool_sys_init p)"
  by (auto simp: task_pool_new_def pool_sys_init_def pool_inv_def split: if_splits)



section \<open>Acquire and release\<close>

lemma acquire_release:
  assumes "tp_acquire blocking timeout p = (Inr (Got acquired), p')"
  shows "acquired \<longleftrightarrow> 0 < tp_sem p"
    and "acquired \<Longrightarrow> tp_release p' = p\<lparr>tp_total := tp_total p + 1\<rparr>"
    and "\<not> acquired \<Longrightarrow> p' = p"
  using assms by (auto simp: tp_acquire_def component_defs Let_def split: if_splits)

text \<open>
  A refused acquisition leaks a queued count. \<open>acquire(blocking=False, timeout=t)\<close> raises
  \<open>ValueError\<close> after counting the caller as queued and never counts it out again; every other
  non-waiting acquisition leaves \<open>queued\<close> as it was.
\<close>

theorem acquire_queued:
  "case tp_acquire blocking timeout p of
     (Inl e, p') \<Rightarrow> \<not> blocking \<and> timeout \<noteq> None \<and> tp_queued p' = tp_queued p + 1
   | (Inr (Got acquired), p') \<Rightarrow> tp_queued p' = tp_queued p \<and> acquired = (0 < tp_sem p) \<and>
       tp_active p' = tp_active p + (if acquired then 1 else 0)
   | (Inr Blocked, p') \<Rightarrow> blocking \<and> timeout = None \<and> tp_sem p \<le> 0 \<and> tp_queued p' = tp_queued p + 1"
  by (auto simp: tp_acquire_def component_defs Let_def)

end
