(* ===== verification/Meters.thy ===== *)
theory Meters
  imports Observers
begin

text \<open>
  The measuring half of \<open>src/eventforge/observers.py\<close>: \<open>Meter\<close> (an aggregator that listens to task
  lifecycle channels and emits measurements), the concrete meters, and \<open>Reporter\<close> with its
  class-level subscriptions.

  Meters and task contexts are objects of the program state, reached by address; an event carries the
  addresses its subscribers are called with. The clocks and counters the concrete meters read
  (\<open>perf_counter\<close>, \<open>tracemalloc\<close>, \<open>getrusage\<close>) are parameters, and so is \<open>measure\<close>, which subclasses
  override.
\<close>

section \<open>The context of a plain call\<close>

text \<open>
  \<open>ExecutionContext\<close>, the other member of the union \<open>Context\<close> (tasks pass a \<open>TaskContext\<close>). Its execution time is zero until
  the end is recorded; that of a \<open>TaskContext\<close> is then the negated start time.
\<close>

record execution_context =
  ec_func_name :: string
  ec_args :: "pyval list"
  ec_kwargs :: kwargs
  ec_start_time :: real
  ec_end_time :: real
  ec_result :: pyval
  ec_error :: "pyexn option"
  ec_metadata :: kwargs

definition ec_execution_time :: "execution_context \<Rightarrow> real" where
  "ec_execution_time c = (if ec_end_time c \<noteq> 0 then ec_end_time c - ec_start_time c else 0)"

definition ec_is_success :: "execution_context \<Rightarrow> bool" where
  "ec_is_success c = (ec_error c = None)"

lemma execution_time_running:
  assumes "ec_end_time c = 0 \<or> ec_start_time c \<le> ec_end_time c" "tc_end_time d = 0" "0 < tc_start_time d"
  shows "0 \<le> ec_execution_time c \<and> tc_execution_time d < 0"
  using assms by (auto simp: ec_execution_time_def tc_execution_time_def)

section \<open>Aggregation\<close>

record meter =
  me_name :: string
  me_reduction :: string
  me_last :: real
  me_sum :: real
  me_count :: int
  me_max :: real
  me_min :: real
  me_measurement :: nat
  me_update_event :: nat
  me_reset_event :: nat

definition reduce_mean :: "meter \<Rightarrow> real" where
  "reduce_mean m = (if me_count m \<noteq> 0 then me_sum m / real_of_int (me_count m) else 0)"

definition reduce_sum :: "meter \<Rightarrow> real" where
  "reduce_sum m = me_sum m"

definition reduce_max :: "meter \<Rightarrow> real" where
  "reduce_max m = (if me_count m \<noteq> 0 then me_max m else 0)"

definition reduce_min :: "meter \<Rightarrow> real" where
  "reduce_min m = (if me_count m \<noteq> 0 then me_min m else 0)"

definition reduce_last :: "meter \<Rightarrow> real" where
  "reduce_last m = me_last m"

definition reduce_count :: "meter \<Rightarrow> real" where
  "reduce_count m = real_of_int (me_count m)"

definition REDUCTIONS :: "(string, meter \<Rightarrow> real) dict" where
  "REDUCTIONS = [(''mean'', reduce_mean), (''sum'', reduce_sum), (''max'', reduce_max),
     (''min'', reduce_min), (''last'', reduce_last), (''count'', reduce_count)]"

text \<open>The locked parts of \<open>reset\<close> and \<open>update\<close>.\<close>

definition meter_clear :: "meter \<Rightarrow> meter" where
  "meter_clear m = m\<lparr>me_last := 0, me_sum := 0, me_count := 0, me_max := 0, me_min := 0\<rparr>"

definition meter_add :: "real \<Rightarrow> int \<Rightarrow> meter \<Rightarrow> meter" where
  "meter_add val n m =
     (let m1 = (if me_count m = 0 then m\<lparr>me_max := val, me_min := val\<rparr>
                else m\<lparr>me_max := max (me_max m) val, me_min := min (me_min m) val\<rparr>)
      in m1\<lparr>me_last := val, me_sum := me_sum m1 + val * real_of_int n, me_count := me_count m1 + n\<rparr>)"

text \<open>\<open>REDUCTIONS[self._reduction](self)\<close>; the constructor admits the six names only.\<close>

definition meter_value :: "meter \<Rightarrow> real" where
  "meter_value m = (case dict_get REDUCTIONS (me_reduction m) of Some f \<Rightarrow> f m | None \<Rightarrow> 0)"

definition meter_stats :: "meter \<Rightarrow> (string, real) dict" where
  "meter_stats m = [(''value'', meter_value m), (''count'', real_of_int (me_count m))]"

section \<open>Events and operations\<close>

datatype meter_event = MReset nat | MUpdate nat real int | MMeasurement nat "real option" nat

record ('h, 's) meter_ctx =
  k_env :: "('h, meter_event, 's) env"
  k_meter :: "'s \<Rightarrow> nat \<Rightarrow> meter"
  k_upd_meter :: "nat \<Rightarrow> (meter \<Rightarrow> meter) \<Rightarrow> 's \<Rightarrow> 's"
  k_ctx :: "'s \<Rightarrow> nat \<Rightarrow> task_context"
  k_upd_ctx :: "nat \<Rightarrow> (task_context \<Rightarrow> task_context) \<Rightarrow> 's \<Rightarrow> 's"

definition unknown_reduction :: "string \<Rightarrow> pyexn" where
  "unknown_reduction r = Exception ''ValueError'' (''unknown reduction '' @ py_repr r @
     ''; choose from ['' @ concat (map (\<lambda>n. py_repr n @ '', '') [''count'', ''last'', ''max'', ''mean'', ''min'']) @ py_repr ''sum'' @ '']'')"

definition meter_reset :: "('h, 's) meter_ctx \<Rightarrow> nat \<Rightarrow> ('s, unit) py" where
  "meter_reset k self =
     py_seq (py_modify (k_upd_meter k self meter_clear))
       (py_bind (py_gets (\<lambda>s. me_reset_event (k_meter k s self))) (\<lambda>ch. ev_fire (k_env k) ch (MReset self)))"

text \<open>\<open>Meter.__init__\<close> on a new object at address \<open>self\<close>, its channels at \<open>ch\<close>, \<open>ch + 1\<close>, \<open>ch + 2\<close>.\<close>

definition meter_init ::
  "('h, 's) meter_ctx \<Rightarrow> nat \<Rightarrow> nat \<Rightarrow> string list \<Rightarrow> string \<Rightarrow> string option \<Rightarrow> string \<Rightarrow> dispatcher option \<Rightarrow> ('s, unit) py" where
  "meter_init k self ch mro class_name name reduction dsp =
     (if dict_get REDUCTIONS reduction = None then py_raise (unknown_reduction reduction)
      else
        py_seq (py_modify (k_upd_meter k self (\<lambda>m. m\<lparr>me_reduction := reduction,
            me_name := (case name of Some n \<Rightarrow> n | None \<Rightarrow> class_name),
            me_measurement := ch, me_update_event := ch + 1, me_reset_event := ch + 2\<rparr>)))
        (py_seq (upd_eventful (k_env k) ch (\<lambda>_. eventful_new dsp (Some mro) (Some ''measurement'')))
        (py_seq (upd_eventful (k_env k) (ch + 1) (\<lambda>_. eventful_new dsp (Some mro) (Some ''update_event'')))
        (py_seq (upd_eventful (k_env k) (ch + 2) (\<lambda>_. eventful_new dsp (Some mro) (Some ''reset_event'')))
          (meter_reset k self)))))"

definition meter_update :: "('h, 's) meter_ctx \<Rightarrow> nat \<Rightarrow> real \<Rightarrow> int \<Rightarrow> ('s, unit) py" where
  "meter_update k self val n =
     py_seq (py_modify (k_upd_meter k self (meter_add val n)))
       (py_bind (py_gets (\<lambda>s. me_update_event (k_meter k s self))) (\<lambda>ch. ev_fire (k_env k) ch (MUpdate self val n)))"

definition set_metadata :: "('h, 's) meter_ctx \<Rightarrow> nat \<Rightarrow> string \<Rightarrow> pyval \<Rightarrow> ('s, unit) py" where
  "set_metadata k ctx key v = py_modify (k_upd_ctx k ctx (\<lambda>c. c\<lparr>tc_metadata := dict_set key v (tc_metadata c)\<rparr>))"

definition py_opt_float :: "real option \<Rightarrow> pyval" where
  "py_opt_float v = (case v of None \<Rightarrow> PNone | Some x \<Rightarrow> PFloat x)"

text \<open>\<open>Meter.measure\<close>: the default, overridden by the concrete meters.\<close>

definition meter_measure :: "nat \<Rightarrow> nat \<Rightarrow> ('s, real option) py" where
  "meter_measure self ctx = py_ret None"

text \<open>The hooks a plain meter leaves empty.\<close>

definition meter_on_start :: "nat \<Rightarrow> nat \<Rightarrow> ('s, unit) py" where
  "meter_on_start self ctx = py_ret ()"

definition meter_on_failure :: "nat \<Rightarrow> nat \<Rightarrow> ('s, unit) py" where
  "meter_on_failure self ctx = py_ret ()"

definition meter_on_complete :: "nat \<Rightarrow> nat \<Rightarrow> ('s, unit) py" where
  "meter_on_complete self ctx = py_ret ()"

definition meter_on_success ::
  "('h, 's) meter_ctx \<Rightarrow> (nat \<Rightarrow> nat \<Rightarrow> ('s, real option) py) \<Rightarrow> nat \<Rightarrow> nat \<Rightarrow> ('s, unit) py" where
  "meter_on_success k measure_fn self ctx =
     py_bind (measure_fn self ctx) (\<lambda>val.
     py_seq (case val of None \<Rightarrow> py_ret () | Some v \<Rightarrow> meter_update k self v 1)
     (py_bind (py_gets (\<lambda>s. k_meter k s self)) (\<lambda>m.
     py_seq (set_metadata k ctx (me_name m) (py_opt_float val))
       (ev_fire (k_env k) (me_measurement m) (MMeasurement self val ctx)))))"

section \<open>Attaching to a source\<close>

text \<open>
  \<open>_meter_event_names\<close>: the callable \<open>on_\<close> attributes of the class, in the order of \<open>dir\<close>; the
  class is its attributes with a mark for the callable ones. The cache does not change the result.
\<close>

definition starts_on :: "string \<Rightarrow> bool" where
  "starts_on a = (take 3 a = ''on_'')"

definition meter_event_names :: "(string, bool) dict \<Rightarrow> string list" where
  "meter_event_names cls = filter (\<lambda>a. starts_on a \<and> dict_get cls a = Some True) (sort (map fst cls))"

definition meter_attach ::
  "('h, 'a, 's) env \<Rightarrow> (string, bool) dict \<Rightarrow> (string \<Rightarrow> 'h) \<Rightarrow> attrs \<Rightarrow> ('s, unit) py" where
  "meter_attach env cls bound source =
     py_for (\<lambda>attr. case dict_get source (drop 3 attr) of
         Some (AEventful channel) \<Rightarrow> py_void (ev_subscribe env channel (bound attr))
       | _ \<Rightarrow> py_ret ()) (meter_event_names cls)"

section \<open>Reporters\<close>

text \<open>
  A reporter class is its attributes with the targets \<open>@observe\<close> put on each; \<open>Reporter.__init__\<close>
  registers the bound methods.
\<close>

type_synonym observe_targets = "(string \<times> string) list"

definition observe_mark :: "string \<Rightarrow> string \<Rightarrow> observe_targets \<Rightarrow> observe_targets" where
  "observe_mark target_cls event existing = existing @ [(target_cls, event)]"

definition reporter_observe_methods :: "(string, observe_targets) dict \<Rightarrow> (string \<times> observe_targets) list" where
  "reporter_observe_methods cls =
     filter (\<lambda>(_, targets). targets \<noteq> []) (map (\<lambda>a. (a, dict_get_default cls a [])) (sort (map fst cls)))"

definition reporter_init ::
  "('h, 'a, 's) env \<Rightarrow> (string, observe_targets) dict \<Rightarrow> (string \<Rightarrow> 'h) \<Rightarrow> ('s, unit) py" where
  "reporter_init env cls bound =
     py_for (\<lambda>(attr, targets). py_for (\<lambda>(target_cls, event). register_class_subscriber env target_cls event (bound attr)) targets)
       (reporter_observe_methods cls)"

section \<open>Concrete meters\<close>

definition start_key :: "string \<Rightarrow> string" where
  "start_key name = name @ ''_start''"

text \<open>A number read back from the metadata; arithmetic on anything else raises.\<close>

definition meta_num :: "pyval \<Rightarrow> pyexn + real" where
  "meta_num v = (case v of PFloat x \<Rightarrow> Inr x | PInt i \<Rightarrow> Inr (real_of_int i) | PBool b \<Rightarrow> Inr (if b then 1 else 0)
     | _ \<Rightarrow> Inl (Exception ''TypeError'' ''unsupported operand type(s)''))"

definition read_start :: "('h, 's) meter_ctx \<Rightarrow> nat \<Rightarrow> nat \<Rightarrow> (task_context \<Rightarrow> real) \<Rightarrow> ('s, real) py" where
  "read_start k self ctx dflt = (\<lambda>s.
     let c = k_ctx k s ctx in
     (meta_num (dict_get_default (tc_metadata c) (start_key (me_name (k_meter k s self))) (PFloat (dflt c))), s))"

definition timing_on_start :: "('h, 's) meter_ctx \<Rightarrow> ('s, real) py \<Rightarrow> nat \<Rightarrow> nat \<Rightarrow> ('s, unit) py" where
  "timing_on_start k perf_counter self ctx =
     py_bind perf_counter (\<lambda>t. py_bind (py_gets (\<lambda>s. me_name (k_meter k s self))) (\<lambda>name.
       set_metadata k ctx (start_key name) (PFloat t)))"

definition timing_measure ::
  "('h, 's) meter_ctx \<Rightarrow> ('s, real) py \<Rightarrow> real option \<Rightarrow> nat \<Rightarrow> nat \<Rightarrow> ('s, real option) py" where
  "timing_measure k perf_counter threshold self ctx =
     py_bind (py_gets (\<lambda>s. dict_get_default (tc_metadata (k_ctx k s ctx)) (start_key (me_name (k_meter k s self)))
         (PFloat (tc_start_time (k_ctx k s ctx))))) (\<lambda>start.
     py_bind perf_counter (\<lambda>t.
     (case meta_num start of
        Inl e \<Rightarrow> py_raise e
      | Inr t0 \<Rightarrow>
          py_bind (py_gets (\<lambda>s. me_name (k_meter k s self))) (\<lambda>name.
          py_seq (case threshold of
              Some th \<Rightarrow> if th \<noteq> 0 \<and> t - t0 > th then set_metadata k ctx (name @ ''_exceeded'') (PBool True) else py_ret ()
            | None \<Rightarrow> py_ret ())
            (py_ret (Some (t - t0)))))))"

text \<open>\<open>tracemalloc\<close>: current and peak traced memory, once tracing is on.\<close>

definition memory_on_start ::
  "('h, 's) meter_ctx \<Rightarrow> ('s, unit) py \<Rightarrow> ('s, int \<times> int) py \<Rightarrow> nat \<Rightarrow> nat \<Rightarrow> ('s, unit) py" where
  "memory_on_start k ensure_tracing traced self ctx =
     py_seq ensure_tracing (py_bind traced (\<lambda>(current, _).
       py_bind (py_gets (\<lambda>s. me_name (k_meter k s self))) (\<lambda>name.
         set_metadata k ctx (start_key name) (PInt current))))"

definition memory_measure :: "('h, 's) meter_ctx \<Rightarrow> ('s, int \<times> int) py \<Rightarrow> nat \<Rightarrow> nat \<Rightarrow> ('s, real option) py" where
  "memory_measure k traced self ctx =
     py_bind traced (\<lambda>(current, peak).
     py_bind (py_gets (\<lambda>s. dict_get_default (tc_metadata (k_ctx k s ctx)) (start_key (me_name (k_meter k s self))) (PInt 0))) (\<lambda>start.
     py_bind (py_gets (\<lambda>s. me_name (k_meter k s self))) (\<lambda>name.
     py_seq (set_metadata k ctx (name @ ''_peak'') (PInt peak))
       (case meta_num start of Inl e \<Rightarrow> py_raise e | Inr c0 \<Rightarrow> py_ret (Some (real_of_int current - c0))))))"

text \<open>\<open>getrusage\<close>: user and system time.\<close>

definition cpu_on_start :: "('h, 's) meter_ctx \<Rightarrow> ('s, real \<times> real) py \<Rightarrow> nat \<Rightarrow> nat \<Rightarrow> ('s, unit) py" where
  "cpu_on_start k rusage self ctx =
     py_bind rusage (\<lambda>(ut, st). py_bind (py_gets (\<lambda>s. me_name (k_meter k s self))) (\<lambda>name.
       set_metadata k ctx (start_key name) (PFloat (ut + st))))"

definition cpu_measure :: "('h, 's) meter_ctx \<Rightarrow> ('s, real \<times> real) py \<Rightarrow> nat \<Rightarrow> nat \<Rightarrow> ('s, real option) py" where
  "cpu_measure k rusage self ctx =
     py_bind rusage (\<lambda>(ut, st). py_bind (read_start k self ctx (\<lambda>_. 0)) (\<lambda>start. py_ret (Some (ut + st - start))))"

definition metrics_measure :: "(nat \<Rightarrow> ('s, real option) py) \<Rightarrow> nat \<Rightarrow> nat \<Rightarrow> ('s, real option) py" where
  "metrics_measure extract self ctx = py_except (extract ctx) (\<lambda>_. py_ret None)"

section \<open>What the aggregator computes\<close>

definition meter_adds :: "(real \<times> int) list \<Rightarrow> meter \<Rightarrow> meter" where
  "meter_adds us m = fold (\<lambda>(v, n). meter_add v n) us m"

definition weighted :: "(real \<times> int) list \<Rightarrow> real" where
  "weighted us = sum_list (map (\<lambda>(v, n). v * real_of_int n) us)"

definition weight :: "(real \<times> int) list \<Rightarrow> int" where
  "weight us = sum_list (map snd us)"

lemma weight_pos: "list_all (\<lambda>u. 0 < snd u) us \<Longrightarrow> us \<noteq> [] \<Longrightarrow> 0 < weight us"
proof (induction us)
  case (Cons u us)
  then show ?case by (cases us) (auto simp: weight_def)
qed simp

lemma meter_adds_snoc: "meter_adds (us @ [(v, n)]) m = meter_add v n (meter_adds us m)"
  by (simp add: meter_adds_def)

text \<open>The fields after a sequence of observations on a cleared meter.\<close>

lemma meter_adds_fields:
  assumes "us \<noteq> []" "list_all (\<lambda>u. 0 < snd u) us"
  shows "me_last (meter_adds us (meter_clear m)) = fst (last us) \<and>
    me_sum (meter_adds us (meter_clear m)) = weighted us \<and> me_count (meter_adds us (meter_clear m)) = weight us \<and>
    me_max (meter_adds us (meter_clear m)) = Max (fst ` set us) \<and>
    me_min (meter_adds us (meter_clear m)) = Min (fst ` set us) \<and>
    me_reduction (meter_adds us (meter_clear m)) = me_reduction m"
  using assms
proof (induction us rule: rev_induct)
  case (snoc u us)
  obtain v n where u: "u = (v, n)" by fastforce
  show ?case
  proof (cases "us = []")
    case True
    with u show ?thesis
      by (simp add: meter_adds_def meter_add_def meter_clear_def weighted_def weight_def)
  next
    case False
    with snoc have IH: "me_last (meter_adds us (meter_clear m)) = fst (last us)"
      "me_sum (meter_adds us (meter_clear m)) = weighted us" "me_count (meter_adds us (meter_clear m)) = weight us"
      "me_max (meter_adds us (meter_clear m)) = Max (fst ` set us)" "me_min (meter_adds us (meter_clear m)) = Min (fst ` set us)"
      "me_reduction (meter_adds us (meter_clear m)) = me_reduction m" by auto
    have "weight us \<noteq> 0" using weight_pos[OF _ False] snoc.prems(2) by fastforce
    moreover have "Max (insert v (fst ` set us)) = max (Max (fst ` set us)) v" "Min (insert v (fst ` set us)) = min (Min (fst ` set us)) v"
      using False by (simp_all add: max.commute min.commute)
    ultimately show ?thesis
      unfolding u meter_adds_snoc meter_add_def using IH by (simp add: Let_def weighted_def weight_def)
  qed
qed simp

text \<open>The reference meaning of each reduction name.\<close>

definition reduction_spec :: "string \<Rightarrow> (real \<times> int) list \<Rightarrow> real" where
  "reduction_spec r us =
     (if r = ''mean'' then weighted us / real_of_int (weight us)
      else if r = ''sum'' then weighted us
      else if r = ''max'' then Max (fst ` set us)
      else if r = ''min'' then Min (fst ` set us)
      else if r = ''last'' then fst (last us)
      else real_of_int (weight us))"

lemma meter_value_spec:
  assumes "us \<noteq> []" and "list_all (\<lambda>u. 0 < snd u) us" and "dict_get REDUCTIONS (me_reduction m) \<noteq> None"
  shows "meter_value (meter_adds us (meter_clear m)) = reduction_spec (me_reduction m) us"
proof -
  have "weight us \<noteq> 0" using weight_pos[OF assms(2,1)] by simp
  with meter_adds_fields[OF assms(1,2), of m] assms(3) show ?thesis
    by (auto simp: meter_value_def REDUCTIONS_def reduction_spec_def reduce_mean_def reduce_sum_def reduce_max_def
        reduce_min_def reduce_last_def reduce_count_def split: if_splits)
qed

text \<open>
  A meter's value is its reduction of the observations. After \<open>reset\<close> and any non-empty sequence of
  updates with positive weights, \<open>value\<close> is the weighted mean, the weighted sum, the largest, the
  smallest or the last observation, or the total weight, as the reduction's name says.
\<close>

theorem meter_value_is_reduction:
  assumes "us \<noteq> []" and "list_all (\<lambda>u. 0 < snd u) us" and "dict_get REDUCTIONS (me_reduction m) \<noteq> None"
  shows "meter_value (meter_adds us (meter_clear m)) = reduction_spec (me_reduction m) us"
  by (rule meter_value_spec[OF assms])

definition demo_meter :: meter where
  "demo_meter = \<lparr>me_name = ''timing'', me_reduction = ''mean'', me_last = 0, me_sum = 0, me_count = 0, me_max = 0,
     me_min = 0, me_measurement = 0, me_update_event = 1, me_reset_event = 2\<rparr>"

theorem meter_value_is_reduction_witness:
  "meter_value (meter_adds [(2, 1), (4, 3)] (meter_clear demo_meter)) = 14 / 4"
  using meter_value_is_reduction[of "[(2, 1), (4, 3)]" demo_meter]
  by (simp add: demo_meter_def REDUCTIONS_def reduction_spec_def weighted_def weight_def)

text \<open>
  Concurrent updates may come in any order. Two orders of the same updates (each one critical
  section) give the same value under every reduction but \<open>last\<close>.
\<close>

theorem meter_updates_any_order:
  assumes "mset us = mset vs" and "list_all (\<lambda>u. 0 < snd u) us" and "us \<noteq> []"
    and "dict_get REDUCTIONS (me_reduction m) \<noteq> None" and "me_reduction m \<noteq> ''last''"
  shows "meter_value (meter_adds us (meter_clear m)) = meter_value (meter_adds vs (meter_clear m))"
proof -
  have set: "set vs = set us" using assms(1) by (metis set_mset_mset)
  have "weighted us = weighted vs" "weight us = weight vs"
    unfolding weighted_def weight_def sum_mset_sum_list[symmetric] mset_map assms(1) by simp_all
  moreover have "vs \<noteq> []" "list_all (\<lambda>u. 0 < snd u) vs" using assms(1-3) set by (auto simp: list_all_iff)
  ultimately have "reduction_spec (me_reduction m) us = reduction_spec (me_reduction m) vs"
    using assms(5) set by (simp add: reduction_spec_def)
  then show ?thesis
    using meter_value_spec[OF assms(3,2,4)] meter_value_spec[OF \<open>vs \<noteq> []\<close> \<open>list_all _ vs\<close> assms(4)] by simp
qed

theorem meter_updates_any_order_witness:
  "meter_value (meter_adds [(2, 1), (4, 3)] (meter_clear demo_meter)) =
   meter_value (meter_adds [(4, 3), (2, 1)] (meter_clear demo_meter))"
  using meter_updates_any_order[of "[(2, 1), (4, 3)]" "[(4, 3), (2, 1)]" demo_meter]
  by (simp add: demo_meter_def REDUCTIONS_def)

section \<open>Attaching and reporting\<close>

text \<open>
  The handlers attaching adds to a channel: the bound \<open>on_\<close> methods whose event is a channel of the
  source at that address.
\<close>

definition attached :: "(string, bool) dict \<Rightarrow> (string \<Rightarrow> 'h) \<Rightarrow> attrs \<Rightarrow> nat \<Rightarrow> 'h list" where
  "attached cls bound source ch =
     map bound (filter (\<lambda>a. dict_get source (drop 3 a) = Some (AEventful ch)) (meter_event_names cls))"

context object_store begin

lemma attach_loop:
  "\<exists>s'. py_for (\<lambda>attr. case dict_get source (drop 3 attr) of
         Some (AEventful channel) \<Rightarrow> py_void (ev_subscribe env channel (bound attr))
       | _ \<Rightarrow> py_ret ()) names s = (Inr (), s') \<and>
     (\<forall>ch. ev_subscribers (o_eventfuls (obj env s') ch) = ev_subscribers (o_eventfuls (obj env s) ch) @
        map bound (filter (\<lambda>a. dict_get source (drop 3 a) = Some (AEventful ch)) names))"
proof (induction names arbitrary: s)
  case (Cons a names)
  show ?case
  proof (cases "\<exists>c. dict_get source (drop 3 a) = Some (AEventful c)")
    case True
    then obtain c where c: "dict_get source (drop 3 a) = Some (AEventful c)" by blast
    let ?s1 = "snd (ev_subscribe env c (bound a) s)"
    have "py_void (ev_subscribe env c (bound a)) s = (Inr (), ?s1)"
      by (simp add: ev_subscribe_def py_simps upd_eventful_def)
    with Cons[of ?s1] c show ?thesis by (auto simp: ev_subscribe_subs)
  next
    case False
    then have "(case dict_get source (drop 3 a) of Some (AEventful channel) \<Rightarrow> py_void (ev_subscribe env channel (bound a))
       | _ \<Rightarrow> py_ret ()) s = (Inr (), s)"
      by (auto simp: py_simps split: option.split attr.split)
    with Cons[of s] False show ?thesis by (auto split: option.split attr.split)
  qed
qed simp

end

text \<open>
  Attaching a meter. \<open>attach\<close> returns with, for every callable \<open>on_X\<close> of the meter's class whose
  \<open>X\<close> is a channel of the source, the bound method as a new last subscriber of that channel, and no
  other channel changed.
\<close>

theorem attach_subscribes:
  "\<exists>b'. meter_attach (base_env c sb ld) cls bound source (b, w) = (Inr (), b') \<and>
     (\<forall>ch. ev_subscribers (o_eventfuls (fst b') ch) =
        ev_subscribers (o_eventfuls b ch) @ attached cls bound source ch)"
  using base.attach_loop[where s = "(b, w)" and names = "meter_event_names cls" and source = source and bound = bound]
  unfolding meter_attach_def attached_def by simp

section \<open>Class-level subscribers\<close>

text \<open>Subscribers that write their name to a log, except those in \<open>bad\<close>, which raise.\<close>

definition log_call :: "'h set \<Rightarrow> 'h \<Rightarrow> 'a \<Rightarrow> ('h objects \<times> 'h list, pyval) py" where
  "log_call bad h a = (\<lambda>(b, w). if h \<in> bad then (Inl (Exception ''RuntimeError'' ''bad''), (b, w)) else (Inr PNone, (b, w @ [h])))"

lemma log_invoke:
  "o_nodes b = (\<lambda>_. None) \<Longrightarrow> invoke (base_env (log_call bad) sb ld) h a (b, w) = log_call bad h a (b, w)"
  by (simp add: invoke_def)

lemma log_broadcast:
  assumes "o_nodes b = (\<lambda>_. None)" "set hs \<inter> bad = {}"
  shows "broadcast_dispatch (base_env (log_call bad) sb ld) hs a (b, w) = (Inr (), (b, w @ hs))"
  using assms(2)
  by (induction hs arbitrary: w) (simp_all add: broadcast_dispatch_def py_simps log_invoke[OF assms(1)] log_call_def)

lemma log_suppressed:
  assumes "o_nodes b = (\<lambda>_. None)"
  shows "py_for (\<lambda>fn. py_suppress (py_void (invoke (base_env (log_call bad) sb ld) fn a))) hs (b, w) =
    (Inr (), (b, w @ filter (\<lambda>h. h \<notin> bad) hs))"
  by (induction hs arbitrary: w) (simp_all add: py_simps log_invoke[OF assms] log_call_def)

lemma log_classes:
  assumes "o_nodes b = (\<lambda>_. None)"
  shows "py_for (fire_class (base_env (log_call bad) sb ld) nm a) mro (b, w) =
    (Inr (), (b, w @ filter (\<lambda>h. h \<notin> bad)
       (concat (map (\<lambda>k. if k = ''object'' then [] else class_subs (o_class_subscribers b) k nm) mro))))"
  by (induction mro arbitrary: w)
    (simp_all add: fire_class_def py_simps(1,3,4,5) py_bind_apply log_suppressed[OF assms] py_ret_def py_gets_def)

lemma class_subs_register:
  "class_subs (o_class_subscribers (fst (snd (register_class_subscriber (base_env c sb ld) cls event fn (b, w))))) k nm =
     class_subs (o_class_subscribers b) k nm @ (if k = cls \<and> nm = event then [fn] else [])"
  by (simp add: register_class_subscriber_def py_simps class_subs_def Let_def)

lemma register_frame:
  "\<exists>b'. register_class_subscriber (base_env c sb ld) cls event fn (b, w) = (Inr (), (b', w)) \<and>
     o_nodes b' = o_nodes b \<and> o_eventfuls b' = o_eventfuls b"
  by (simp add: register_class_subscriber_def py_simps)

text \<open>
  Class-level subscribers hear every instance. Once a reporter method is registered for an event of a
  class, firing that event on any object runs the object's own subscribers first and then, class by
  class along the method resolution order (\<open>object\<close> left out), the registered methods in registration
  order, the new one among them exactly when its class is in the order. A class-level subscriber
  that raises neither stops the others nor reaches the caller.
\<close>

theorem class_subscriber_hears_instances:
  assumes "o_nodes b = (\<lambda>_. None)" and "o_eventfuls b ch = \<lparr>ev_subscribers = hs, ev_dispatcher = Broadcast,
      ev_owner_mro = Some mro, ev_name = Some nm\<rparr>" and "set hs \<inter> bad = {}"
  shows "case register_class_subscriber (base_env (log_call bad) sb ld) cls nm fn (b, w) of (_, s) \<Rightarrow>
    \<exists>b'. ev_fire (base_env (log_call bad) sb ld) ch a s =
      (Inr (), (b', w @ hs @ filter (\<lambda>h. h \<notin> bad) (concat (map (\<lambda>k. if k = ''object'' then []
         else class_subs (o_class_subscribers b) k nm @ (if k = cls then [fn] else [])) mro))))"
proof -
  obtain b' where reg: "register_class_subscriber (base_env (log_call bad) sb ld) cls nm fn (b, w) = (Inr (), (b', w))"
    "o_nodes b' = o_nodes b" "o_eventfuls b' = o_eventfuls b"
    using register_frame[of "log_call bad" sb ld cls nm fn b w] by blast
  have subs: "class_subs (o_class_subscribers b') k nm = class_subs (o_class_subscribers b) k nm @ (if k = cls then [fn] else [])" for k
    using class_subs_register[of "log_call bad" sb ld cls nm fn b w k nm] reg(1) by simp
  have "ev_fire (base_env (log_call bad) sb ld) ch a (b', w) =
      py_for (fire_class (base_env (log_call bad) sb ld) nm a) mro (b', w @ hs)"
    using assms reg(2,3) by (simp add: ev_fire_def py_simps dispatch_def log_broadcast)
  also have "\<dots> = (Inr (), (b', (w @ hs) @ filter (\<lambda>h. h \<notin> bad) (concat (map (\<lambda>k. if k = ''object'' then []
         else class_subs (o_class_subscribers b) k nm @ (if k = cls then [fn] else [])) mro))))"
    using assms(1) reg(2) by (simp add: log_classes subs cong: if_cong)
  finally show ?thesis by (simp add: reg(1))
qed

definition demo_reported :: "nat objects" where
  "demo_reported = \<lparr>o_nodes = (\<lambda>_. None), o_eventfuls = (\<lambda>_. \<lparr>ev_subscribers = [1, 2], ev_dispatcher = Broadcast,
       ev_owner_mro = Some [''TimingMeter'', ''Meter'', ''object''], ev_name = Some ''measurement''\<rparr>), o_rr_idx = (\<lambda>_. 0),
     o_class_subscribers = [(''TimingMeter'', [(''measurement'', [4, 5])])]\<rparr>"

definition demo_log_env :: "(nat, unit, nat objects \<times> nat list) env" where
  "demo_log_env = base_env (log_call {4}) (\<lambda>_ _. py_ret ()) (\<lambda>_. py_ret 0)"

theorem class_subscriber_hears_instances_witness:
  "\<exists>b'. ev_fire demo_log_env 0 () (snd (register_class_subscriber demo_log_env ''Meter'' ''measurement'' 7 (demo_reported, []))) =
     (Inr (), (b', [1, 2, 5, 7]))"
proof -
  obtain r s where reg: "register_class_subscriber demo_log_env ''Meter'' ''measurement'' 7 (demo_reported, []) = (r, s)" by (metis surj_pair)
  have "o_nodes demo_reported = (\<lambda>_. None)" "o_eventfuls demo_reported 0 = \<lparr>ev_subscribers = [1, 2], ev_dispatcher = Broadcast,
      ev_owner_mro = Some [''TimingMeter'', ''Meter'', ''object''], ev_name = Some ''measurement''\<rparr>" "set [1, 2] \<inter> {4 :: nat} = {}"
    by (simp_all add: demo_reported_def)
  from class_subscriber_hears_instances[OF this, where sb = "\<lambda>_ _. py_ret ()" and ld = "\<lambda>_. py_ret 0" and cls = "''Meter''"
      and fn = 7 and w = "[]" and a = "()"] reg
  show ?thesis by (simp add: demo_log_env_def class_subs_def demo_reported_def dict_get_default_def)
qed

end
