(* ===== verification/Task_Runner.thy ===== *)
theory Task_Runner
  imports Executor Task_Pool Meters
begin

text \<open>
  \<open>TaskRunner\<close> and the \<open>@task\<close> decorator of \<open>src/eventforge/task.py\<close>. A runner is its configuration
  (function, topic, executor, queue, channels, pool) together with the ways into the program state. The
  task context is an object of the state, reached by address: subscribers get the address and may change
  the context, as in Python.
\<close>

section \<open>State of a runner\<close>

record ('h, 'f, 's) runner =
  rn_env :: "('h, nat, 's) env"
  rn_ctx :: "'s \<Rightarrow> nat \<Rightarrow> task_context"
  rn_upd_ctx :: "nat \<Rightarrow> (task_context \<Rightarrow> task_context) \<Rightarrow> 's \<Rightarrow> 's"
  rn_new_ctx :: "task_context \<Rightarrow> ('s, nat) py"
  rn_start :: nat
  rn_success :: nat
  rn_failure :: nat
  rn_complete :: nat
  rn_func :: 'f
  rn_func_name :: string
  rn_topic :: string
  rn_exec :: "('f, 's) ex_ctx"
  rn_queue :: "(string \<Rightarrow> pyval \<Rightarrow> ('s, string) py) option"
  rn_publish_result :: bool
  rn_has_pool :: bool
  rn_pool :: "'s \<Rightarrow> task_pool"
  rn_upd_pool :: "(task_pool \<Rightarrow> task_pool) \<Rightarrow> 's \<Rightarrow> 's"
  rn_max_instances :: int
  rn_instance_timeout :: "real option"

section \<open>Running the body\<close>

text \<open>
  In a pool mode the caller waits for the worker: the worker runs the call and the done callback
  stores the result, which \<open>result\<close> then finds. (Whether the callback comes before \<open>result\<close> looks or
  after makes no difference to what it returns.) A wait that cannot end is a \<open>BaseException\<close> here; it
  does not arise, since the future is done by then.
\<close>

definition pool_callback :: "('f, 's) ex_ctx \<Rightarrow> string \<Rightarrow> ('s, unit) py" where
  "pool_callback x task_id = py_modify (x_upd x (\<lambda>e.
     case dict_get (ex_futures e) task_id of Some (FDone outcome) \<Rightarrow> snd (on_complete task_id outcome e) | _ \<Rightarrow> e))"

definition await_result :: "('f, 's) ex_ctx \<Rightarrow> string \<Rightarrow> ('s, task_result) py" where
  "await_result x task_id = (\<lambda>s. case executor_result task_id None (x_get x s) of
       Inl e \<Rightarrow> (Inl e, s)
     | Inr (Got r) \<Rightarrow> (Inr r, s)
     | Inr Blocked \<Rightarrow> (Inl (BaseException ''Blocked'' []), s))"

definition run_in_pool :: "('f, 's) ex_ctx \<Rightarrow> 'f \<Rightarrow> pyval list \<Rightarrow> kwargs \<Rightarrow> ('s, pyval) py" where
  "run_in_pool x func args kw =
     py_bind (executor_submit x func args kw) (\<lambda>task_id.
     py_seq (worker_run x task_id)
     (py_seq (pool_callback x task_id)
     (py_bind (await_result x task_id) (\<lambda>r. py_ret (tr_value r)))))"

definition run_body :: "('h, 'f, 's) runner \<Rightarrow> pyval list \<Rightarrow> kwargs \<Rightarrow> ('s, pyval) py" where
  "run_body R args kw =
     py_bind (py_gets (\<lambda>s. ex_mode (x_get (rn_exec R) s))) (\<lambda>mode.
       if mode = SEQUENTIAL then x_call (rn_exec R) (rn_func R) args kw
       else run_in_pool (rn_exec R) (rn_func R) args kw)"

section \<open>The lifecycle\<close>

text \<open>\<open>try: m except Exception as e: h(e) else: k(value)\<close>: exceptions of \<open>h\<close> and \<open>k\<close> are not caught.\<close>

definition py_try_else :: "('s, 'a) py \<Rightarrow> (pyexn \<Rightarrow> ('s, 'b) py) \<Rightarrow> ('a \<Rightarrow> ('s, 'b) py) \<Rightarrow> ('s, 'b) py" where
  "py_try_else m h k = (\<lambda>s. case m s of
       (Inl e, s') \<Rightarrow> if is_Exc e then h e s' else (Inl e, s')
     | (Inr x, s') \<Rightarrow> k x s')"

definition publish_quietly :: "('h, 'f, 's) runner \<Rightarrow> string \<Rightarrow> pyval \<Rightarrow> ('s, unit) py" where
  "publish_quietly R suffix payload =
     (case rn_queue R of
        Some pub \<Rightarrow> if rn_publish_result R then py_suppress (py_void (pub (rn_topic R @ suffix) payload)) else py_ret ()
      | None \<Rightarrow> py_ret ())"

definition set_end_time :: "('h, 'f, 's) runner \<Rightarrow> nat \<Rightarrow> ('s, unit) py" where
  "set_end_time R ctx = py_bind (x_clock (rn_exec R)) (\<lambda>t. py_modify (rn_upd_ctx R ctx (\<lambda>c. c\<lparr>tc_end_time := t\<rparr>)))"

definition failure_payload :: "task_context \<Rightarrow> pyexn \<Rightarrow> pyval" where
  "failure_payload c e = PDict [(''task_id'', PStr (tc_task_id c)), (''error'', PStr (exn_str e)),
     (''error_type'', PStr (exn_type e)), (''execution_time'', PFloat (tc_execution_time c))]"

definition success_payload :: "task_context \<Rightarrow> pyval" where
  "success_payload c = PDict [(''task_id'', PStr (tc_task_id c)), (''result'', tc_result c),
     (''execution_time'', PFloat (tc_execution_time c))]"

definition on_failure_path :: "('h, 'f, 's) runner \<Rightarrow> nat \<Rightarrow> pyexn \<Rightarrow> ('s, pyval) py" where
  "on_failure_path R ctx e =
     py_seq (py_modify (rn_upd_ctx R ctx (\<lambda>c. c\<lparr>tc_error := Some e\<rparr>)))
     (py_seq (set_end_time R ctx)
     (py_seq (ev_fire (rn_env R) (rn_failure R) ctx)
     (py_seq (py_bind (py_gets (\<lambda>s. failure_payload (rn_ctx R s ctx) e)) (publish_quietly R ''.failure''))
       (py_raise e))))"

definition on_success_path :: "('h, 'f, 's) runner \<Rightarrow> nat \<Rightarrow> pyval \<Rightarrow> ('s, pyval) py" where
  "on_success_path R ctx value =
     py_seq (py_modify (rn_upd_ctx R ctx (\<lambda>c. c\<lparr>tc_result := value\<rparr>)))
     (py_seq (set_end_time R ctx)
     (py_seq (ev_fire (rn_env R) (rn_success R) ctx)
     (py_seq (py_bind (py_gets (\<lambda>s. success_payload (rn_ctx R s ctx))) (publish_quietly R ''.success''))
       (py_gets (\<lambda>s. tc_result (rn_ctx R s ctx))))))"

definition new_context :: "('h, 'f, 's) runner \<Rightarrow> pyval list \<Rightarrow> kwargs \<Rightarrow> ('s, nat) py" where
  "new_context R args kw =
     py_bind (x_uuid (rn_exec R)) (\<lambda>tid. py_bind (x_clock (rn_exec R)) (\<lambda>now.
     py_bind (py_gets (\<lambda>s. if rn_has_pool R then [(''pool_stats'', PDict (tp_stats (rn_pool R s)))] else [])) (\<lambda>meta.
       rn_new_ctx R \<lparr>tc_task_id = tid, tc_func_name = rn_func_name R, tc_topic = Some (rn_topic R), tc_args = args,
         tc_kwargs = kw, tc_start_time = now, tc_end_time = 0, tc_result = PNone, tc_error = None, tc_metadata = meta\<rparr>)))"

definition task_execute :: "('h, 'f, 's) runner \<Rightarrow> pyval list \<Rightarrow> kwargs \<Rightarrow> ('s, pyval) py" where
  "task_execute R args kw =
     py_bind (new_context R args kw) (\<lambda>ctx.
     py_seq (ev_fire (rn_env R) (rn_start R) ctx)
     (py_finally
       (py_try_else (run_body R args kw) (on_failure_path R ctx) (on_success_path R ctx))
       (ev_fire (rn_env R) (rn_complete R) ctx)))"

definition slot_timeout :: "int \<Rightarrow> pyexn" where
  "slot_timeout n = Exception ''TimeoutError''
     (''Timeout waiting for available slot in task pool (max_instances='' @ str_of_int n @ '')'')"

definition task_run :: "('h, 'f, 's) runner \<Rightarrow> pyval list \<Rightarrow> kwargs \<Rightarrow> 's \<Rightarrow> (pyexn + pyval) waiting \<times> 's" where
  "task_run R args kw s =
     (if \<not> rn_has_pool R then (case task_execute R args kw s of (r, s') \<Rightarrow> (Got r, s'))
      else case tp_acquire True (rn_instance_timeout R) (rn_pool R s) of
        (Inl e, p) \<Rightarrow> (Got (Inl e), rn_upd_pool R (\<lambda>_. p) s)
      | (Inr Blocked, p) \<Rightarrow> (Blocked, rn_upd_pool R (\<lambda>_. p) s)
      | (Inr (Got False), p) \<Rightarrow> (Got (Inl (slot_timeout (rn_max_instances R))), rn_upd_pool R (\<lambda>_. p) s)
      | (Inr (Got True), p) \<Rightarrow>
          (case py_finally (task_execute R args kw) (py_modify (rn_upd_pool R tp_release)) (rn_upd_pool R (\<lambda>_. p) s) of
             (r, s') \<Rightarrow> (Got r, s')))"

section \<open>The decorator\<close>

text \<open>
  \<open>@task(queue, topic, ...)\<close>: the topic falls back to the function's name; a message on it runs the
  task with its payload unpacked, a direct call with the call's arguments.
\<close>

definition resolve_topic :: "string option \<Rightarrow> string \<Rightarrow> string" where
  "resolve_topic topic func_name = (case topic of Some (c # cs) \<Rightarrow> c # cs | _ \<Rightarrow> func_name)"

definition queue_handler :: "('h, 'f, 's) runner \<Rightarrow> message \<Rightarrow> 's \<Rightarrow> (pyexn + pyval) waiting \<times> 's" where
  "queue_handler R message = (case task_args (m_payload message) of (args, kw) \<Rightarrow> task_run R args kw)"

definition task_wrapper :: "('h, 'f, 's) runner \<Rightarrow> pyval list \<Rightarrow> kwargs \<Rightarrow> 's \<Rightarrow> (pyexn + pyval) waiting \<times> 's" where
  "task_wrapper R = task_run R"

text \<open>
  The subscriptions \<open>TaskRunner.__init__\<close> makes: the observers' methods by naming convention, then the
  callbacks given as arguments.
\<close>

definition runner_channels :: "('h, 'f, 's) runner \<Rightarrow> attrs" where
  "runner_channels R = [(''complete'', AEventful (rn_complete R)), (''failure'', AEventful (rn_failure R)),
     (''start'', AEventful (rn_start R)), (''success'', AEventful (rn_success R))]"

definition subscribe_opt :: "('h, 'a, 's) env \<Rightarrow> nat \<Rightarrow> 'h option \<Rightarrow> ('s, unit) py" where
  "subscribe_opt env ch fn = (case fn of None \<Rightarrow> py_ret () | Some h \<Rightarrow> py_void (ev_subscribe env ch h))"

definition runner_init ::
  "('h, 'f, 's) runner \<Rightarrow> ((string, bool) dict \<times> (string \<Rightarrow> 'h)) list \<Rightarrow> 'h option \<Rightarrow> 'h option \<Rightarrow> 'h option \<Rightarrow> 'h option \<Rightarrow>
   ('s, unit) py" where
  "runner_init R observers cb_start cb_success cb_failure cb_complete =
     py_seq (py_for (\<lambda>ch. upd_eventful (rn_env R) ch (\<lambda>_. eventful_new None None None))
         [rn_start R, rn_success R, rn_failure R, rn_complete R])
     (py_seq (py_for (\<lambda>(cls, bound). meter_attach (rn_env R) cls bound (runner_channels R)) observers)
     (py_seq (subscribe_opt (rn_env R) (rn_start R) cb_start)
     (py_seq (subscribe_opt (rn_env R) (rn_success R) cb_success)
     (py_seq (subscribe_opt (rn_env R) (rn_failure R) cb_failure)
       (subscribe_opt (rn_env R) (rn_complete R) cb_complete)))))"

section \<open>A program with one runner\<close>

text \<open>
  The state of a program that has a runner: the objects, the contexts made so far, the executor, the pool,
  the identifier counter, and a log of what ran. Subscribers log themselves with the context they got;
  the function logs its call and then returns or raises as \<open>f\<close> says; the queue logs what is published.
\<close>

datatype 'h task_event = Handled 'h nat | Called "pyval list" kwargs | Published string pyval

record ('h, 'f) task_state =
  ts_objects :: "'h objects"
  ts_ctxs :: "task_context list"
  ts_exec :: "'f executor"
  ts_pool :: task_pool
  ts_drawn :: nat
  ts_log :: "'h task_event list"

definition ts_say :: "'h task_event \<Rightarrow> ('h, 'f) task_state \<Rightarrow> ('h, 'f) task_state" where
  "ts_say ev s = s\<lparr>ts_log := ts_log s @ [ev]\<rparr>"

definition ts_env :: "('h, nat, ('h, 'f) task_state) env" where
  "ts_env = \<lparr>call = (\<lambda>h ctx s. (Inr PNone, ts_say (Handled h ctx) s)), submit = (\<lambda>h ctx s. (Inr (), ts_say (Handled h ctx) s)),
     load_of = (\<lambda>h s. (Inr 0, s)), obj = ts_objects, upd_obj = (\<lambda>g s. s\<lparr>ts_objects := g (ts_objects s)\<rparr>)\<rparr>"

definition ts_exec_ctx :: "(nat \<Rightarrow> string) \<Rightarrow> (pyval list \<Rightarrow> kwargs \<Rightarrow> pyexn + pyval) \<Rightarrow> ('f, ('h, 'f) task_state) ex_ctx" where
  "ts_exec_ctx uuid4 f =
     \<lparr>x_get = ts_exec, x_upd = (\<lambda>g s. s\<lparr>ts_exec := g (ts_exec s)\<rparr>),
      x_uuid = (\<lambda>s. (Inr (uuid4 (ts_drawn s)), s\<lparr>ts_drawn := Suc (ts_drawn s)\<rparr>)), x_clock = py_ret 0,
      x_thread = (\<lambda>_. ''MainThread''), x_pid = (\<lambda>_. 1),
      x_call = (\<lambda>g args kw s. (f args kw, ts_say (Called args kw) s))\<rparr>"

definition ts_runner ::
  "(nat \<Rightarrow> string) \<Rightarrow> (pyval list \<Rightarrow> kwargs \<Rightarrow> pyexn + pyval) \<Rightarrow> 'f \<Rightarrow> string \<Rightarrow> bool \<Rightarrow> ('h, 'f, ('h, 'f) task_state) runner" where
  "ts_runner uuid4 f func topic has_pool =
     \<lparr>rn_env = ts_env, rn_ctx = (\<lambda>s i. ts_ctxs s ! i),
      rn_upd_ctx = (\<lambda>i g s. s\<lparr>ts_ctxs := (ts_ctxs s)[i := g (ts_ctxs s ! i)]\<rparr>),
      rn_new_ctx = (\<lambda>c s. (Inr (length (ts_ctxs s)), s\<lparr>ts_ctxs := ts_ctxs s @ [c]\<rparr>)),
      rn_start = 0, rn_success = 1, rn_failure = 2, rn_complete = 3, rn_func = func, rn_func_name = ''f'', rn_topic = topic,
      rn_exec = ts_exec_ctx uuid4 f,
      rn_queue = Some (\<lambda>t p s. (Inr [], ts_say (Published t p) s)), rn_publish_result = True,
      rn_has_pool = has_pool, rn_pool = ts_pool, rn_upd_pool = (\<lambda>g s. s\<lparr>ts_pool := g (ts_pool s)\<rparr>),
      rn_max_instances = 1, rn_instance_timeout = Some 1\<rparr>"

text \<open>A channel that broadcasts to given subscribers, no nodes among them.\<close>

definition ts_subs :: "('h, 'f) task_state \<Rightarrow> nat \<Rightarrow> 'h list" where
  "ts_subs s ch = ev_subscribers (o_eventfuls (ts_objects s) ch)"

definition ts_plain :: "('h, 'f) task_state \<Rightarrow> bool" where
  "ts_plain s \<longleftrightarrow> o_nodes (ts_objects s) = (\<lambda>_. None) \<and>
     (\<forall>ch < 4. ev_dispatcher (o_eventfuls (ts_objects s) ch) = Broadcast \<and> ev_owner_mro (o_eventfuls (ts_objects s) ch) = None)"

definition ts_fired :: "nat \<Rightarrow> nat \<Rightarrow> ('h, 'f) task_state \<Rightarrow> ('h, 'f) task_state" where
  "ts_fired ch ctx s = s\<lparr>ts_log := ts_log s @ map (\<lambda>h. Handled h ctx) (ts_subs s ch)\<rparr>"

lemma ts_fire:
  assumes "ts_plain s" "ch < 4"
  shows "ev_fire ts_env ch ctx s = (Inr (), ts_fired ch ctx s)"
proof -
  have inv: "invoke ts_env h ctx (s\<lparr>ts_log := l\<rparr>) = (Inr PNone, s\<lparr>ts_log := l @ [Handled h ctx]\<rparr>)" for h l
    using assms(1) by (simp add: invoke_def ts_env_def ts_plain_def ts_say_def)
  have "broadcast_dispatch ts_env hs ctx (s\<lparr>ts_log := l\<rparr>) = (Inr (), s\<lparr>ts_log := l @ map (\<lambda>h. Handled h ctx) hs\<rparr>)" for hs l
    by (induction hs arbitrary: l) (simp_all add: broadcast_dispatch_def py_simps inv)
  from this[of "ts_subs s ch" "ts_log s"] show ?thesis
    using assms by (simp add: ev_fire_def py_simps ts_plain_def dispatch_def ts_fired_def ts_subs_def ts_env_def)
qed

lemma ts_frame [simp]:
  "ts_plain (ts_fired ch ctx s) = ts_plain s" "ts_subs (ts_fired ch ctx s) = ts_subs s"
  "ts_plain (s\<lparr>ts_ctxs := cs\<rparr>) = ts_plain s" "ts_subs (s\<lparr>ts_ctxs := cs\<rparr>) = ts_subs s"
  "ts_plain (s\<lparr>ts_drawn := n\<rparr>) = ts_plain s" "ts_subs (s\<lparr>ts_drawn := n\<rparr>) = ts_subs s"
  "ts_plain (s\<lparr>ts_exec := x\<rparr>) = ts_plain s" "ts_subs (s\<lparr>ts_exec := x\<rparr>) = ts_subs s"
  "ts_plain (ts_say ev s) = ts_plain s" "ts_subs (ts_say ev s) = ts_subs s"
  "ts_ctxs (ts_fired ch ctx s) = ts_ctxs s" "ts_ctxs (ts_say ev s) = ts_ctxs s"
  "ts_log (ts_fired ch ctx s) = ts_log s @ map (\<lambda>h. Handled h ctx) (ts_subs s ch)" "ts_log (ts_say ev s) = ts_log s @ [ev]"
  "ts_exec (ts_fired ch ctx s) = ts_exec s" "ts_exec (ts_say ev s) = ts_exec s"
  by (auto simp: ts_plain_def ts_subs_def ts_fired_def ts_say_def)

lemma ts_runner_simps [simp]:
  "rn_env (ts_runner uuid4 f func topic b) = ts_env" "rn_start (ts_runner uuid4 f func topic b) = 0"
  "rn_success (ts_runner uuid4 f func topic b) = 1" "rn_failure (ts_runner uuid4 f func topic b) = 2"
  "rn_complete (ts_runner uuid4 f func topic b) = 3" "rn_func (ts_runner uuid4 f func topic b) = func"
  "rn_topic (ts_runner uuid4 f func topic b) = topic" "rn_exec (ts_runner uuid4 f func topic b) = ts_exec_ctx uuid4 f"
  "rn_has_pool (ts_runner uuid4 f func topic b) = b" "rn_publish_result (ts_runner uuid4 f func topic b) = True"
  "rn_queue (ts_runner uuid4 f func topic b) = Some (\<lambda>t p s. (Inr [], ts_say (Published t p) s))"
  "rn_ctx (ts_runner uuid4 f func topic b) = (\<lambda>s i. ts_ctxs s ! i)"
  "rn_upd_ctx (ts_runner uuid4 f func topic b) = (\<lambda>i g s. s\<lparr>ts_ctxs := (ts_ctxs s)[i := g (ts_ctxs s ! i)]\<rparr>)"
  "rn_new_ctx (ts_runner uuid4 f func topic b) = (\<lambda>c s. (Inr (length (ts_ctxs s)), s\<lparr>ts_ctxs := ts_ctxs s @ [c]\<rparr>))"
  "rn_func_name (ts_runner uuid4 f func topic b) = ''f''"
  by (simp_all add: ts_runner_def)

lemma ts_exec_ctx_simps [simp]:
  "x_get (ts_exec_ctx uuid4 f) = ts_exec" "x_clock (ts_exec_ctx uuid4 f) = py_ret 0"
  "x_upd (ts_exec_ctx uuid4 f) = (\<lambda>g s. s\<lparr>ts_exec := g (ts_exec s)\<rparr>)"
  "x_uuid (ts_exec_ctx uuid4 f) = (\<lambda>s. (Inr (uuid4 (ts_drawn s)), s\<lparr>ts_drawn := Suc (ts_drawn s)\<rparr>))"
  "x_call (ts_exec_ctx uuid4 f) = (\<lambda>g args kw s. (f args kw, ts_say (Called args kw) s))"
  "x_thread (ts_exec_ctx uuid4 f) = (\<lambda>_. ''MainThread'')" "x_pid (ts_exec_ctx uuid4 f) = (\<lambda>_. 1)"
  by (simp_all add: ts_exec_ctx_def)

text \<open>The events of a success and of a failure, after the body.\<close>

definition success_events :: "('h, 'f) task_state \<Rightarrow> string \<Rightarrow> string \<Rightarrow> nat \<Rightarrow> pyval \<Rightarrow> 'h task_event list" where
  "success_events s topic tid i v = map (\<lambda>h. Handled h i) (ts_subs s 1) @
     [Published (topic @ ''.success'') (PDict [(''task_id'', PStr tid), (''result'', v), (''execution_time'', PFloat 0)])]"

definition failure_events :: "('h, 'f) task_state \<Rightarrow> string \<Rightarrow> string \<Rightarrow> nat \<Rightarrow> pyexn \<Rightarrow> 'h task_event list" where
  "failure_events s topic tid i e = map (\<lambda>h. Handled h i) (ts_subs s 2) @
     [Published (topic @ ''.failure'') (PDict [(''task_id'', PStr tid), (''error'', PStr (exn_str e)),
        (''error_type'', PStr (exn_type e)), (''execution_time'', PFloat 0)])]"

lemma success_path:
  assumes "ts_plain s" "i < length (ts_ctxs s)" "tc_start_time (ts_ctxs s ! i) = 0"
  shows "\<exists>s'. on_success_path (ts_runner uuid4 f func topic b) i v s = (Inr v, s') \<and> ts_plain s' \<and> ts_subs s' = ts_subs s \<and>
    ts_log s' = ts_log s @ success_events s topic (tc_task_id (ts_ctxs s ! i)) i v \<and>
    ts_ctxs s' = (ts_ctxs s)[i := (ts_ctxs s ! i)\<lparr>tc_result := v, tc_end_time := 0\<rparr>]"
  using assms
  by (simp add: on_success_path_def py_simps set_end_time_def ts_fire publish_quietly_def success_payload_def
      success_events_def tc_execution_time_def)

lemma failure_path:
  assumes "ts_plain s" "i < length (ts_ctxs s)" "tc_start_time (ts_ctxs s ! i) = 0"
  shows "\<exists>s'. on_failure_path (ts_runner uuid4 f func topic b) i e s = (Inl e, s') \<and> ts_plain s' \<and> ts_subs s' = ts_subs s \<and>
    ts_log s' = ts_log s @ failure_events s topic (tc_task_id (ts_ctxs s ! i)) i e \<and>
    ts_ctxs s' = (ts_ctxs s)[i := (ts_ctxs s ! i)\<lparr>tc_error := Some e, tc_end_time := 0\<rparr>]"
  using assms
  by (simp add: on_failure_path_def py_simps set_end_time_def ts_fire publish_quietly_def failure_payload_def
      failure_events_def tc_execution_time_def)

text \<open>What follows the start of a task, for any outcome of the body.\<close>

lemma execute_after_body:
  assumes "ts_plain s" and body: "\<And>s0. ts_plain s0 \<Longrightarrow> ts_exec s0 = ts_exec s \<Longrightarrow> ts_drawn s0 = Suc (ts_drawn s) \<Longrightarrow>
      \<exists>s1. run_body (ts_runner uuid4 f func topic False) args kw s0 = (r, s1) \<and> ts_plain s1 \<and> ts_subs s1 = ts_subs s0 \<and>
        ts_ctxs s1 = ts_ctxs s0 \<and> ts_log s1 = ts_log s0 @ evs"
  defines "i \<equiv> length (ts_ctxs s)" and "tid \<equiv> uuid4 (ts_drawn s)"
  shows "\<exists>s'. task_execute (ts_runner uuid4 f func topic False) args kw s = (r, s') \<and>
    ts_log s' = ts_log s @ map (\<lambda>h. Handled h i) (ts_subs s 0) @ evs @
      (case r of Inr v \<Rightarrow> success_events s topic tid i v
       | Inl e \<Rightarrow> if is_Exc e then failure_events s topic tid i e else []) @ map (\<lambda>h. Handled h i) (ts_subs s 3) \<and>
    tc_error (ts_ctxs s' ! i) = (case r of Inr v \<Rightarrow> None | Inl e \<Rightarrow> if is_Exc e then Some e else None)"
proof -
  let ?R = "ts_runner uuid4 f func topic False :: ('a, 'b, ('a, 'b) task_state) runner"
  define c0 where "c0 = \<lparr>tc_task_id = tid, tc_func_name = ''f'', tc_topic = Some topic, tc_args = args, tc_kwargs = kw,
    tc_start_time = 0, tc_end_time = 0, tc_result = PNone, tc_error = None, tc_metadata = []\<rparr>"
  define s0 where "s0 = ts_fired 0 i (s\<lparr>ts_drawn := Suc (ts_drawn s), ts_ctxs := ts_ctxs s @ [c0]\<rparr>)"
  have start: "task_execute ?R args kw s =
      py_finally (py_try_else (run_body ?R args kw) (on_failure_path ?R i) (on_success_path ?R i)) (ev_fire ts_env 3 i) s0"
    using assms(1) by (simp add: task_execute_def new_context_def py_simps ts_fire s0_def c0_def i_def tid_def)
  have "ts_plain s0" "ts_exec s0 = ts_exec s" "ts_drawn s0 = Suc (ts_drawn s)"
    using assms(1) by (simp_all add: s0_def) (simp add: ts_fired_def)
  from body[OF this] obtain s1 where s1: "run_body ?R args kw s0 = (r, s1)" "ts_plain s1" "ts_subs s1 = ts_subs s0"
    "ts_ctxs s1 = ts_ctxs s0" "ts_log s1 = ts_log s0 @ evs" by blast
  have c: "i < length (ts_ctxs s1)" "ts_ctxs s1 ! i = c0" by (simp_all add: s1(4) s0_def i_def)
  have z: "tc_start_time (ts_ctxs s1 ! i) = 0" by (simp add: c(2) c0_def)
  have ev: "success_events s1 topic tid i v = success_events s topic tid i v"
    "failure_events s1 topic tid i e = failure_events s topic tid i e" for v e
    by (simp_all add: success_events_def failure_events_def s1(3) s0_def)
  have log0: "ts_log s1 = ts_log s @ map (\<lambda>h. Handled h i) (ts_subs s 0) @ evs" "ts_subs s1 = ts_subs s"
    by (simp_all add: s1(3,5) s0_def)
  show ?thesis
  proof (cases r)
    case (Inr v)
    with success_path[OF s1(2) c(1) z, of uuid4 f func topic False v] c ev log0 start s1(1) show ?thesis
      by (auto simp: py_finally_apply py_try_else_def ts_fire c0_def)
  next
    case (Inl e)
    with failure_path[OF s1(2) c(1) z, of uuid4 f func topic False e] c ev log0 start s1(1,2) show ?thesis
      by (auto simp: py_finally_apply py_try_else_def ts_fire c0_def)
  qed
qed

section \<open>Properties\<close>

text \<open>
  C11. The task lifecycle. With an in-process executor, running a task calls the \<open>start\<close> subscribers, then
  the function once with the given arguments, then the \<open>success\<close> subscribers and publishes
  \<open>{topic}.success\<close> if it returned, or the \<open>failure\<close> subscribers and \<open>{topic}.failure\<close> if it raised an
  \<open>Exception\<close> (neither for other exceptions), and last, in every case, the \<open>complete\<close> subscribers, all
  with the one new context; it returns or raises what the function did, and the context's error is set
  exactly when an \<open>Exception\<close> was raised.
\<close>

theorem task_lifecycle:
  assumes "ts_plain s" and "ex_mode (ts_exec s) = SEQUENTIAL"
  shows "\<exists>s'. task_execute (ts_runner uuid4 f func topic False) args kw s = (f args kw, s') \<and>
    ts_log s' = ts_log s @ map (\<lambda>h. Handled h (length (ts_ctxs s))) (ts_subs s 0) @ [Called args kw] @
      (case f args kw of
         Inr v \<Rightarrow> success_events s topic (uuid4 (ts_drawn s)) (length (ts_ctxs s)) v
       | Inl e \<Rightarrow> if is_Exc e then failure_events s topic (uuid4 (ts_drawn s)) (length (ts_ctxs s)) e else []) @
      map (\<lambda>h. Handled h (length (ts_ctxs s))) (ts_subs s 3) \<and>
    tc_error (ts_ctxs s' ! length (ts_ctxs s)) =
      (case f args kw of Inr v \<Rightarrow> None | Inl e \<Rightarrow> if is_Exc e then Some e else None)"
  using assms(2) by (intro execute_after_body assms(1)) (simp add: run_body_def py_simps)

definition demo_task_state :: "execution_mode \<Rightarrow> (nat, unit) task_state" where
  "demo_task_state mode = \<lparr>ts_objects = \<lparr>o_nodes = (\<lambda>_. None), o_eventfuls = (\<lambda>ch. \<lparr>ev_subscribers = [10 * ch], ev_dispatcher = Broadcast,
       ev_owner_mro = None, ev_name = None\<rparr>), o_rr_idx = (\<lambda>_. 0), o_class_subscribers = []\<rparr>, ts_ctxs = [],
     ts_exec = executor_init mode 4, ts_pool = \<lparr>tp_max = 1, tp_sem = 1, tp_active = 0, tp_total = 0, tp_queued = 0\<rparr>,
     ts_drawn = 0, ts_log = []\<rparr>"

lemma demo_task_plain: "ts_plain (demo_task_state mode)" "ex_mode (ts_exec (demo_task_state mode)) = mode"
  "ts_subs (demo_task_state mode) ch = [10 * ch]" "ts_log (demo_task_state mode) = []" "ts_ctxs (demo_task_state mode) = []"
  by (simp_all add: demo_task_state_def ts_plain_def executor_init_def ts_subs_def)

theorem task_lifecycle_witness:
  "\<exists>s'. task_execute (ts_runner demo_ids (\<lambda>_ _. Inl (Exception ''ValueError'' ''bad'')) () ''t'' False) [PInt 1] [] (demo_task_state SEQUENTIAL) =
      (Inl (Exception ''ValueError'' ''bad''), s') \<and> length (ts_log s') = 5"
proof -
  from task_lifecycle[OF demo_task_plain(1,2), of demo_ids "\<lambda>_ _. Inl (Exception ''ValueError'' ''bad'')" "()" "''t''" "[PInt 1]" "[]"]
  show ?thesis by (auto simp: demo_task_plain failure_events_def)
qed

text \<open>A body run by a pool worker: a failed task has no value.\<close>

lemma run_in_pool_outcome:
  assumes "ts_plain s0" "ex_mode (ts_exec s0) \<noteq> SEQUENTIAL" "\<And>e. f args (submit_kwargs kw) = Inl e \<Longrightarrow> is_Exc e"
  shows "\<exists>s1. run_body (ts_runner uuid4 f func topic b) args kw s0 =
      (Inr (case f args (submit_kwargs kw) of Inr v \<Rightarrow> v | Inl e \<Rightarrow> PNone), s1) \<and>
    ts_plain s1 \<and> ts_subs s1 = ts_subs s0 \<and> ts_ctxs s1 = ts_ctxs s0 \<and> ts_log s1 = ts_log s0 @ [Called args (submit_kwargs kw)]"
proof (cases "f args (submit_kwargs kw)")
  case (Inl e)
  with assms(3) have "is_Exc e" by blast
  with assms(1,2) Inl show ?thesis
    by (cases "ex_mode (ts_exec s0)")
      (simp_all add: run_body_def run_in_pool_def executor_submit_def submit_pool_def register_future_def worker_run_def execute_sync_def
        run_with_timing_def pool_callback_def await_result_def executor_result_def on_complete_def task_result_of_raw_def
        task_result_of_dict_def status_of_value_def opt_str_field_def dict_get_default_def failed_result_def py_simps Let_def
        executor_start_def)
next
  case (Inr v)
  with assms(1,2) show ?thesis
    by (cases "ex_mode (ts_exec s0)")
      (simp_all add: run_body_def run_in_pool_def executor_submit_def submit_pool_def register_future_def worker_run_def execute_sync_def
        run_with_timing_def pool_callback_def await_result_def executor_result_def on_complete_def task_result_of_raw_def
        task_result_of_dict_def status_of_value_def opt_str_field_def dict_get_default_def completed_result_def py_simps Let_def
        executor_start_def)
qed

text \<open>
  C37. A failure in a pool is reported as a success. With a thread or process executor, a task whose
  function raises an \<open>Exception\<close> returns \<open>None\<close>, calls the \<open>success\<close> subscribers, publishes
  \<open>{topic}.success\<close> with a \<open>None\<close> result and leaves the context without an error: \<open>_execute\<close> takes
  \<open>.value\<close> of the failed \<open>TaskResult\<close>. (The call also lacks keyword arguments named \<open>priority\<close> and
  \<open>timeout\<close>, which \<open>submit\<close> takes for its own.)
\<close>

theorem pool_failure_looks_like_success:
  assumes "ts_plain s" and "ex_mode (ts_exec s) \<noteq> SEQUENTIAL" and "f args (submit_kwargs kw) = Inl e" and "is_Exc e"
  shows "\<exists>s'. task_execute (ts_runner uuid4 f func topic False) args kw s = (Inr PNone, s') \<and>
    ts_log s' = ts_log s @ map (\<lambda>h. Handled h (length (ts_ctxs s))) (ts_subs s 0) @ [Called args (submit_kwargs kw)] @
      success_events s topic (uuid4 (ts_drawn s)) (length (ts_ctxs s)) PNone @
      map (\<lambda>h. Handled h (length (ts_ctxs s))) (ts_subs s 3) \<and>
    tc_error (ts_ctxs s' ! length (ts_ctxs s)) = None"
proof -
  have "\<exists>s1. run_body (ts_runner uuid4 f func topic False) args kw s0 = (Inr PNone, s1) \<and> ts_plain s1 \<and> ts_subs s1 = ts_subs s0 \<and>
        ts_ctxs s1 = ts_ctxs s0 \<and> ts_log s1 = ts_log s0 @ [Called args (submit_kwargs kw)]"
    if "ts_plain s0" "ts_exec s0 = ts_exec s" for s0
    using run_in_pool_outcome[OF that(1), where f = f and args = args and kw = kw] that(2) assms(2-4) by simp
  from execute_after_body[where f = f and args = args and kw = kw and r = "Inr PNone" and evs = "[Called args (submit_kwargs kw)]", OF assms(1) this]
  show ?thesis by simp
qed

theorem pool_failure_looks_like_success_witness:
  "\<exists>s'. task_execute (ts_runner demo_ids (\<lambda>_ _. Inl (Exception ''ValueError'' ''bad'')) () ''t'' False) [PInt 1] [] (demo_task_state THREAD) =
      (Inr PNone, s') \<and> tc_error (ts_ctxs s' ! 0) = None"
proof -
  have "ex_mode (ts_exec (demo_task_state THREAD)) \<noteq> SEQUENTIAL" by (simp add: demo_task_plain)
  from pool_failure_looks_like_success[OF demo_task_plain(1) this, of "\<lambda>_ _. Inl (Exception ''ValueError'' ''bad'')" "[PInt 1]" "[]"
      "Exception ''ValueError'' ''bad''" demo_ids "()" "''t''"]
  show ?thesis by (auto simp: demo_task_plain)
qed

section \<open>Pool slots\<close>

text \<open>
  The contract between a runner and the rest of the program: the pool is a part of the state that
  nothing a task runs touches (its calls, subscribers, queue, executor and contexts).
\<close>

locale pooled_runner =
  fixes R :: "('h, 'f, 's) runner"
  assumes pool_upd: "rn_pool R (rn_upd_pool R f s) = f (rn_pool R s)"
    and pool_call: "py_keeps (rn_pool R) (x_call (rn_exec R) func args kw)"
    and pool_clock: "py_keeps (rn_pool R) (x_clock (rn_exec R))" "py_keeps (rn_pool R) (x_uuid (rn_exec R))"
    and pool_exec: "rn_pool R (x_upd (rn_exec R) g s) = rn_pool R s"
    and pool_ctx: "rn_pool R (rn_upd_ctx R i k s) = rn_pool R s" "py_keeps (rn_pool R) (rn_new_ctx R c)"
    and pool_queue: "rn_queue R = Some pub \<Longrightarrow> py_keeps (rn_pool R) (pub t p)"
    and pool_fire: "py_keeps (rn_pool R) (ev_fire (rn_env R) ch ctx)"
begin

lemma keeps_capture:
  "py_keeps (rn_pool R) m \<Longrightarrow> py_keeps (rn_pool R) (\<lambda>s. case m s of (outcome, s') \<Rightarrow> (Inr (), x_upd (rn_exec R) (g outcome) s'))"
  by (auto simp: py_keeps_def pool_exec split: prod.split) (metis snd_conv)

lemma keeps_sync: "py_keeps (rn_pool R) (execute_sync (x_clock (rn_exec R)) tn tid (x_call (rn_exec R) func args kw))"
  unfolding execute_sync_def by (intro keeps pool_call pool_clock)

lemma keeps_timed: "py_keeps (rn_pool R) (run_with_timing (x_clock (rn_exec R)) pid tid (x_call (rn_exec R) func args kw))"
  unfolding run_with_timing_def by (intro keeps pool_call pool_clock)

lemma keeps_worker: "py_keeps (rn_pool R) (worker_run (rn_exec R) tid)"
  unfolding worker_run_def
  by (intro keeps) (auto intro!: keeps keeps_capture keeps_sync keeps_timed split: option.split future.split)

lemma keeps_body: "py_keeps (rn_pool R) (run_body R args kw)"
proof -
  have "py_keeps (rn_pool R) (await_result (rn_exec R) tid)" for tid
    by (auto simp: py_keeps_def await_result_def split: sum.split waiting.split)
  moreover have "py_keeps (rn_pool R) (executor_submit (rn_exec R) func args kw)" for func args kw
    unfolding executor_submit_def by (auto intro!: keeps keeps_sync pool_clock pool_exec)
  ultimately show ?thesis
    unfolding run_body_def run_in_pool_def pool_callback_def
    by (auto intro!: keeps pool_call pool_exec keeps_worker)
qed

lemma keeps_try_else:
  "py_keeps g m \<Longrightarrow> (\<And>e. py_keeps g (h e)) \<Longrightarrow> (\<And>x. py_keeps g (k x)) \<Longrightarrow> py_keeps g (py_try_else m h k)"
  by (auto simp: py_keeps_def py_try_else_def split: prod.split sum.split) (metis snd_conv)+

lemma keeps_publish: "py_keeps (rn_pool R) (publish_quietly R suffix p)"
  unfolding publish_quietly_def by (auto intro!: keeps pool_queue split: option.split)

lemma keeps_execute: "py_keeps (rn_pool R) (task_execute R args kw)"
  unfolding task_execute_def new_context_def on_failure_path_def on_success_path_def set_end_time_def
  by (intro keeps keeps_try_else keeps_body keeps_publish pool_fire pool_clock pool_ctx)

text \<open>One run of the task, seen from the pool.\<close>

lemma run_pool:
  assumes "rn_has_pool R" and "task_run R args kw s = (r, s')"
  shows "if 0 < tp_sem (rn_pool R s)
    then rn_pool R s' = (rn_pool R s)\<lparr>tp_total := tp_total (rn_pool R s) + 1\<rparr> \<and> (\<exists>x. r = Got x)
    else (case rn_instance_timeout R of
        Some _ \<Rightarrow> r = Got (Inl (slot_timeout (rn_max_instances R))) \<and> rn_pool R s' = rn_pool R s
      | None \<Rightarrow> r = Blocked)"
proof (cases "0 < tp_sem (rn_pool R s)")
  case True
  define p where "p = tp_settle True (tp_take (tp_arrive (rn_pool R s)))"
  have acq: "tp_acquire True (rn_instance_timeout R) (rn_pool R s) = (Inr (Got True), p)"
    using True by (simp add: tp_acquire_def Let_def p_def tp_arrive_def)
  obtain r1 s1 where ex: "task_execute R args kw (rn_upd_pool R (\<lambda>_. p) s) = (r1, s1)" by fastforce
  have "rn_pool R s1 = p" using py_keepsD[OF keeps_execute ex] by (simp add: pool_upd)
  with assms acq ex True acquire_release(2)[OF acq] show ?thesis
    by (auto simp: task_run_def py_finally_apply py_simps pool_upd)
next
  case False
  with assms show ?thesis
    by (auto simp: task_run_def tp_acquire_def Let_def component_defs pool_upd split: option.split)
qed

end

lemma ts_fire_keeps: "py_keeps ts_pool (ev_fire ts_env ch ctx)"
  by (rule keeps_fire) (simp_all add: ts_env_def py_keeps_def ts_say_def)

interpretation ts: pooled_runner "ts_runner uuid4 f func topic b" for uuid4 f func topic b
  by unfold_locales
    (auto simp: ts_runner_def ts_exec_ctx_def ts_fire_keeps, auto simp: py_keeps_def ts_say_def py_simps)

text \<open>
  A run gives its slot back. With a pool and an instance timeout, a run that finds a free slot leaves
  the pool as it found it but for one more processed task, whatever the function and the subscribers do,
  whether they return or raise; a run that finds none raises \<open>TimeoutError\<close> without starting the task and
  leaves the pool unchanged.
\<close>

theorem run_returns_slot:
  "case task_run (ts_runner uuid4 f func topic True) args kw s of (r, s') \<Rightarrow>
     (if 0 < tp_sem (ts_pool s)
      then ts_pool s' = (ts_pool s)\<lparr>tp_total := tp_total (ts_pool s) + 1\<rparr>
      else r = Got (Inl (slot_timeout 1)) \<and> ts_pool s' = ts_pool s)"
proof -
  obtain r s' where run: "task_run (ts_runner uuid4 f func topic True) args kw s = (r, s')" by fastforce
  from ts.run_pool[OF _ this] show ?thesis using run by (simp add: ts_runner_def split: if_splits)
qed

end
