(* ===== verification/Task_Queue.thy ===== *)
theory Task_Queue
  imports Task_Runner
begin

text \<open>
  The \<open>@task\<close> decorator of \<open>src/eventforge/task.py\<close> on a message queue: what decorating a function sets up, and
  what a message on the task's topic then does, through the queue (\<open>src/eventforge/queue.py\<close>), the in-memory
  transport, the runner and its channels, down to the result published on \<open>{topic}.success\<close> or
  \<open>{topic}.failure\<close>.
\<close>

section \<open>The decorator\<close>

text \<open>
  What \<open>@task(...)\<close> returns: the function to call, with the runner, its topic and its channels as attributes
  (executor, state and pool are the runner's).
\<close>

record ('h, 'f, 's) task_callable =
  tk_runner :: "('h, 'f, 's) runner"
  tk_task :: bool
  tk_topic :: string
  tk_start :: nat
  tk_success :: nat
  tk_failure :: nat
  tk_complete :: nat
  tk_call :: "pyval list \<Rightarrow> kwargs \<Rightarrow> 's \<Rightarrow> (pyexn + pyval) waiting \<times> 's"

text \<open>\<open>TaskPool(max_instances) if max_instances else None\<close>.\<close>

definition runner_pool :: "int option \<Rightarrow> pyexn + task_pool option" where
  "runner_pool max_instances = (case max_instances of
       None \<Rightarrow> Inr None
     | Some n \<Rightarrow> if n = 0 then Inr None else map_sum id Some (task_pool_new n))"

text \<open>
  The body of \<open>decorator\<close>, for a runner \<open>R\<close> with the resolved topic and executor: the runner is made, its
  queue handler is subscribed if there is a queue (\<open>on\<close> is the queue's \<open>on\<close> with that handler), and the
  wrapper gets its attributes. A bad \<open>max_instances\<close> raises after the callbacks are subscribed.
\<close>

definition task_decorator ::
  "('h, 'f, 's) runner \<Rightarrow> ((string, bool) dict \<times> (string \<Rightarrow> 'h)) list \<Rightarrow> 'h option \<Rightarrow> 'h option \<Rightarrow> 'h option \<Rightarrow> int option \<Rightarrow>
   (string \<Rightarrow> ('s, string) py) option \<Rightarrow> ('s, ('h, 'f, 's) task_callable) py" where
  "task_decorator R observers cb_success cb_failure cb_complete max_instances on =
     py_seq (runner_init R observers None cb_success cb_failure cb_complete)
     (case runner_pool max_instances of
        Inl e \<Rightarrow> py_raise e
      | Inr p \<Rightarrow>
          (let R' = R\<lparr>rn_has_pool := (p \<noteq> None)\<rparr> in
           py_seq (py_modify (case p of None \<Rightarrow> id | Some x \<Rightarrow> rn_upd_pool R (\<lambda>_. x)))
           (py_seq (case on of None \<Rightarrow> py_ret () | Some f \<Rightarrow> py_void (f (rn_topic R)))
             (py_ret \<lparr>tk_runner = R', tk_task = True, tk_topic = rn_topic R, tk_start = rn_start R, tk_success = rn_success R,
                tk_failure = rn_failure R, tk_complete = rn_complete R, tk_call = task_wrapper R'\<rparr>))))"

section \<open>A runner in a program with a queue\<close>

text \<open>
  The user part of the queue's state is the state of the runner (\<open>task_state\<close>): its objects, contexts, executor
  and log. The runner publishes through the queue.
\<close>

type_synonym ('h, 'g, 'f) tq_state = "('h, ('g, 'f) task_state) mem_state"

definition on_user :: "('w, 'a) py \<Rightarrow> ('t \<times> ('h, 'w) mq_rest, 'a) py" where
  "on_user m = (\<lambda>(t, r). case m (r_user r) of (x, w) \<Rightarrow> (x, (t, r\<lparr>r_user := w\<rparr>)))"

definition tq_env :: "('g, nat, ('h, 'g, 'f) tq_state) env" where
  "tq_env = \<lparr>call = (\<lambda>h ctx. on_user (call ts_env h ctx)), submit = (\<lambda>h ctx. on_user (submit ts_env h ctx)),
     load_of = (\<lambda>h. on_user (load_of ts_env h)), obj = (\<lambda>(t, r). ts_objects (r_user r)),
     upd_obj = (\<lambda>g. snd \<circ> on_user (py_modify (upd_obj ts_env g)))\<rparr>"

definition tq_exec :: "(nat \<Rightarrow> string) \<Rightarrow> (pyval list \<Rightarrow> kwargs \<Rightarrow> pyexn + pyval) \<Rightarrow> ('f, ('h, 'g, 'f) tq_state) ex_ctx" where
  "tq_exec uuid4 f = (let x = ts_exec_ctx uuid4 f in
     \<lparr>x_get = (\<lambda>(t, r). ts_exec (r_user r)), x_upd = (\<lambda>g. snd \<circ> on_user (py_modify (x_upd x g))), x_uuid = on_user (x_uuid x),
      x_clock = py_ret 0, x_thread = (\<lambda>_. ''MainThread''), x_pid = (\<lambda>_. 1), x_call = (\<lambda>g args kw. on_user (x_call x g args kw))\<rparr>)"

definition tq_runner ::
  "(nat \<Rightarrow> string) \<Rightarrow> (pyval list \<Rightarrow> kwargs \<Rightarrow> pyexn + pyval) \<Rightarrow> 'f \<Rightarrow> string \<Rightarrow>
   (string \<Rightarrow> pyval \<Rightarrow> (('h, 'g, 'f) tq_state, string) py) \<Rightarrow> ('g, 'f, ('h, 'g, 'f) tq_state) runner" where
  "tq_runner uuid4 f func topic pub =
     \<lparr>rn_env = tq_env, rn_ctx = (\<lambda>(t, r) i. ts_ctxs (r_user r) ! i),
      rn_upd_ctx = (\<lambda>i g (t, r). (t, r\<lparr>r_user := (r_user r)\<lparr>ts_ctxs := (ts_ctxs (r_user r))[i := g (ts_ctxs (r_user r) ! i)]\<rparr>\<rparr>)),
      rn_new_ctx = (\<lambda>c (t, r). (Inr (length (ts_ctxs (r_user r))), (t, r\<lparr>r_user := (r_user r)\<lparr>ts_ctxs := ts_ctxs (r_user r) @ [c]\<rparr>\<rparr>))),
      rn_start = 0, rn_success = 1, rn_failure = 2, rn_complete = 3, rn_func = func, rn_func_name = ''f'', rn_topic = topic,
      rn_exec = tq_exec uuid4 f, rn_queue = Some pub, rn_publish_result = True,
      rn_has_pool = False, rn_pool = (\<lambda>(t, r). ts_pool (r_user r)),
      rn_upd_pool = (\<lambda>g (t, r). (t, r\<lparr>r_user := (r_user r)\<lparr>ts_pool := g (ts_pool (r_user r))\<rparr>\<rparr>)),
      rn_max_instances = 1, rn_instance_timeout = None\<rparr>"

lemma on_user_apply [simp]: "on_user m (t, r) = (case m (r_user r) of (x, w) \<Rightarrow> (x, (t, r\<lparr>r_user := w\<rparr>)))"
  by (simp add: on_user_def)

lemma tq_simps [simp]:
  "rn_env (tq_runner uuid4 f func topic pub) = tq_env" "rn_start (tq_runner uuid4 f func topic pub) = 0"
  "rn_success (tq_runner uuid4 f func topic pub) = 1" "rn_failure (tq_runner uuid4 f func topic pub) = 2"
  "rn_complete (tq_runner uuid4 f func topic pub) = 3" "rn_topic (tq_runner uuid4 f func topic pub) = topic"
  "rn_exec (tq_runner uuid4 f func topic pub) = tq_exec uuid4 f" "rn_queue (tq_runner uuid4 f func topic pub) = Some pub"
  "rn_has_pool (tq_runner uuid4 f func topic pub) = False" "rn_publish_result (tq_runner uuid4 f func topic pub) = True"
  "rn_ctx (tq_runner uuid4 f func topic pub) (t, r) i = ts_ctxs (r_user r) ! i"
  "rn_upd_ctx (tq_runner uuid4 f func topic pub) i g (t, r) =
     (t, r\<lparr>r_user := (r_user r)\<lparr>ts_ctxs := (ts_ctxs (r_user r))[i := g (ts_ctxs (r_user r) ! i)]\<rparr>\<rparr>)"
  "rn_new_ctx (tq_runner uuid4 f func topic pub) c (t, r) =
     (Inr (length (ts_ctxs (r_user r))), (t, r\<lparr>r_user := (r_user r)\<lparr>ts_ctxs := ts_ctxs (r_user r) @ [c]\<rparr>\<rparr>))"
  "rn_func_name (tq_runner uuid4 f func topic pub) = ''f''" "rn_func (tq_runner uuid4 f func topic pub) = func"
  "x_clock (tq_exec uuid4 f) = py_ret 0" "x_get (tq_exec uuid4 f) (t, r) = ts_exec (r_user r)"
  "x_uuid (tq_exec uuid4 f) = on_user (x_uuid (ts_exec_ctx uuid4 f))"
  "x_call (tq_exec uuid4 f) fn args kw = on_user (x_call (ts_exec_ctx uuid4 f) fn args kw)"
  by (simp_all add: tq_runner_def tq_exec_def Let_def)

lemma tq_fire:
  assumes "ts_plain (r_user r)" "ch < 4"
  shows "ev_fire tq_env ch ctx (t, r) = (Inr (), (t, r\<lparr>r_user := ts_fired ch ctx (r_user r)\<rparr>))"
proof -
  let ?s = "r_user r"
  have inv: "invoke tq_env h ctx (t, r\<lparr>r_user := ?s\<lparr>ts_log := l\<rparr>\<rparr>) = (Inr PNone, (t, r\<lparr>r_user := ?s\<lparr>ts_log := l @ [Handled h ctx]\<rparr>\<rparr>))" for h l
    using assms(1) by (simp add: invoke_def tq_env_def ts_env_def ts_plain_def ts_say_def)
  have "broadcast_dispatch tq_env hs ctx (t, r\<lparr>r_user := ?s\<lparr>ts_log := l\<rparr>\<rparr>) =
      (Inr (), (t, r\<lparr>r_user := ?s\<lparr>ts_log := l @ map (\<lambda>h. Handled h ctx) hs\<rparr>\<rparr>))" for hs l
    by (induction hs arbitrary: l) (simp_all add: broadcast_dispatch_def py_simps inv)
  from this[of "ts_subs ?s ch" "ts_log ?s"] show ?thesis
    using assms by (simp add: ev_fire_def py_simps ts_plain_def dispatch_def ts_fired_def ts_subs_def tq_env_def)
qed

text \<open>Publishing on a topic without subscribers: the message is kept for \<open>receive\<close>.\<close>

lemma publish_unheard:
  assumes "\<not> mt_closed t" "mt_targets t x = []" "\<not> queue_full (mt_max_queue_size t) (mt_queue t x)"
  shows "\<exists>mid m r'. mq_publish (mem_ctx uuid4 clock (rest_env cl sb ld)) x p [] (t, r) =
      (Inr mid, (t\<lparr>mt_queues := dict_set x (mt_queue t x @ [m]) (mt_queues t)\<rparr>, r')) \<and>
    m_payload m = p \<and> m_topic m = x \<and> r_user r' = r_user r"
  using assms
  by (simp add: mq_publish_def mq_message_def mq_uuid_def py_simps send_unmatched mt_put_def Let_def) (rule exI, rule conjI, rule HOL.refl, simp)

text \<open>What the runner does to the program while a task runs, and the message it publishes.\<close>

definition outcome_suffix :: "pyexn + pyval \<Rightarrow> string" where
  "outcome_suffix out = (case out of Inr _ \<Rightarrow> ''.success'' | Inl _ \<Rightarrow> ''.failure'')"

definition outcome_payload :: "string \<Rightarrow> pyexn + pyval \<Rightarrow> pyval" where
  "outcome_payload tid out = (case out of
       Inr v \<Rightarrow> PDict [(''task_id'', PStr tid), (''result'', v), (''execution_time'', PFloat 0)]
     | Inl e \<Rightarrow> PDict [(''task_id'', PStr tid), (''error'', PStr (exn_str e)), (''error_type'', PStr (exn_type e)),
         (''execution_time'', PFloat 0)])"

definition run_events :: "('g, 'f) task_state \<Rightarrow> pyval list \<Rightarrow> kwargs \<Rightarrow> pyexn + pyval \<Rightarrow> 'g task_event list" where
  "run_events s args kw out = (let i = length (ts_ctxs s) in
     map (\<lambda>h. Handled h i) (ts_subs s 0) @ [Called args kw] @
     map (\<lambda>h. Handled h i) (ts_subs s (case out of Inr _ \<Rightarrow> 1 | Inl _ \<Rightarrow> 2)) @ map (\<lambda>h. Handled h i) (ts_subs s 3))"

lemma task_execute_publishes:
  fixes clock cl sb ld topic args kw f
  assumes "ts_plain (r_user r)" "ex_mode (ts_exec (r_user r)) = SEQUENTIAL" "\<not> mt_closed t" "\<And>e. f args kw = Inl e \<Longrightarrow> is_Exc e"
    and "mt_targets t (topic @ outcome_suffix (f args kw)) = []"
    and "\<not> queue_full (mt_max_queue_size t) (mt_queue t (topic @ outcome_suffix (f args kw)))"
  defines "x \<equiv> topic @ outcome_suffix (f args kw)"
  shows "\<exists>m r'. task_execute (tq_runner uuid4 f func topic (\<lambda>y p. mq_publish (mem_ctx uuid4' clock (rest_env cl sb ld)) y p [])) args kw (t, r) =
      (f args kw, (t\<lparr>mt_queues := dict_set x (mt_queue t x @ [m]) (mt_queues t)\<rparr>, r')) \<and>
    m_payload m = outcome_payload (uuid4 (ts_drawn (r_user r))) (f args kw) \<and>
    ts_log (r_user r') = ts_log (r_user r) @ run_events (r_user r) args kw (f args kw)"
proof -
  let ?pub = "\<lambda>y p. mq_publish (mem_ctx uuid4' clock (rest_env cl sb ld)) y p []"
  let ?R = "tq_runner uuid4 f func topic ?pub" and ?s = "r_user r"
  let ?i = "length (ts_ctxs ?s)" and ?tid = "uuid4 (ts_drawn ?s)"
  define c0 where "c0 = \<lparr>tc_task_id = ?tid, tc_func_name = ''f'', tc_topic = Some topic, tc_args = args, tc_kwargs = kw,
    tc_start_time = 0, tc_end_time = 0, tc_result = PNone, tc_error = None, tc_metadata = []\<rparr>"
  define s0 where "s0 = ts_say (Called args kw) (ts_fired 0 ?i (?s\<lparr>ts_drawn := Suc (ts_drawn ?s), ts_ctxs := ts_ctxs ?s @ [c0]\<rparr>))"
  have plain: "ts_plain s0" "ts_subs s0 = ts_subs ?s" "ts_ctxs s0 = ts_ctxs ?s @ [c0]"
    "ts_log s0 = ts_log ?s @ map (\<lambda>h. Handled h ?i) (ts_subs ?s 0) @ [Called args kw]"
    using assms(1) by (simp_all add: s0_def)
  have start: "task_execute ?R args kw (t, r) =
      py_finally (py_try_else (run_body ?R args kw) (on_failure_path ?R ?i) (on_success_path ?R ?i)) (ev_fire tq_env 3 ?i)
        (t, r\<lparr>r_user := ts_fired 0 ?i (?s\<lparr>ts_drawn := Suc (ts_drawn ?s), ts_ctxs := ts_ctxs ?s @ [c0]\<rparr>)\<rparr>)"
    using assms(1) by (simp add: task_execute_def new_context_def py_simps tq_fire c0_def)
  have body: "run_body ?R args kw (t, r\<lparr>r_user := ts_fired 0 ?i (?s\<lparr>ts_drawn := Suc (ts_drawn ?s), ts_ctxs := ts_ctxs ?s @ [c0]\<rparr>)\<rparr>) =
      (f args kw, (t, r\<lparr>r_user := s0\<rparr>))"
    using assms(2) by (simp add: run_body_def py_simps s0_def)
  note run = start[unfolded py_finally_apply py_try_else_def body]
  show ?thesis
  proof (cases "f args kw")
    case (Inr v)
    define s1 where "s1 = ts_fired 1 ?i (s0\<lparr>ts_ctxs := ts_ctxs ?s @ [c0\<lparr>tc_result := v, tc_end_time := 0\<rparr>]\<rparr>)"
    obtain mid m r1 where p: "?pub (topic @ ''.success'') (outcome_payload ?tid (Inr v)) (t, r\<lparr>r_user := s1\<rparr>) =
        (Inr mid, (t\<lparr>mt_queues := dict_set x (mt_queue t x @ [m]) (mt_queues t)\<rparr>, r1))"
      "m_payload m = outcome_payload ?tid (Inr v)" "r_user r1 = s1"
      using publish_unheard[OF assms(3), of x, where r = "r\<lparr>r_user := s1\<rparr>"] assms(5,6) Inr unfolding x_def outcome_suffix_def by fastforce
    have "on_success_path ?R ?i v (t, r\<lparr>r_user := s0\<rparr>) = (Inr v, (t\<lparr>mt_queues := dict_set x (mt_queue t x @ [m]) (mt_queues t)\<rparr>, r1))"
      using p plain(1,3)
      by (simp add: on_success_path_def py_simps set_end_time_def tq_fire publish_quietly_def success_payload_def tc_execution_time_def
          s1_def outcome_payload_def c0_def)
    then show ?thesis
      using run p(2,3) Inr plain assms(1)
      by (auto simp: tq_fire s1_def run_events_def Let_def)
  next
    case (Inl e)
    define s1 where "s1 = ts_fired 2 ?i (s0\<lparr>ts_ctxs := ts_ctxs ?s @ [c0\<lparr>tc_error := Some e, tc_end_time := 0\<rparr>]\<rparr>)"
    obtain mid m r1 where p: "?pub (topic @ ''.failure'') (outcome_payload ?tid (Inl e)) (t, r\<lparr>r_user := s1\<rparr>) =
        (Inr mid, (t\<lparr>mt_queues := dict_set x (mt_queue t x @ [m]) (mt_queues t)\<rparr>, r1))"
      "m_payload m = outcome_payload ?tid (Inl e)" "r_user r1 = s1"
      using publish_unheard[OF assms(3), of x, where r = "r\<lparr>r_user := s1\<rparr>"] assms(5,6) Inl unfolding x_def outcome_suffix_def by fastforce
    have "on_failure_path ?R ?i e (t, r\<lparr>r_user := s0\<rparr>) = (Inl e, (t\<lparr>mt_queues := dict_set x (mt_queue t x @ [m]) (mt_queues t)\<rparr>, r1))"
      using p plain(1,3)
      by (simp add: on_failure_path_def py_simps set_end_time_def tq_fire publish_quietly_def failure_payload_def tc_execution_time_def
          s1_def outcome_payload_def c0_def)
    then show ?thesis
      using run p(2,3) Inl plain assms(1,4)
      by (auto simp: tq_fire s1_def run_events_def Let_def)
  qed
qed

section \<open>From the decorator to the published result\<close>

definition the_handler :: "'h option \<Rightarrow> 'h list" where
  "the_handler cb = (case cb of None \<Rightarrow> [] | Some h \<Rightarrow> [h])"

lemma runner_init_tq:
  fixes R :: "('g, 'f, ('h, 'g, 'f) tq_state) runner"
  assumes "o_nodes (ts_objects (r_user r)) = (\<lambda>_. None)" "R = tq_runner uuid4 f func topic pub"
  shows "\<exists>s. runner_init R [] None cs cf cc (t, r) = (Inr (), (t, r\<lparr>r_user := s\<rparr>)) \<and> ts_plain s \<and>
    ts_subs s 0 = [] \<and> ts_subs s 1 = the_handler cs \<and> ts_subs s 2 = the_handler cf \<and> ts_subs s 3 = the_handler cc \<and>
    ts_log s = ts_log (r_user r) \<and> ts_ctxs s = ts_ctxs (r_user r) \<and> ts_exec s = ts_exec (r_user r) \<and> ts_drawn s = ts_drawn (r_user r)"
proof -
  let ?b = "ts_objects (r_user r)"
  let ?new = "\<lambda>hs. (eventful_new None None None)\<lparr>ev_subscribers := hs\<rparr> :: 'g eventful"
  define s where "s = (r_user r)\<lparr>ts_objects := ?b\<lparr>o_eventfuls := (o_eventfuls ?b)(0 := ?new [], 1 := ?new (the_handler cs),
    2 := ?new (the_handler cf), 3 := ?new (the_handler cc))\<rparr>\<rparr>"
  have "runner_init R [] None cs cf cc (t, r) = (Inr (), (t, r\<lparr>r_user := s\<rparr>))"
    by (cases cs; cases cf; cases cc)
      (simp_all add: assms(2) runner_init_def py_simps upd_eventful_def tq_env_def ts_env_def subscribe_opt_def ev_subscribe_def
        the_handler_def s_def eventful_new_def fun_upd_twist)
  moreover have "ts_plain s"
    using assms(1) by (auto simp: ts_plain_def s_def eventful_new_def less_Suc_eq numeral_eq_Suc)
  ultimately show ?thesis
    by (intro exI[of _ s]) (simp add: s_def ts_subs_def)
qed

lemma fire_only:
  assumes "plain_channel ch (r_objects r)" "o_nodes (r_objects r) = (\<lambda>_. None)" "ev_subscribers (o_eventfuls (r_objects r) ch) = [h]"
  shows "ev_fire (rest_env cl sb ld) ch m (t, r) = (case cl h m (t, r) of (Inl e, s) \<Rightarrow> (Inl e, s) | (Inr v, s) \<Rightarrow> (Inr (), s))"
  using assms
  by (simp add: ev_fire_def py_simps plain_channel_def dispatch_def broadcast_dispatch_def invoke_def split: prod.split sum.split)

text \<open>The handler the decorator gives to the queue, as a callback of the queue's channel.\<close>

definition handler_call :: "('g, 'f, 's) runner \<Rightarrow> message \<Rightarrow> ('s, pyval) py" where
  "handler_call R m = (\<lambda>s. case queue_handler R m s of
     (Got out, s') \<Rightarrow> (out, s') | (Blocked, s') \<Rightarrow> (Inl (BaseException ''Blocked'' []), s'))"

lemma decorated_state:
  fixes R :: "('g, 'f, ('h, 'g, 'f) tq_state) runner" and clock cl sb ld
  assumes "inj uuid4" "plain_prefix topic" "r_mq r = mq_init" "o_nodes (r_objects r) = (\<lambda>_. None)"
    "o_nodes (ts_objects (r_user r)) = (\<lambda>_. None)" "R = tq_runner ids f func topic pub" "c = mem_ctx uuid4 clock (rest_env cl sb ld)"
  shows "\<exists>tk t1 r1 s. task_decorator R [] cs cf cc None (Some (\<lambda>x. mq_on c x h)) (mt_init n, r) = (Inr tk, (t1, r1)) \<and> tk_topic tk = topic \<and>
    r_user r1 = s \<and> ts_plain s \<and> ts_subs s 0 = [] \<and> ts_subs s 1 = the_handler cs \<and> ts_subs s 2 = the_handler cf \<and> ts_subs s 3 = the_handler cc \<and>
    ts_log s = ts_log (r_user r) \<and> ts_ctxs s = ts_ctxs (r_user r) \<and> ts_exec s = ts_exec (r_user r) \<and> ts_drawn s = ts_drawn (r_user r) \<and>
    mq_wired uuid4 (t1, r1) \<and> mt_queues t1 = [] \<and> o_nodes (r_objects r1) = (\<lambda>_. None) \<and>
    fst ` set (mq_topics (r_mq r1)) = {topic} \<and> mq_subs c topic (t1, r1) = [h] \<and> list_all (\<lambda>(name, _). plain_prefix name) (mq_topics (r_mq r1))"
proof -
  obtain s where s: "runner_init R [] None cs cf cc (mt_init n, r) = (Inr (), (mt_init n, r\<lparr>r_user := s\<rparr>))" "ts_plain s"
    "ts_subs s 0 = []" "ts_subs s 1 = the_handler cs" "ts_subs s 2 = the_handler cf" "ts_subs s 3 = the_handler cc"
    "ts_log s = ts_log (r_user r)" "ts_ctxs s = ts_ctxs (r_user r)" "ts_exec s = ts_exec (r_user r)" "ts_drawn s = ts_drawn (r_user r)"
    using runner_init_tq[OF assms(5,6)] by blast
  have "mq_wired uuid4 (mt_init n, r\<lparr>r_user := s\<rparr>)" using assms(3) by (simp add: mq_wired_def mt_init_def mq_init_def)
  from subscribe_wired[OF assms(1) this, of clock cl sb ld topic h] obtain hid t1 r1 where
    sub: "mq_subscribe c topic h (mt_init n, r\<lparr>r_user := s\<rparr>) = (Inr hid, (t1, r1))" "mq_wired uuid4 (t1, r1)" "mt_queues t1 = []"
    "r_user r1 = s" "o_nodes (r_objects r1) = (\<lambda>_. None)" "fst ` set (mq_topics (r_mq r1)) = {topic}" "mq_subs c topic (t1, r1) = [h]"
    using assms(3,4) by (auto simp: mt_init_def mq_init_def mq_subs_def assms(7))
  obtain tk where dec: "task_decorator R [] cs cf cc None (Some (\<lambda>x. mq_on c x h)) (mt_init n, r) = (Inr tk, (t1, r1))" "tk_topic tk = topic"
    using s(1) sub(1) assms(6) by (simp add: task_decorator_def runner_pool_def py_simps mq_on_def Let_def)
  have "\<forall>x \<in> fst ` set (mq_topics (r_mq r1)). plain_prefix x" unfolding sub(6) using assms(2) by simp
  then have "list_all (\<lambda>(name, _). plain_prefix name) (mq_topics (r_mq r1))" by (auto simp: list_all_iff)
  with dec sub s show ?thesis by blast
qed

text \<open>A message to a topic with one handler, whatever \<open>Exception\<close> the handler raises.\<close>

lemma publish_to_only:
  fixes clock cl sb ld
  assumes "mq_wired uuid4 (t, r)" "list_all (\<lambda>(name, _). plain_prefix name) (mq_topics (r_mq r))" "o_nodes (r_objects r) = (\<lambda>_. None)"
    "mq_subs c topic (t, r) = [h]" "c = mem_ctx uuid4 clock (rest_env cl sb ld)"
    "msg = \<lparr>m_id = uuid4 (r_drawn r), m_topic = topic, m_payload = payload, m_headers = [], m_timestamp = clock (r_user r),
       m_reply_to = None, m_correlation_id = None\<rparr>"
    "cl h msg (t, r\<lparr>r_drawn := Suc (r_drawn r)\<rparr>) = (out, (t2, r2))" "\<And>e. out = Inl e \<Longrightarrow> is_Exc e" "mt_sub_topic t2 = mt_sub_topic t"
    "\<not> queue_full (mt_max_queue_size t2) (mt_queue t2 topic)"
  shows "mq_publish c topic payload [] (t, r) =
    (Inr (m_id msg), (t2\<lparr>mt_queues := dict_set topic (mt_queue t2 topic @ [msg]) (mt_queues t2)\<rparr>, r2))"
proof -
  let ?r = "r\<lparr>r_drawn := Suc (r_drawn r)\<rparr>"
  obtain ch where ch: "dict_get (mq_topics (r_mq r)) topic = Some ch" "ev_subscribers (o_eventfuls (r_objects r) ch) = [h]"
    using assms(4) by (auto simp: mq_subs_def assms(5) split: option.splits)
  have open_t: "\<not> mt_closed t" using assms(1) by (simp add: mq_wired_def)
  have "plain_channel ch (r_objects ?r)" using assms(1) ch(1) by (force simp: mq_wired_def plain_channel_def dest: map_of_SomeD)
  then have "py_suppress (ev_fire (rest_env cl sb ld) ch msg) (t, ?r) = (Inr (), (t2, r2))"
    using fire_only[of ch ?r h cl sb ld msg t] ch(2) assms(3,7,8) by (cases out) (simp_all add: py_simps)
  then have "mt_send (ev_fire (rest_env cl sb ld)) msg (t, ?r) = mt_put msg (t2, r2)"
    using open_t ch(1) assms(9) by (intro send_suppressed[where cb = ch]) (simp_all add: wired_targets[OF assms(1,2)] assms(6))
  then show ?thesis
    using assms(10) by (simp add: mq_publish_def mq_message_def mq_uuid_def py_simps assms(5,6) mt_put_def Let_def)
qed




end
