(* ===== verification/Reporting.thy ===== *)
theory Reporting
  imports Meters
begin

text \<open>
  The concrete meters' constructors and \<open>LoggingReporter\<close> of \<open>src/eventforge/observers.py\<close>, and the path of a
  measurement from a meter to the log: the reporter registers itself for the class \<open>Meter\<close>, a meter fires
  its \<open>measurement\<close> channel, the channel walks the classes of its owner. The log is the list of records
  given to \<open>logging\<close>; \<open>str\<close> and \<open>repr\<close> of values are parameters (they run user code).
\<close>

section \<open>The concrete meters\<close>

text \<open>The defaults of the constructors: name and reduction.\<close>

definition timing_init :: "('h, 's) meter_ctx \<Rightarrow> nat \<Rightarrow> nat \<Rightarrow> string list \<Rightarrow> string option \<Rightarrow> string option \<Rightarrow> ('s, unit) py" where
  "timing_init k self ch mro name reduction =
     meter_init k self ch mro ''timing'' (Some (case name of Some n \<Rightarrow> n | None \<Rightarrow> ''timing''))
       (case reduction of Some r \<Rightarrow> r | None \<Rightarrow> ''mean'') None"

definition memory_init :: "('h, 's) meter_ctx \<Rightarrow> nat \<Rightarrow> nat \<Rightarrow> string list \<Rightarrow> string option \<Rightarrow> string option \<Rightarrow> ('s, unit) py" where
  "memory_init k self ch mro name reduction =
     meter_init k self ch mro ''memory'' (Some (case name of Some n \<Rightarrow> n | None \<Rightarrow> ''memory''))
       (case reduction of Some r \<Rightarrow> r | None \<Rightarrow> ''max'') None"

definition cpu_init :: "('h, 's) meter_ctx \<Rightarrow> nat \<Rightarrow> nat \<Rightarrow> string list \<Rightarrow> string option \<Rightarrow> string option \<Rightarrow> ('s, unit) py" where
  "cpu_init k self ch mro name reduction =
     meter_init k self ch mro ''cpu'' (Some (case name of Some n \<Rightarrow> n | None \<Rightarrow> ''cpu''))
       (case reduction of Some r \<Rightarrow> r | None \<Rightarrow> ''mean'') None"

definition metrics_init :: "('h, 's) meter_ctx \<Rightarrow> nat \<Rightarrow> nat \<Rightarrow> string list \<Rightarrow> string \<Rightarrow> string option \<Rightarrow> ('s, unit) py" where
  "metrics_init k self ch mro name reduction =
     meter_init k self ch mro ''meter'' (Some name) (case reduction of Some r \<Rightarrow> r | None \<Rightarrow> ''mean'') None"

section \<open>The logging reporter\<close>

record logging_reporter =
  lr_level :: int
  lr_log_args :: bool
  lr_log_result :: bool
  lr_logger :: string

text \<open>The class as \<open>Reporter.__init__\<close> sees it: one method, marked by \<open>@observe(Meter, "measurement")\<close>.\<close>

definition logging_class :: "(string, observe_targets) dict" where
  "logging_class = [(''_on_measurement'', observe_mark ''Meter'' ''measurement'' [])]"

text \<open>The constructor of the reporter with the handler \<open>h\<close> (its bound \<open>_on_measurement\<close>).\<close>

definition logging_init ::
  "('h, 'a, 's) env \<Rightarrow> ((logging_reporter \<Rightarrow> logging_reporter) \<Rightarrow> 's \<Rightarrow> 's) \<Rightarrow> 'h \<Rightarrow> int \<Rightarrow> bool \<Rightarrow> bool \<Rightarrow> string \<Rightarrow> ('s, unit) py" where
  "logging_init env upd h level log_args log_result logger_name =
     py_seq (py_modify (upd (\<lambda>_. \<lparr>lr_level = level, lr_log_args = log_args, lr_log_result = log_result, lr_logger = logger_name\<rparr>)))
       (reporter_init env logging_class (\<lambda>_. h))"

definition log_line :: "(pyval \<Rightarrow> string) \<Rightarrow> (pyval \<Rightarrow> string) \<Rightarrow> logging_reporter \<Rightarrow> string \<Rightarrow> real option \<Rightarrow> task_context \<Rightarrow> string" where
  "log_line str_of repr_of R name value ctx =
     name @ '' = '' @ str_of (py_opt_float value) @
     (if lr_log_args R then '' args='' @ repr_of (PTuple (tc_args ctx)) @ '' kwargs='' @ repr_of (PDict (tc_kwargs ctx)) else []) @
     (if lr_log_result R then '' result='' @ repr_of (tc_result ctx) else [])"

definition on_measurement ::
  "(pyval \<Rightarrow> string) \<Rightarrow> (pyval \<Rightarrow> string) \<Rightarrow> (string \<Rightarrow> int \<Rightarrow> string \<Rightarrow> ('s, unit) py) \<Rightarrow> ('s \<Rightarrow> nat \<Rightarrow> meter) \<Rightarrow> ('s \<Rightarrow> nat \<Rightarrow> task_context) \<Rightarrow>
   logging_reporter \<Rightarrow> nat \<Rightarrow> real option \<Rightarrow> nat \<Rightarrow> ('s, unit) py" where
  "on_measurement str_of repr_of emit meters contexts R meter value ctx =
     py_bind (py_gets (\<lambda>s. log_line str_of repr_of R (me_name (meters s meter)) value (contexts s ctx)))
       (emit (lr_logger R) (lr_level R))"

section \<open>A program with meters and reporters\<close>

text \<open>Reporters are named by numbers, which are also their handlers; the last field counts the readings of \<open>perf_counter\<close>.\<close>

record rep_state =
  p_objects :: "nat objects"
  p_meters :: "nat \<Rightarrow> meter"
  p_ctxs :: "nat \<Rightarrow> task_context"
  p_reporters :: "nat \<Rightarrow> logging_reporter"
  p_lines :: "(string \<times> int \<times> string) list"
  p_reads :: nat

definition rep_emit :: "string \<Rightarrow> int \<Rightarrow> string \<Rightarrow> (rep_state, unit) py" where
  "rep_emit logger level line = py_modify (\<lambda>s. s\<lparr>p_lines := p_lines s @ [(logger, level, line)]\<rparr>)"

definition rep_call :: "(pyval \<Rightarrow> string) \<Rightarrow> (pyval \<Rightarrow> string) \<Rightarrow> nat \<Rightarrow> meter_event \<Rightarrow> (rep_state, pyval) py" where
  "rep_call str_of repr_of h ev = (case ev of
       MMeasurement m v c \<Rightarrow> (\<lambda>s. py_seq (on_measurement str_of repr_of rep_emit p_meters p_ctxs (p_reporters s h) m v c) (py_ret PNone) s)
     | _ \<Rightarrow> py_ret PNone)"

definition rep_env :: "(pyval \<Rightarrow> string) \<Rightarrow> (pyval \<Rightarrow> string) \<Rightarrow> (nat, meter_event, rep_state) env" where
  "rep_env str_of repr_of = \<lparr>call = rep_call str_of repr_of, submit = (\<lambda>h ev. py_void (rep_call str_of repr_of h ev)),
     load_of = (\<lambda>_. py_ret 0), obj = p_objects, upd_obj = (\<lambda>f s. s\<lparr>p_objects := f (p_objects s)\<rparr>)\<rparr>"

definition rep_ctx :: "(pyval \<Rightarrow> string) \<Rightarrow> (pyval \<Rightarrow> string) \<Rightarrow> (nat, rep_state) meter_ctx" where
  "rep_ctx str_of repr_of = \<lparr>k_env = rep_env str_of repr_of, k_meter = p_meters,
     k_upd_meter = (\<lambda>i f s. s\<lparr>p_meters := (p_meters s)(i := f (p_meters s i))\<rparr>), k_ctx = p_ctxs,
     k_upd_ctx = (\<lambda>i f s. s\<lparr>p_ctxs := (p_ctxs s)(i := f (p_ctxs s i))\<rparr>)\<rparr>"

definition new_reporter :: "(pyval \<Rightarrow> string) \<Rightarrow> (pyval \<Rightarrow> string) \<Rightarrow> nat \<times> logging_reporter \<Rightarrow> (rep_state, unit) py" where
  "new_reporter str_of repr_of = (\<lambda>(h, R). logging_init (rep_env str_of repr_of)
     (\<lambda>f s. s\<lparr>p_reporters := (p_reporters s)(h := f (p_reporters s h))\<rparr>) h (lr_level R) (lr_log_args R) (lr_log_result R) (lr_logger R))"

interpretation rep: object_store "rep_env str_of repr_of" for str_of repr_of
  by unfold_locales (simp add: rep_env_def)

lemma rep_simps [simp]:
  "call (rep_env str_of repr_of) = rep_call str_of repr_of" "obj (rep_env str_of repr_of) = p_objects"
  "upd_obj (rep_env str_of repr_of) = (\<lambda>f s. s\<lparr>p_objects := f (p_objects s)\<rparr>)"
  "k_env (rep_ctx str_of repr_of) = rep_env str_of repr_of" "k_meter (rep_ctx str_of repr_of) = p_meters"
  "k_upd_meter (rep_ctx str_of repr_of) = (\<lambda>i f s. s\<lparr>p_meters := (p_meters s)(i := f (p_meters s i))\<rparr>)"
  "k_ctx (rep_ctx str_of repr_of) = p_ctxs" "k_upd_ctx (rep_ctx str_of repr_of) = (\<lambda>i f s. s\<lparr>p_ctxs := (p_ctxs s)(i := f (p_ctxs s i))\<rparr>)"
  by (simp_all add: rep_env_def rep_ctx_def)

section \<open>Creating reporters\<close>

lemma logging_methods: "reporter_observe_methods logging_class = [(''_on_measurement'', [(''Meter'', ''measurement'')])]"
  by (simp add: reporter_observe_methods_def logging_class_def observe_mark_def dict_get_default_def)

text \<open>
  The reporters \<open>rs\<close> are the ones listening: no other class-level subscriber exists, and each reporter has
  its configuration.
\<close>

definition listening :: "(nat \<times> logging_reporter) list \<Rightarrow> rep_state \<Rightarrow> bool" where
  "listening rs s = (o_nodes (p_objects s) = (\<lambda>_. None) \<and> (\<forall>(h, R)\<in>set rs. p_reporters s h = R) \<and>
     (\<forall>k nm. class_subs (o_class_subscribers (p_objects s)) k nm = (if k = ''Meter'' \<and> nm = ''measurement'' then map fst rs else [])))"

text \<open>The registry after one more reporter.\<close>

definition registered :: "nat \<Rightarrow> nat class_subscribers \<Rightarrow> nat class_subscribers" where
  "registered h reg = dict_set ''Meter'' (dict_set ''measurement'' (class_subs reg ''Meter'' ''measurement'' @ [h])
     (dict_get_default reg ''Meter'' [])) reg"

lemma registered_subs:
  "class_subs (registered h reg) k nm = class_subs reg k nm @ (if k = ''Meter'' \<and> nm = ''measurement'' then [h] else [])"
  by (simp add: registered_def class_subs_def)

lemma new_reporter_eq:
  "new_reporter str_of repr_of (h, R) s = (Inr (), s\<lparr>p_reporters := (p_reporters s)(h := R),
     p_objects := (p_objects s)\<lparr>o_class_subscribers := registered h (o_class_subscribers (p_objects s))\<rparr>\<rparr>)"
  by (cases R) (simp add: new_reporter_def logging_init_def py_simps reporter_init_def logging_methods register_class_subscriber_def
      registered_def class_subs_def Let_def)

lemma new_reporter_listens:
  assumes "listening rs s" "h \<notin> fst ` set rs"
  shows "\<exists>s'. new_reporter str_of repr_of (h, R) s = (Inr (), s') \<and> listening (rs @ [(h, R)]) s' \<and> p_lines s' = p_lines s \<and>
    p_meters s' = p_meters s \<and> p_ctxs s' = p_ctxs s \<and> p_reads s' = p_reads s"
proof -
  have "h' \<noteq> h" if "(h', R') \<in> set rs" for h' R' using that assms(2) by force
  with assms(1) have "\<forall>(h', R')\<in>set (rs @ [(h, R)]). ((p_reporters s)(h := R)) h' = R'" by (auto simp: listening_def)
  with assms(1) show ?thesis by (simp add: new_reporter_eq listening_def registered_subs)
qed

lemma new_reporters_listen:
  assumes "listening rs s" "distinct (map fst (rs @ qs))"
  shows "\<exists>s'. py_for (new_reporter str_of repr_of) qs s = (Inr (), s') \<and> listening (rs @ qs) s' \<and> p_lines s' = p_lines s \<and>
    p_meters s' = p_meters s \<and> p_ctxs s' = p_ctxs s \<and> p_reads s' = p_reads s"
  using assms
proof (induction qs arbitrary: rs s)
  case (Cons q qs)
  obtain h R where q: "q = (h, R)" by fastforce
  with Cons.prems(2) have "h \<notin> fst ` set rs" by auto
  from new_reporter_listens[OF Cons.prems(1) this, of str_of repr_of R] obtain s1 where
    s1: "new_reporter str_of repr_of q s = (Inr (), s1)" "listening (rs @ [q]) s1" "p_lines s1 = p_lines s"
      "p_meters s1 = p_meters s" "p_ctxs s1 = p_ctxs s" "p_reads s1 = p_reads s" unfolding q by blast
  with Cons.IH[OF s1(2)] Cons.prems(2) show ?case by auto
qed simp

section \<open>A measurement reaches the log\<close>

text \<open>The line a reporter writes for one measurement.\<close>

definition report :: "(pyval \<Rightarrow> string) \<Rightarrow> (pyval \<Rightarrow> string) \<Rightarrow> string \<Rightarrow> real option \<Rightarrow> task_context \<Rightarrow> nat \<times> logging_reporter \<Rightarrow> string \<times> int \<times> string" where
  "report str_of repr_of name v ctx = (\<lambda>(h, R). (lr_logger R, lr_level R, log_line str_of repr_of R name v ctx))"

lemma reporters_called:
  assumes "o_nodes (p_objects s) = (\<lambda>_. None)" "\<forall>(h, R)\<in>set qs. p_reporters s h = R"
  shows "py_for (\<lambda>fn. py_suppress (py_void (invoke (rep_env str_of repr_of) fn (MMeasurement m v c)))) (map fst qs) s =
    (Inr (), s\<lparr>p_lines := p_lines s @ map (report str_of repr_of (me_name (p_meters s m)) v (p_ctxs s c)) qs\<rparr>)"
  using assms
proof (induction qs arbitrary: s)
  case (Cons q qs)
  obtain h R where q: "q = (h, R)" by fastforce
  let ?s = "s\<lparr>p_lines := p_lines s @ [report str_of repr_of (me_name (p_meters s m)) v (p_ctxs s c) q]\<rparr>"
  have "invoke (rep_env str_of repr_of) h (MMeasurement m v c) s = (Inr PNone, ?s)"
    using Cons.prems unfolding q by (simp add: invoke_def rep_call_def on_measurement_def rep_emit_def py_simps report_def)
  with Cons.IH[of ?s] Cons.prems show ?case unfolding q by (simp add: py_simps)
qed simp

text \<open>A channel without subscribers of its own only walks the classes of its owner.\<close>

definition channel_of :: "string list \<Rightarrow> string \<Rightarrow> nat eventful" where
  "channel_of mro nm = eventful_new None (Some mro) (Some nm)"

lemma classes_silent:
  assumes "listening rs s" "nm \<noteq> ''measurement'' \<or> ''Meter'' \<notin> set mro"
  shows "py_for (fire_class (rep_env str_of repr_of) nm a) mro s = (Inr (), s)"
  using assms(2)
proof (induction mro)
  case (Cons k mro)
  have "class_subs (o_class_subscribers (p_objects s)) k nm = []" using assms(1) Cons.prems by (auto simp: listening_def)
  then have "fire_class (rep_env str_of repr_of) nm a k s = (Inr (), s)" by (simp add: fire_class_def py_simps)
  with Cons show ?case by simp
qed simp

lemma listening_lines [simp]: "listening rs (s\<lparr>p_lines := l\<rparr>) = listening rs s"
  by (simp add: listening_def)

lemma fire_silent:
  assumes "listening rs s" "o_eventfuls (p_objects s) ch = channel_of mro nm" "nm \<noteq> ''measurement''"
  shows "ev_fire (rep_env str_of repr_of) ch a s = (Inr (), s)"
  using classes_silent[OF assms(1), of nm mro] assms(2,3)
  by (simp add: ev_fire_def py_simps channel_of_def eventful_new_def dispatch_def broadcast_dispatch_def)

lemma fire_measurement:
  assumes l: "listening rs s" and ch: "o_eventfuls (p_objects s) ch = channel_of mro ''measurement''"
    and mro: "distinct mro" "''Meter'' \<in> set mro"
  shows "ev_fire (rep_env str_of repr_of) ch (MMeasurement m v c) s =
    (Inr (), s\<lparr>p_lines := p_lines s @ map (report str_of repr_of (me_name (p_meters s m)) v (p_ctxs s c)) rs\<rparr>)"
proof -
  obtain xs ys where split: "mro = xs @ ''Meter'' # ys" using mro(2) by (meson split_list)
  with mro(1) have notin: "''Meter'' \<notin> set xs" "''Meter'' \<notin> set ys" by auto
  let ?s = "s\<lparr>p_lines := p_lines s @ map (report str_of repr_of (me_name (p_meters s m)) v (p_ctxs s c)) rs\<rparr>"
  have "fire_class (rep_env str_of repr_of) ''measurement'' (MMeasurement m v c) ''Meter'' s = (Inr (), ?s)"
    using l reporters_called[of s rs str_of repr_of m v c]
    by (simp add: fire_class_def py_bind_apply py_gets_def listening_def)
  with classes_silent[OF l, of "''measurement''" xs] classes_silent[of rs ?s "''measurement''" ys] l notin
  have "py_for (fire_class (rep_env str_of repr_of) ''measurement'' (MMeasurement m v c)) mro s = (Inr (), ?s)"
    unfolding split py_for_append by simp
  then show ?thesis
    by (simp add: ev_fire_def py_bind_apply py_seq_def py_gets_def ch channel_of_def eventful_new_def dispatch_def broadcast_dispatch_def)
qed

section \<open>A meter's calls\<close>

text \<open>The meter at address \<open>m\<close> has its three channels at \<open>ch\<close> and after, with no subscribers of their own.\<close>

definition wired :: "nat \<Rightarrow> nat \<Rightarrow> string list \<Rightarrow> rep_state \<Rightarrow> bool" where
  "wired m ch mro s = (me_measurement (p_meters s m) = ch \<and> me_update_event (p_meters s m) = ch + 1 \<and> me_reset_event (p_meters s m) = ch + 2 \<and>
     o_eventfuls (p_objects s) ch = channel_of mro ''measurement'' \<and> o_eventfuls (p_objects s) (ch + 1) = channel_of mro ''update_event'' \<and>
     o_eventfuls (p_objects s) (ch + 2) = channel_of mro ''reset_event'')"

lemma meter_clear_fields [simp]:
  "me_name (meter_clear m) = me_name m" "me_reduction (meter_clear m) = me_reduction m" "me_measurement (meter_clear m) = me_measurement m"
  "me_update_event (meter_clear m) = me_update_event m" "me_reset_event (meter_clear m) = me_reset_event m"
  by (simp_all add: meter_clear_def)

lemma meter_add_fields [simp]:
  "me_name (meter_add v n m) = me_name m" "me_reduction (meter_add v n m) = me_reduction m" "me_measurement (meter_add v n m) = me_measurement m"
  "me_update_event (meter_add v n m) = me_update_event m" "me_reset_event (meter_add v n m) = me_reset_event m"
  by (simp_all add: meter_add_def Let_def)

text \<open>The state a new meter is built in, and its construction.\<close>

definition built :: "nat \<Rightarrow> nat \<Rightarrow> string list \<Rightarrow> string \<Rightarrow> string \<Rightarrow> rep_state \<Rightarrow> rep_state" where
  "built m ch mro name red s = s\<lparr>
     p_meters := (p_meters s)(m := meter_clear ((p_meters s m)\<lparr>me_reduction := red, me_name := name,
       me_measurement := ch, me_update_event := ch + 1, me_reset_event := ch + 2\<rparr>)),
     p_objects := (p_objects s)\<lparr>o_eventfuls := (o_eventfuls (p_objects s))(ch := channel_of mro ''measurement'',
       ch + 1 := channel_of mro ''update_event'', ch + 2 := channel_of mro ''reset_event'')\<rparr>\<rparr>"

lemma built_facts:
  "listening rs s \<Longrightarrow> listening rs (built m ch mro name red s)" "wired m ch mro (built m ch mro name red s)"
  "p_lines (built m ch mro name red s) = p_lines s" "p_ctxs (built m ch mro name red s) = p_ctxs s"
  "me_name (p_meters (built m ch mro name red s) m) = name"
  "\<exists>m0. p_meters (built m ch mro name red s) m = meter_clear m0 \<and> me_reduction m0 = red \<and> me_name m0 = name"
  by (auto simp: listening_def wired_def built_def)

lemma meter_init_builds:
  assumes "listening rs s" "dict_get REDUCTIONS red \<noteq> None"
  shows "meter_init (rep_ctx str_of repr_of) m ch mro cls (Some name) red None s = (Inr (), built m ch mro name red s)"
proof -
  have "meter_init (rep_ctx str_of repr_of) m ch mro cls (Some name) red None s =
      ev_fire (rep_env str_of repr_of) (ch + 2) (MReset m) (built m ch mro name red s)"
    using assms(2) by (cases s) (auto simp: meter_init_def meter_reset_def upd_eventful_def py_simps built_def channel_of_def)
  also have "\<dots> = (Inr (), built m ch mro name red s)"
    using built_facts(1)[OF assms(1), of m ch mro name red] built_facts(2)[of m ch mro name red s] by (intro fire_silent[where mro = mro and nm = "''reset_event''"]) (auto simp: wired_def)
  finally show ?thesis .
qed

text \<open>The state after a successful call was measured: the aggregate, the context's metadata, the lines.\<close>

definition measured :: "(pyval \<Rightarrow> string) \<Rightarrow> (pyval \<Rightarrow> string) \<Rightarrow> (nat \<times> logging_reporter) list \<Rightarrow> nat \<Rightarrow> nat \<times> real option \<Rightarrow> rep_state \<Rightarrow> rep_state" where
  "measured str_of repr_of rs m = (\<lambda>(c, v) s.
     s\<lparr>p_meters := (p_meters s)(m := (case v of None \<Rightarrow> p_meters s m | Some x \<Rightarrow> meter_add x 1 (p_meters s m))),
       p_ctxs := (p_ctxs s)(c := (p_ctxs s c)\<lparr>tc_metadata := dict_set (me_name (p_meters s m)) (py_opt_float v) (tc_metadata (p_ctxs s c))\<rparr>),
       p_lines := p_lines s @ map (report str_of repr_of (me_name (p_meters s m)) v (p_ctxs s c)) rs\<rparr>)"

lemma report_metadata [simp]: "report str_of repr_of name v (ctx\<lparr>tc_metadata := d\<rparr>) = report str_of repr_of name v ctx"
  by (simp add: report_def log_line_def fun_eq_iff)

lemma measured_facts:
  "listening rs (measured str_of repr_of rs' m cv s) = listening rs s" "wired m ch mro (measured str_of repr_of rs' m cv s) = wired m ch mro s"
  "me_name (p_meters (measured str_of repr_of rs' m cv s) m) = me_name (p_meters s m)"
  by (auto simp: listening_def wired_def measured_def split: prod.split option.split)

lemma on_success_measures:
  assumes l: "listening rs s" and w: "wired m ch mro s" and mro: "distinct mro" "''Meter'' \<in> set mro" and f: "measure_fn m c s0 = (Inr v, s)"
  shows "meter_on_success (rep_ctx str_of repr_of) measure_fn m c s0 = (Inr (), measured str_of repr_of rs m (c, v) s)"
proof -
  define s1 where "s1 = s\<lparr>p_meters := (p_meters s)(m := (case v of None \<Rightarrow> p_meters s m | Some x \<Rightarrow> meter_add x 1 (p_meters s m)))\<rparr>"
  have l1: "listening rs s1" and w1: "wired m ch mro s1" and n1: "me_name (p_meters s1 m) = me_name (p_meters s m)"
    using l w by (auto simp: s1_def listening_def wired_def split: option.split)
  have "ev_fire (rep_env str_of repr_of) (ch + 1) a s1 = (Inr (), s1)" for a
    using l1 w1 by (intro fire_silent[where mro = mro and nm = "''update_event''"]) (auto simp: wired_def)
  then have upd: "(case v of None \<Rightarrow> py_ret () | Some x \<Rightarrow> meter_update (rep_ctx str_of repr_of) m x 1) s = (Inr (), s1)"
    using w by (cases v) (simp_all add: meter_update_def py_simps s1_def wired_def)
  define s2 where "s2 = s1\<lparr>p_ctxs := (p_ctxs s1)(c := (p_ctxs s1 c)\<lparr>tc_metadata :=
    dict_set (me_name (p_meters s m)) (py_opt_float v) (tc_metadata (p_ctxs s1 c))\<rparr>)\<rparr>"
  have l2: "listening rs s2" and w2: "o_eventfuls (p_objects s2) ch = channel_of mro ''measurement''"
    using l1 w1 by (auto simp: s2_def listening_def wired_def)
  have "meter_on_success (rep_ctx str_of repr_of) measure_fn m c s0 = ev_fire (rep_env str_of repr_of) ch (MMeasurement m v c) s2"
    using upd w1 f by (simp add: meter_on_success_def set_metadata_def py_simps n1 s2_def wired_def)
  also have "\<dots> = (Inr (), measured str_of repr_of rs m (c, v) s)"
    unfolding fire_measurement[OF l2 w2 mro] by (simp add: s2_def s1_def measured_def split: option.split)
  finally show ?thesis .
qed

section \<open>From the extractor to the log\<close>

text \<open>An extractor reads the context and may raise; \<open>metric\<close> is what \<open>MetricsMeter.measure\<close> makes of it.\<close>

definition extractor :: "(task_context \<Rightarrow> pyexn + real option) \<Rightarrow> nat \<Rightarrow> (rep_state, real option) py" where
  "extractor ex c = (\<lambda>s. (ex (p_ctxs s c), s))"

definition metric :: "(task_context \<Rightarrow> pyexn + real option) \<Rightarrow> task_context \<Rightarrow> real option" where
  "metric ex ctx = (case ex ctx of Inl _ \<Rightarrow> None | Inr v \<Rightarrow> v)"

definition observations :: "real option list \<Rightarrow> (real \<times> int) list" where
  "observations vs = List.map_filter (map_option (\<lambda>x. (x, 1))) vs"

lemma observations_append: "observations (us @ vs) = observations us @ observations vs"
  by (simp add: observations_def List.map_filter_def)

lemma observations_weights: "list_all (\<lambda>u. 0 < snd u) (observations vs)"
  by (auto simp: observations_def List.map_filter_def list_all_iff)

lemma measured_meter:
  "p_meters (measured str_of repr_of rs m (c, v) s) m = meter_adds (observations [v]) (p_meters s m)"
  by (cases v) (simp_all add: measured_def observations_def List.map_filter_def meter_adds_def)

lemma meter_adds_append: "meter_adds (us @ vs) m = meter_adds vs (meter_adds us m)"
  by (simp add: meter_adds_def)

lemma calls_measured:
  assumes "listening rs s" "wired m ch mro s" "distinct mro" "''Meter'' \<in> set mro" "distinct calls"
    and "\<forall>c e. ex c = Inl e \<longrightarrow> is_Exc e"
  shows "\<exists>s'. py_for (meter_on_success (rep_ctx str_of repr_of) (metrics_measure (extractor ex)) m) calls s = (Inr (), s') \<and>
    p_lines s' = p_lines s @ concat (map (\<lambda>c. map (report str_of repr_of (me_name (p_meters s m)) (metric ex (p_ctxs s c)) (p_ctxs s c)) rs) calls) \<and>
    p_meters s' m = meter_adds (observations (map (\<lambda>c. metric ex (p_ctxs s c)) calls)) (p_meters s m)"
  using assms(1,2,5)
proof (induction calls arbitrary: s)
  case Nil
  show ?case by (simp add: observations_def meter_adds_def)
next
  case (Cons c calls)
  let ?v = "metric ex (p_ctxs s c)"
  let ?s1 = "measured str_of repr_of rs m (c, ?v) s"
  have val: "metrics_measure (extractor ex) m c s = (Inr ?v, s)"
    using assms(6) by (auto simp: metrics_measure_def extractor_def metric_def py_simps split: sum.split)
  have step: "meter_on_success (rep_ctx str_of repr_of) (metrics_measure (extractor ex)) m c s = (Inr (), ?s1)"
    by (rule on_success_measures[where measure_fn = "metrics_measure (extractor ex)", OF Cons.prems(1,2) assms(3,4) val])
  have ctxs: "p_ctxs ?s1 c' = p_ctxs s c'" if "c' \<in> set calls" for c'
    using that Cons.prems(3) by (auto simp: measured_def)
  have lines: "p_lines ?s1 = p_lines s @ map (report str_of repr_of (me_name (p_meters s m)) ?v (p_ctxs s c)) rs"
    by (simp add: measured_def)
  have vals: "map (\<lambda>c. metric ex (p_ctxs ?s1 c)) calls = map (\<lambda>c. metric ex (p_ctxs s c)) calls" using ctxs by simp
  have reps: "map (\<lambda>c. map (report str_of repr_of (me_name (p_meters s m)) (metric ex (p_ctxs ?s1 c)) (p_ctxs ?s1 c)) rs) calls =
      map (\<lambda>c. map (report str_of repr_of (me_name (p_meters s m)) (metric ex (p_ctxs s c)) (p_ctxs s c)) rs) calls" using ctxs by simp
  have "listening rs ?s1" "wired m ch mro ?s1" "distinct calls" using Cons.prems by (simp_all add: measured_facts)
  from Cons.IH[OF this] obtain s' where
    "py_for (meter_on_success (rep_ctx str_of repr_of) (metrics_measure (extractor ex)) m) calls ?s1 = (Inr (), s')"
    "p_lines s' = p_lines ?s1 @ concat (map (\<lambda>c. map (report str_of repr_of (me_name (p_meters s m)) (metric ex (p_ctxs s c)) (p_ctxs s c)) rs) calls)"
    "p_meters s' m = meter_adds (observations (map (\<lambda>c. metric ex (p_ctxs s c)) calls)) (p_meters ?s1 m)"
    unfolding vals reps measured_facts(3) by blast
  then show ?case
    by (intro exI[of _ s']) (simp add: step lines measured_meter meter_adds_append[symmetric] observations_append[symmetric])
qed


definition demo_ctx :: "pyval list \<Rightarrow> task_context" where
  "demo_ctx args = \<lparr>tc_task_id = ''t'', tc_func_name = ''f'', tc_topic = None, tc_args = args, tc_kwargs = [], tc_start_time = 0,
     tc_end_time = 1, tc_result = PNone, tc_error = None, tc_metadata = []\<rparr>"

definition demo_logger :: logging_reporter where
  "demo_logger = \<lparr>lr_level = 20, lr_log_args = False, lr_log_result = False, lr_logger = ''eventforge''\<rparr>"

definition demo_rep :: rep_state where
  "demo_rep = \<lparr>p_objects = \<lparr>o_nodes = (\<lambda>_. None), o_eventfuls = (\<lambda>_. eventful_new None None None), o_rr_idx = (\<lambda>_. 0), o_class_subscribers = []\<rparr>,
     p_meters = (\<lambda>_. demo_meter), p_ctxs = (\<lambda>c. demo_ctx (if c = 0 then [PInt 3] else [])), p_reporters = (\<lambda>_. demo_logger), p_lines = [], p_reads = 0\<rparr>"

text \<open>An extractor that raises on a call without arguments.\<close>

definition demo_extract :: "task_context \<Rightarrow> pyexn + real option" where
  "demo_extract c = (case tc_args c of PInt i # _ \<Rightarrow> Inr (Some (real_of_int i)) | _ \<Rightarrow> Inl (Exception ''IndexError'' []))"

definition demo_str :: "pyval \<Rightarrow> string" where
  "demo_str v = (case v of PNone \<Rightarrow> ''None'' | _ \<Rightarrow> ''3.0'')"


end
