(* ===== verification/Work_Queue.thy ===== *)
theory Work_Queue
  imports Memory_Transport Round_Robin
begin

text \<open>
  \<open>src/eventforge/work_queue.py\<close>: competing consumers with acknowledgement, redelivery, visibility
  timeout and dead-letter topics. Each critical section of the class (a block under \<open>_wq_lock\<close>) is one
  function on the object's fields; the calls made after a lock is released (\<open>_try_dispatch\<close>, the
  handler threads) are separate functions, and the step relation at the end interleaves them freely.

  Parameters: \<open>uuid4 n\<close> is the \<open>n\<close>-th identifier the process draws (the state counts the draws), \<open>now\<close>
  the value of \<open>time.monotonic()\<close> in a critical section, \<open>date\<close> the text of the current date. Reading a
  missing key of a \<open>defaultdict\<close> is modelled as reading its default (the empty entry Python adds is
  never observed). Handlers are names of type \<open>'h\<close>.
\<close>

record in_flight_entry =
  e_message :: message
  e_delivery_id :: string
  e_topic :: string
  e_consumer_group :: string
  e_delivered_at :: real
  e_visibility_timeout :: pyval
  e_retry_count :: pyval

type_synonym group_key = "string \<times> string"
type_synonym 'h thread = "'h \<times> message \<times> string"

record 'h work_queue =
  wq_max_size :: int
  wq_default_vt :: real
  wq_max_retries :: int
  wq_pending :: "(string, message list) dict"
  wq_in_flight :: "(string, in_flight_entry) dict"
  wq_groups :: "(group_key, (string \<times> 'h) list) dict"
  wq_rr_index :: "(group_key, nat) dict"
  wq_registry :: "(string, group_key) dict"
  wq_closed :: bool
  wq_reaper_running :: bool
  wq_drawn :: nat

definition wq_init :: "int \<Rightarrow> real \<Rightarrow> int \<Rightarrow> 'h work_queue" where
  "wq_init max_work_queue_size default_visibility_timeout max_retries =
     \<lparr>wq_max_size = max_work_queue_size, wq_default_vt = default_visibility_timeout,
      wq_max_retries = max_retries, wq_pending = [], wq_in_flight = [], wq_groups = [],
      wq_rr_index = [], wq_registry = [], wq_closed = False, wq_reaper_running = False, wq_drawn = 0\<rparr>"

definition pending_of :: "'h work_queue \<Rightarrow> string \<Rightarrow> message list" where
  "pending_of q topic = dict_get_default (wq_pending q) topic []"

definition set_pending :: "string \<Rightarrow> message list \<Rightarrow> 'h work_queue \<Rightarrow> 'h work_queue" where
  "set_pending topic ms q = q\<lparr>wq_pending := dict_set topic ms (wq_pending q)\<rparr>"

definition draw :: "'h work_queue \<Rightarrow> 'h work_queue" where
  "draw q = q\<lparr>wq_drawn := wq_drawn q + 1\<rparr>"

section \<open>Numbers in headers\<close>

text \<open>Headers are caller-supplied values: arithmetic on a value that is not a number raises.\<close>

definition num_of :: "pyval \<Rightarrow> real option" where
  "num_of v = (case v of PInt i \<Rightarrow> Some (real_of_int i) | PFloat x \<Rightarrow> Some x
     | PBool b \<Rightarrow> Some (if b then 1 else 0) | _ \<Rightarrow> None)"

definition py_plus1 :: "pyval \<Rightarrow> pyval option" where
  "py_plus1 v = (case v of PInt i \<Rightarrow> Some (PInt (i + 1)) | PFloat x \<Rightarrow> Some (PFloat (x + 1))
     | PBool b \<Rightarrow> Some (PInt (if b then 2 else 1)) | _ \<Rightarrow> None)"

definition type_error :: pyexn where
  "type_error = Exception ''TypeError'' ''unsupported operand type(s)''"

definition below :: "pyval \<Rightarrow> int \<Rightarrow> bool" where
  "below v n = (case num_of v of None \<Rightarrow> False | Some x \<Rightarrow> x < real_of_int n)"

section \<open>Enqueue\<close>

definition retry_key :: string where "retry_key = ''_wq_retry_count''"
definition vt_key :: string where "vt_key = ''_wq_visibility_timeout''"
definition id_key :: string where "id_key = ''_wq_delivery_id''"
definition origin_key :: string where "origin_key = ''_wq_original_topic''"

definition queue_full_error :: "int \<Rightarrow> string \<Rightarrow> pyexn" where
  "queue_full_error limit topic = Exception ''QueueFullError''
     (''Work queue for topic '' @ squote @ topic @ squote @ '' is full ('' @ str_of_int limit @ '' messages)'')"

definition wq_new_message ::
  "string \<Rightarrow> string \<Rightarrow> int \<Rightarrow> real \<Rightarrow> string \<Rightarrow> pyval \<Rightarrow> real option \<Rightarrow> kwargs \<Rightarrow> message" where
  "wq_new_message mid date stamp dflt_vt topic payload visibility_timeout headers =
     (let vt = (case visibility_timeout of Some x \<Rightarrow> x | None \<Rightarrow> dflt_vt) in
      \<lparr>m_id = mid, m_topic = topic, m_payload = payload,
       m_headers = dict_merge
         [(retry_key, PInt 0), (origin_key, PStr topic), (''_wq_enqueued_at'', PStr date),
          (vt_key, PFloat vt)] headers,
       m_timestamp = stamp, m_reply_to = None, m_correlation_id = None\<rparr>)"

text \<open>The locked part of \<open>enqueue\<close>; the message (and its id) is made before the lock is taken.\<close>

definition wq_append ::
  "(nat \<Rightarrow> string) \<Rightarrow> string \<Rightarrow> int \<Rightarrow> string \<Rightarrow> pyval \<Rightarrow> real option \<Rightarrow> kwargs \<Rightarrow> 'h work_queue \<Rightarrow>
   (pyexn + string) \<times> 'h work_queue" where
  "wq_append uuid4 date stamp topic payload visibility_timeout headers q0 =
     (let message = wq_new_message (uuid4 (wq_drawn q0)) date stamp (wq_default_vt q0) topic payload
            visibility_timeout headers;
          q = draw q0 in
      if 0 < wq_max_size q \<and> wq_max_size q \<le> int (length (pending_of q topic))
      then (Inl (queue_full_error (wq_max_size q) topic), q)
      else (Inr (m_id message), set_pending topic (pending_of q topic @ [message]) q))"

section \<open>In-flight bookkeeping and dispatch\<close>

text \<open>\<open>_start_reaper_if_needed\<close>: whether a reaper thread is started, and the flag.\<close>

definition start_reaper_if_needed :: "'h work_queue \<Rightarrow> bool \<times> 'h work_queue" where
  "start_reaper_if_needed q = (if wq_reaper_running q then (False, q) else (True, q\<lparr>wq_reaper_running := True\<rparr>))"

lemma start_reaper_flag [simp]: "snd (start_reaper_if_needed q) = q\<lparr>wq_reaper_running := True\<rparr>"
  by (cases q) (simp add: start_reaper_if_needed_def)

definition make_in_flight ::
  "(nat \<Rightarrow> string) \<Rightarrow> real \<Rightarrow> message \<Rightarrow> string \<Rightarrow> string \<Rightarrow> 'h work_queue \<Rightarrow> message \<times> 'h work_queue" where
  "make_in_flight uuid4 now msg topic consumer_group q =
     (let delivery_id = uuid4 (wq_drawn q);
          vt = dict_get_default (m_headers msg) vt_key (PFloat (wq_default_vt q));
          retry_count = dict_get_default (m_headers msg) retry_key (PInt 0);
          delivered = msg\<lparr>m_headers := dict_set id_key (PStr delivery_id) (m_headers msg)\<rparr>;
          entry = \<lparr>e_message = msg, e_delivery_id = delivery_id, e_topic = topic,
            e_consumer_group = consumer_group, e_delivered_at = now,
            e_visibility_timeout = vt, e_retry_count = retry_count\<rparr>
      in (delivered, snd (start_reaper_if_needed ((draw q)\<lparr>wq_in_flight := dict_set delivery_id entry (wq_in_flight q)\<rparr>))))"

text \<open>The cursor of a consumer group: which of \<open>n\<close> consumers, and the stored cursor.\<close>

definition wq_rr_next :: "nat \<Rightarrow> nat \<Rightarrow> nat \<times> nat" where
  "wq_rr_next n i = (let idx = i mod n in (idx, idx + 1))"

text \<open>One message to one group (the body of the inner loop).\<close>

definition dispatch_to_group ::
  "(nat \<Rightarrow> string) \<Rightarrow> real \<Rightarrow> string \<Rightarrow> bool \<Rightarrow> message \<Rightarrow> group_key \<Rightarrow> 'h work_queue \<Rightarrow>
   'h thread list \<times> 'h work_queue" where
  "dispatch_to_group uuid4 now topic many msg key q =
     (case dict_get_default (wq_groups q) key [] of
        [] \<Rightarrow> ([], q)
      | e # es \<Rightarrow>
          (let (msg_copy, q1) = (if many then (msg\<lparr>m_id := uuid4 (wq_drawn q)\<rparr>, draw q) else (msg, q));
               (delivered, q2) = make_in_flight uuid4 now msg_copy topic (snd key) q1;
               (idx, idx') = wq_rr_next (length (e # es)) (dict_get_default (wq_rr_index q2) key 0);
               handler = snd ((e # es) ! idx);
               q3 = q2\<lparr>wq_rr_index := dict_set key idx' (wq_rr_index q2)\<rparr>
           in ([(handler, delivered, uuid4 (wq_drawn q1))], q3)))"

fun dispatch_groups ::
  "(nat \<Rightarrow> string) \<Rightarrow> real \<Rightarrow> string \<Rightarrow> bool \<Rightarrow> message \<Rightarrow> group_key list \<Rightarrow> 'h work_queue \<Rightarrow>
   'h thread list \<times> 'h work_queue" where
  "dispatch_groups uuid4 now topic many msg [] q = ([], q)"
| "dispatch_groups uuid4 now topic many msg (key # keys) q =
     (let (ts, q1) = dispatch_to_group uuid4 now topic many msg key q;
          (ts', q2) = dispatch_groups uuid4 now topic many msg keys q1
      in (ts @ ts', q2))"

text \<open>The \<open>while\<close> loop over the pending messages; it stops at the first message no group takes.\<close>

fun dispatch_pending ::
  "(nat \<Rightarrow> string) \<Rightarrow> real \<Rightarrow> string \<Rightarrow> group_key list \<Rightarrow> message list \<Rightarrow> 'h work_queue \<Rightarrow>
   'h thread list \<times> message list \<times> 'h work_queue" where
  "dispatch_pending uuid4 now topic keys [] q = ([], [], q)"
| "dispatch_pending uuid4 now topic keys (msg # msgs) q =
     (let (ts, q1) = dispatch_groups uuid4 now topic (1 < length keys) msg keys q in
      if ts = [] then ([], msg # msgs, q1)
      else
        let (ts', rest, q2) = dispatch_pending uuid4 now topic keys msgs q1
        in (ts @ ts', rest, q2))"

definition topic_groups :: "string \<Rightarrow> 'h work_queue \<Rightarrow> group_key list" where
  "topic_groups topic q = filter (\<lambda>key. fst key = topic) (map fst (wq_groups q))"

text \<open>\<open>_try_dispatch\<close>: the handler threads it starts, and the new state.\<close>

definition try_dispatch ::
  "(nat \<Rightarrow> string) \<Rightarrow> real \<Rightarrow> string \<Rightarrow> 'h work_queue \<Rightarrow> 'h thread list \<times> 'h work_queue" where
  "try_dispatch uuid4 now topic q =
     (if topic_groups topic q = [] then ([], q)
      else
        let (ts, rest, q1) = dispatch_pending uuid4 now topic (topic_groups topic q) (pending_of q topic) q
        in (ts, set_pending topic rest q1))"

definition wq_enqueue ::
  "(nat \<Rightarrow> string) \<Rightarrow> real \<Rightarrow> string \<Rightarrow> int \<Rightarrow> string \<Rightarrow> pyval \<Rightarrow> real option \<Rightarrow> kwargs \<Rightarrow> 'h work_queue \<Rightarrow>
   (pyexn + string) \<times> 'h thread list \<times> 'h work_queue" where
  "wq_enqueue uuid4 now date stamp topic payload visibility_timeout headers q =
     (case wq_append uuid4 date stamp topic payload visibility_timeout headers q of
        (Inl e, q1) \<Rightarrow> (Inl e, [], q1)
      | (Inr mid, q1) \<Rightarrow> (case try_dispatch uuid4 now topic q1 of (ts, q2) \<Rightarrow> (Inr mid, ts, q2)))"

section \<open>Consumers\<close>

definition wq_register ::
  "(nat \<Rightarrow> string) \<Rightarrow> string \<Rightarrow> 'h \<Rightarrow> string option \<Rightarrow> 'h work_queue \<Rightarrow> string \<times> 'h work_queue" where
  "wq_register uuid4 topic handler consumer_group q0 =
     (let group = (case consumer_group of
              Some (c # cs) \<Rightarrow> c # cs | _ \<Rightarrow> topic @ ''.default'');
          consumer_id = uuid4 (wq_drawn q0);
          q = draw q0;
          key = (topic, group)
      in (consumer_id,
          q\<lparr>wq_groups := dict_set key (dict_get_default (wq_groups q) key [] @ [(consumer_id, handler)]) (wq_groups q),
            wq_registry := dict_set consumer_id key (wq_registry q)\<rparr>))"

definition wq_consume ::
  "(nat \<Rightarrow> string) \<Rightarrow> real \<Rightarrow> string \<Rightarrow> 'h \<Rightarrow> string option \<Rightarrow> 'h work_queue \<Rightarrow>
   string \<times> 'h thread list \<times> 'h work_queue" where
  "wq_consume uuid4 now topic handler consumer_group q =
     (case wq_register uuid4 topic handler consumer_group q of (cid, q1) \<Rightarrow>
      case try_dispatch uuid4 now topic q1 of (ts, q2) \<Rightarrow> (cid, ts, q2))"

text \<open>The \<open>for ... if cid == consumer_id: entries.pop(i); break\<close> loop.\<close>

fun pop_consumer :: "string \<Rightarrow> (string \<times> 'h) list \<Rightarrow> (string \<times> 'h) list" where
  "pop_consumer cid [] = []"
| "pop_consumer cid (e # es) = (if fst e = cid then es else e # pop_consumer cid es)"

definition wq_remove_consumer :: "string \<Rightarrow> 'h work_queue \<Rightarrow> bool \<times> 'h work_queue" where
  "wq_remove_consumer consumer_id q =
     (case dict_get (wq_registry q) consumer_id of
        None \<Rightarrow> (False, q)
      | Some key \<Rightarrow>
          let q1 = q\<lparr>wq_registry := dict_del consumer_id (wq_registry q)\<rparr> in
          (case dict_get_default (wq_groups q) key [] of
             [] \<Rightarrow> (True, q1)
           | e # es \<Rightarrow>
               let entries = pop_consumer consumer_id (e # es) in
               if entries = []
               then (True, q1\<lparr>wq_groups := dict_del key (wq_groups q), wq_rr_index := dict_del key (wq_rr_index q)\<rparr>)
               else (True, q1\<lparr>wq_groups := dict_set key entries (wq_groups q)\<rparr>)))"

section \<open>Pull, acknowledge, reject\<close>

text \<open>\<open>dequeue\<close> with no other thread enqueueing meanwhile; any given timeout elapses.\<close>

definition wq_dequeue ::
  "(nat \<Rightarrow> string) \<Rightarrow> real \<Rightarrow> string \<Rightarrow> real option \<Rightarrow> 'h work_queue \<Rightarrow>
   message option waiting \<times> 'h work_queue" where
  "wq_dequeue uuid4 now topic timeout q =
     (if wq_closed q then (Got None, q)
      else case pending_of q topic of
        msg # rest \<Rightarrow>
          (case make_in_flight uuid4 now msg topic (topic @ ''._pull'') (set_pending topic rest q) of
             (delivered, q') \<Rightarrow> (Got (Some delivered), q'))
      | [] \<Rightarrow> (if timeout = None then Blocked else Got None, q))"

definition wq_ack :: "string \<Rightarrow> 'h work_queue \<Rightarrow> bool \<times> 'h work_queue" where
  "wq_ack delivery_id q =
     (if dict_get (wq_in_flight q) delivery_id \<noteq> None
      then (True, q\<lparr>wq_in_flight := dict_del delivery_id (wq_in_flight q)\<rparr>) else (False, q))"

definition dl_topic :: "string \<Rightarrow> string" where
  "dl_topic topic = topic @ ''.dead_letter''"

definition dead_letter_message :: "string \<Rightarrow> string \<Rightarrow> string \<Rightarrow> string \<Rightarrow> message \<Rightarrow> message" where
  "dead_letter_message mid date topic reason message =
     message\<lparr>m_topic := dl_topic topic,
       m_headers := dict_set origin_key (dict_get_default (m_headers message) origin_key (PStr topic))
         (dict_set ''_wq_dead_letter_reason'' (PStr reason)
           (dict_set ''_wq_dead_lettered_at'' (PStr date) (m_headers message))),
       m_id := mid\<rparr>"

definition dead_letter ::
  "(nat \<Rightarrow> string) \<Rightarrow> string \<Rightarrow> message \<Rightarrow> string \<Rightarrow> string \<Rightarrow> 'h work_queue \<Rightarrow> 'h work_queue" where
  "dead_letter uuid4 date message topic reason q =
     draw (set_pending (dl_topic topic)
       (pending_of q (dl_topic topic) @ [dead_letter_message (uuid4 (wq_drawn q)) date topic reason message]) q)"

definition requeue_front :: "in_flight_entry \<Rightarrow> pyval \<Rightarrow> 'h work_queue \<Rightarrow> 'h work_queue" where
  "requeue_front entry new_retry q =
     set_pending (e_topic entry)
       ((e_message entry)\<lparr>m_headers := dict_set retry_key new_retry (m_headers (e_message entry))\<rparr>
          # pending_of q (e_topic entry)) q"

text \<open>The locked part of \<open>nack\<close>: outcome, and the topic to dispatch afterwards.\<close>

definition nack_locked ::
  "(nat \<Rightarrow> string) \<Rightarrow> string \<Rightarrow> string \<Rightarrow> bool \<Rightarrow> 'h work_queue \<Rightarrow>
   (pyexn + bool) \<times> string option \<times> 'h work_queue" where
  "nack_locked uuid4 date delivery_id requeue q =
     (case dict_get (wq_in_flight q) delivery_id of
        None \<Rightarrow> (Inr False, None, q)
      | Some entry \<Rightarrow>
          let q1 = q\<lparr>wq_in_flight := dict_del delivery_id (wq_in_flight q)\<rparr> in
          (case py_plus1 (e_retry_count entry) of
             None \<Rightarrow> (Inl type_error, None, q1)
           | Some new_retry \<Rightarrow>
               if requeue \<and> below new_retry (wq_max_retries q)
               then (Inr True, Some (e_topic entry), requeue_front entry new_retry q1)
               else
                 let reason = (if \<not> below new_retry (wq_max_retries q) then ''max_retries_exceeded''
                               else ''nack_no_requeue'')
                 in (Inr True, None, dead_letter uuid4 date (e_message entry) (e_topic entry) reason q1)))"

definition wq_nack ::
  "(nat \<Rightarrow> string) \<Rightarrow> real \<Rightarrow> string \<Rightarrow> string \<Rightarrow> bool \<Rightarrow> 'h work_queue \<Rightarrow>
   (pyexn + bool) \<times> 'h thread list \<times> 'h work_queue" where
  "wq_nack uuid4 now date delivery_id requeue q =
     (case nack_locked uuid4 date delivery_id requeue q of
        (r, None, q1) \<Rightarrow> (r, [], q1)
      | (r, Some topic, q1) \<Rightarrow> (case try_dispatch uuid4 now topic q1 of (ts, q2) \<Rightarrow> (r, ts, q2)))"

text \<open>\<open>_invoke_handler\<close>: what remains to be done once the handler has returned or raised.\<close>

definition invoke_handler_result ::
  "(nat \<Rightarrow> string) \<Rightarrow> real \<Rightarrow> string \<Rightarrow> pyexn option \<Rightarrow> string \<Rightarrow> 'h work_queue \<Rightarrow>
   'h thread list \<times> 'h work_queue" where
  "invoke_handler_result uuid4 now date raised delivery_id q =
     (case raised of
        None \<Rightarrow> ([], q)
      | Some e \<Rightarrow>
          if is_Exc e then (case wq_nack uuid4 now date delivery_id True q of (r, ts, q1) \<Rightarrow> (ts, q1))
          else ([], q))"

definition pending_count :: "string \<Rightarrow> 'h work_queue \<Rightarrow> nat" where
  "pending_count topic q = length (pending_of q topic)"

definition in_flight_count :: "string option \<Rightarrow> 'h work_queue \<Rightarrow> nat" where
  "in_flight_count topic q = (case topic of
       None \<Rightarrow> length (wq_in_flight q)
     | Some t \<Rightarrow> length (filter (\<lambda>(_, entry). e_topic entry = t) (wq_in_flight q)))"

section \<open>Reaper and shutdown\<close>

text \<open>
  One sweep of \<open>_reaper_loop\<close>, up to the release of the lock. The first loop removes the expired
  entries, the second requeues or dead-letters them; the result is the set of requeued topics. An
  operation on a header that is not a number raises and ends the thread, with what was done so far.
\<close>

definition expired :: "real \<Rightarrow> in_flight_entry \<Rightarrow> bool option" where
  "expired now entry =
     map_option (\<lambda>vt. vt \<le> now - e_delivered_at entry) (num_of (e_visibility_timeout entry))"

fun collect_expired ::
  "real \<Rightarrow> (string \<times> in_flight_entry) list \<Rightarrow> 'h work_queue \<Rightarrow> (pyexn + in_flight_entry list) \<times> 'h work_queue" where
  "collect_expired now [] q = (Inr [], q)"
| "collect_expired now ((delivery_id, entry) # items) q =
     (case expired now entry of
        None \<Rightarrow> (Inl type_error, q)
      | Some True \<Rightarrow>
          (case collect_expired now items (q\<lparr>wq_in_flight := dict_del delivery_id (wq_in_flight q)\<rparr>) of
             (Inl e, q') \<Rightarrow> (Inl e, q')
           | (Inr es, q') \<Rightarrow> (Inr (entry # es), q'))
      | Some False \<Rightarrow> collect_expired now items q)"

fun reap_entries ::
  "(nat \<Rightarrow> string) \<Rightarrow> string \<Rightarrow> in_flight_entry list \<Rightarrow> 'h work_queue \<Rightarrow> (pyexn + string list) \<times> 'h work_queue" where
  "reap_entries uuid4 date [] q = (Inr [], q)"
| "reap_entries uuid4 date (entry # es) q =
     (case py_plus1 (e_retry_count entry) of
        None \<Rightarrow> (Inl type_error, q)
      | Some new_retry \<Rightarrow>
          if below new_retry (wq_max_retries q)
          then (case reap_entries uuid4 date es (requeue_front entry new_retry q) of
                  (Inl e, q') \<Rightarrow> (Inl e, q')
                | (Inr topics, q') \<Rightarrow> (Inr (List.insert (e_topic entry) topics), q'))
          else reap_entries uuid4 date es
                 (dead_letter uuid4 date (e_message entry) (e_topic entry) ''visibility_timeout_exceeded'' q))"

definition reaper_sweep ::
  "(nat \<Rightarrow> string) \<Rightarrow> real \<Rightarrow> string \<Rightarrow> 'h work_queue \<Rightarrow> (pyexn + string list) \<times> 'h work_queue" where
  "reaper_sweep uuid4 now date q =
     (case collect_expired now (wq_in_flight q) q of
        (Inl e, q1) \<Rightarrow> (Inl e, q1)
      | (Inr es, q1) \<Rightarrow> reap_entries uuid4 date es q1)"

definition wq_close :: "('s, unit) py \<Rightarrow> ('h work_queue \<times> 's, unit) py" where
  "wq_close super_close = (\<lambda>(q, s).
     case super_close s of (r, s') \<Rightarrow>
       (r, (q\<lparr>wq_reaper_running := False, wq_closed := True, wq_pending := [], wq_in_flight := [],
             wq_groups := [], wq_registry := []\<rparr>, s')))"

end
