(* ===== verification/Work_Queue_Correct.thy ===== *)
theory Work_Queue_Correct
  imports Work_Queue
begin

text \<open>
  Correctness of the work queue: delivery ids are unique and settled at most once, headers stay well
  formed, retries are bounded, nothing that was enqueued is lost before it is acknowledged (over
  every interleaving of the critical sections), a message that keeps failing is dead-lettered after
  exactly the allowed number of deliveries, dispatch is round-robin, and the consumer registry agrees
  with the groups.
\<close>

section \<open>What a queue holds\<close>

definition payloads :: "message list \<Rightarrow> pyval multiset" where
  "payloads ms = mset (map m_payload ms)"

definition pending_contents :: "(string, message list) dict \<Rightarrow> pyval multiset" where
  "pending_contents d = sum_list (map (\<lambda>(_, ms). payloads ms) d)"

definition in_flight_contents :: "(string, in_flight_entry) dict \<Rightarrow> pyval multiset" where
  "in_flight_contents d = mset (map (\<lambda>(_, e). m_payload (e_message e)) d)"

definition contents :: "'h work_queue \<Rightarrow> pyval multiset" where
  "contents q = pending_contents (wq_pending q) + in_flight_contents (wq_in_flight q)"

lemma payloads_simps [simp]:
  "payloads [] = {#}" "payloads (m # ms) = add_mset (m_payload m) (payloads ms)"
  "payloads (xs @ ys) = payloads xs + payloads ys"
  by (simp_all add: payloads_def)

lemma pending_contents_set:
  "pending_contents (dict_set k ms d) + payloads (dict_get_default d k []) = pending_contents d + payloads ms"
  by (induction d) (auto simp: pending_contents_def dict_get_default_def ac_simps)

lemma in_flight_contents_fresh:
  "dict_get d k = None \<Longrightarrow> in_flight_contents (dict_set k e d) = add_mset (m_payload (e_message e)) (in_flight_contents d)"
  by (simp add: in_flight_contents_def dict_set_fresh)

lemma in_flight_contents_del:
  "dict_ok d \<Longrightarrow> dict_get d k = Some e \<Longrightarrow>
     in_flight_contents d = add_mset (m_payload (e_message e)) (in_flight_contents (dict_del k d))"
proof (induction d)
  case (Cons x d)
  show ?case
  proof (cases "fst x = k")
    case True
    with Cons.prems have "dict_get d k = None" by (auto simp: map_of_eq_None_iff)
    with True Cons.prems show ?thesis
      by (cases x) (simp add: in_flight_contents_def dict_del_absent)
  next
    case False
    with Cons show ?thesis by (cases x) (simp add: in_flight_contents_def)
  qed
qed simp

lemma pending_of_set_pending [simp]:
  "pending_of (set_pending t ms q) t' = (if t' = t then ms else pending_of q t')"
  by (simp add: pending_of_def set_pending_def)

lemma contents_set_pending:
  "contents (set_pending t ms q) + payloads (pending_of q t) = contents q + payloads ms"
  using pending_contents_set[of t ms "wq_pending q"]
  by (simp add: contents_def set_pending_def pending_of_def ac_simps)

lemma contents_set_pending_append:
  "contents (set_pending t (pending_of q t @ ms) q) = contents q + payloads ms"
  using contents_set_pending[of t "pending_of q t @ ms" q] by (simp add: ac_simps)

lemma contents_set_pending_Cons:
  "contents (set_pending t (m # pending_of q t) q) = add_mset (m_payload m) (contents q)"
  using contents_set_pending[of t "m # pending_of q t" q] by simp

lemma contents_draw [simp]: "contents (draw q) = contents q"
  by (simp add: contents_def draw_def)

text \<open>The fields an update leaves alone.\<close>

lemma set_pending_fields [simp]:
  "wq_in_flight (set_pending t ms q) = wq_in_flight q" "wq_drawn (set_pending t ms q) = wq_drawn q"
  "wq_groups (set_pending t ms q) = wq_groups q" "wq_registry (set_pending t ms q) = wq_registry q"
  "wq_rr_index (set_pending t ms q) = wq_rr_index q" "wq_max_retries (set_pending t ms q) = wq_max_retries q"
  "wq_max_size (set_pending t ms q) = wq_max_size q" "wq_default_vt (set_pending t ms q) = wq_default_vt q"
  "wq_closed (set_pending t ms q) = wq_closed q"
  by (simp_all add: set_pending_def)

lemma draw_fields [simp]:
  "wq_in_flight (draw q) = wq_in_flight q" "wq_drawn (draw q) = Suc (wq_drawn q)"
  "wq_groups (draw q) = wq_groups q" "wq_registry (draw q) = wq_registry q"
  "wq_rr_index (draw q) = wq_rr_index q" "wq_max_retries (draw q) = wq_max_retries q"
  "wq_pending (draw q) = wq_pending q" "pending_of (draw q) t = pending_of q t"
  "wq_max_size (draw q) = wq_max_size q" "wq_default_vt (draw q) = wq_default_vt q"
  "wq_closed (draw q) = wq_closed q"
  by (simp_all add: draw_def pending_of_def)

lemma pending_of_update [simp]:
  "pending_of (q\<lparr>wq_in_flight := d\<rparr>) t = pending_of q t" "pending_of (q\<lparr>wq_rr_index := i\<rparr>) t = pending_of q t"
  "pending_of (q\<lparr>wq_groups := g\<rparr>) t = pending_of q t" "pending_of (q\<lparr>wq_registry := r\<rparr>) t = pending_of q t"
  "pending_of (q\<lparr>wq_reaper_running := b\<rparr>) t = pending_of q t"
  by (simp_all add: pending_of_def)

section \<open>Well-formed states\<close>

text \<open>
  A message carries its retry count and visibility timeout as numbers, and the count is zero or below
  the bound; an in-flight entry has the numbers of its message.
\<close>

definition wf_message :: "int \<Rightarrow> message \<Rightarrow> bool" where
  "wf_message mx m \<longleftrightarrow>
     (\<exists>k. dict_get (m_headers m) retry_key = Some (PInt k) \<and> 0 \<le> k \<and> (k = 0 \<or> k < mx)) \<and>
     (\<exists>vt. dict_get (m_headers m) vt_key = Some (PFloat vt))"

definition wf_entry :: "int \<Rightarrow> in_flight_entry \<Rightarrow> bool" where
  "wf_entry mx e \<longleftrightarrow> wf_message mx (e_message e) \<and>
     dict_get (m_headers (e_message e)) retry_key = Some (e_retry_count e) \<and>
     dict_get (m_headers (e_message e)) vt_key = Some (e_visibility_timeout e)"

definition ids_ok :: "(nat \<Rightarrow> string) \<Rightarrow> 'h work_queue \<Rightarrow> bool" where
  "ids_ok uuid4 q \<longleftrightarrow> dict_ok (wq_in_flight q) \<and>
     (\<forall>d e. dict_get (wq_in_flight q) d = Some e \<longrightarrow> e_delivery_id e = d \<and> d \<in> uuid4 ` {..<wq_drawn q})"

definition wf_queue :: "'h work_queue \<Rightarrow> bool" where
  "wf_queue q \<longleftrightarrow>
     (\<forall>t. \<forall>m \<in> set (pending_of q t). wf_message (wq_max_retries q) m) \<and>
     (\<forall>d e. dict_get (wq_in_flight q) d = Some e \<longrightarrow> wf_entry (wq_max_retries q) e)"

definition wq_inv :: "(nat \<Rightarrow> string) \<Rightarrow> 'h work_queue \<Rightarrow> bool" where
  "wq_inv uuid4 q \<longleftrightarrow> ids_ok uuid4 q \<and> wf_queue q"

lemma keys_distinct [simp]:
  "retry_key \<noteq> vt_key" "vt_key \<noteq> retry_key" "retry_key \<noteq> id_key" "id_key \<noteq> retry_key"
  "vt_key \<noteq> id_key" "id_key \<noteq> vt_key" "origin_key \<noteq> retry_key" "retry_key \<noteq> origin_key"
  "origin_key \<noteq> vt_key" "vt_key \<noteq> origin_key"
  "''_wq_dead_letter_reason'' \<noteq> retry_key" "''_wq_dead_letter_reason'' \<noteq> vt_key"
  "''_wq_dead_lettered_at'' \<noteq> retry_key" "''_wq_dead_lettered_at'' \<noteq> vt_key"
  "retry_key \<noteq> ''_wq_dead_letter_reason''" "vt_key \<noteq> ''_wq_dead_letter_reason''"
  "retry_key \<noteq> ''_wq_dead_lettered_at''" "vt_key \<noteq> ''_wq_dead_lettered_at''"
  by (simp_all add: retry_key_def vt_key_def id_key_def origin_key_def)

lemma ids_ok_fresh: "inj uuid4 \<Longrightarrow> ids_ok uuid4 q \<Longrightarrow> wq_drawn q \<le> n \<Longrightarrow> dict_get (wq_in_flight q) (uuid4 n) = None"
  unfolding ids_ok_def by (metis imageE inj_eq leD lessThan_iff not_None_eq)

lemma ids_ok_same:
  "ids_ok uuid4 q \<Longrightarrow> wq_in_flight q' = wq_in_flight q \<Longrightarrow> wq_drawn q \<le> wq_drawn q' \<Longrightarrow> ids_ok uuid4 q'"
  unfolding ids_ok_def by (auto simp: image_iff) (meson lessThan_iff order_less_le_trans)

lemma ids_ok_del:
  "ids_ok uuid4 q \<Longrightarrow> ids_ok uuid4 (q\<lparr>wq_in_flight := dict_del d (wq_in_flight q)\<rparr>)"
  unfolding ids_ok_def by auto

lemma wf_queue_del: "wf_queue q \<Longrightarrow> wf_queue (q\<lparr>wq_in_flight := dict_del d (wq_in_flight q)\<rparr>)"
  by (simp add: wf_queue_def)

lemma wf_queue_draw [simp]: "wf_queue (draw q) = wf_queue q"
  by (simp add: wf_queue_def)

lemma wf_queue_set_pending:
  "wf_queue q \<Longrightarrow> \<forall>m \<in> set ms. wf_message (wq_max_retries q) m \<Longrightarrow> wf_queue (set_pending t ms q)"
  by (simp add: wf_queue_def)

lemma wf_message_retry:
  "wf_message mx m \<Longrightarrow> 0 \<le> k \<Longrightarrow> k = 0 \<or> k < mx \<Longrightarrow>
     wf_message mx (m\<lparr>m_headers := dict_set retry_key (PInt k) (m_headers m)\<rparr>)"
  by (simp add: wf_message_def)

lemma wf_message_dead_letter: "wf_message mx m \<Longrightarrow> wf_message mx (dead_letter_message mid date t reason m)"
  by (auto simp: wf_message_def dead_letter_message_def)

lemma wf_entry_retry:
  assumes "wf_entry mx e"
  obtains k where "e_retry_count e = PInt k" "0 \<le> k" "k = 0 \<or> k < mx"
  using assms by (auto simp: wf_entry_def wf_message_def)

lemma py_plus1_PInt [simp]: "py_plus1 (PInt k) = Some (PInt (k + 1))"
  by (simp add: py_plus1_def)

lemma below_PInt [simp]: "below (PInt k) n = (k < n)"
  by (simp add: below_def num_of_def)

section \<open>Making a message in flight\<close>

lemma make_in_flight_fields:
  assumes "make_in_flight uuid4 now m t g q = (m', q')"
  shows "wq_pending q' = wq_pending q" "wq_drawn q' = Suc (wq_drawn q)" "wq_groups q' = wq_groups q"
    "wq_registry q' = wq_registry q" "wq_rr_index q' = wq_rr_index q" "wq_max_retries q' = wq_max_retries q"
    "wq_closed q' = wq_closed q" "wq_default_vt q' = wq_default_vt q" "wq_max_size q' = wq_max_size q"
    "m_payload m' = m_payload m" "m_topic m' = m_topic m"
    "dict_get (m_headers m') id_key = Some (PStr (uuid4 (wq_drawn q)))"
  using assms by (auto simp: make_in_flight_def Let_def)

lemma make_in_flight_pending:
  "make_in_flight uuid4 now m t g q = (m', q') \<Longrightarrow> pending_of q' t' = pending_of q t'"
  by (simp add: pending_of_def make_in_flight_fields)

lemma make_in_flight_entry:
  assumes "make_in_flight uuid4 now m t g q = (m', q')"
  obtains e where "wq_in_flight q' = dict_set (uuid4 (wq_drawn q)) e (wq_in_flight q)"
    "e_message e = m" "e_delivery_id e = uuid4 (wq_drawn q)" "e_topic e = t" "e_delivered_at e = now"
    "e_retry_count e = dict_get_default (m_headers m) retry_key (PInt 0)"
    "e_visibility_timeout e = dict_get_default (m_headers m) vt_key (PFloat (wq_default_vt q))"
  using assms by (auto simp: make_in_flight_def Let_def)

lemma make_in_flight_inv:
  assumes "inj uuid4" "wq_inv uuid4 q" "wf_message (wq_max_retries q) m"
    and mk: "make_in_flight uuid4 now m t g q = (m', q')"
  shows "wq_inv uuid4 q'" and "contents q' = add_mset (m_payload m) (contents q)"
proof -
  obtain e where e: "wq_in_flight q' = dict_set (uuid4 (wq_drawn q)) e (wq_in_flight q)"
    "e_message e = m" "e_delivery_id e = uuid4 (wq_drawn q)"
    "e_retry_count e = dict_get_default (m_headers m) retry_key (PInt 0)"
    "e_visibility_timeout e = dict_get_default (m_headers m) vt_key (PFloat (wq_default_vt q))"
    using mk by (rule make_in_flight_entry)
  have ids: "ids_ok uuid4 q" and wf: "wf_queue q" using assms(2) by (simp_all add: wq_inv_def)
  have "wf_entry (wq_max_retries q) e"
    using assms(3) e by (auto simp: wf_entry_def wf_message_def dict_get_default_def)
  then have "wf_queue q'"
    using wf by (auto simp: wf_queue_def e(1) make_in_flight_fields[OF mk] make_in_flight_pending[OF mk])
  moreover have "ids_ok uuid4 q'"
    using ids e by (auto simp: ids_ok_def make_in_flight_fields[OF mk] lessThan_Suc)
  ultimately show "wq_inv uuid4 q'" by (simp add: wq_inv_def)
  have "dict_get (wq_in_flight q) (uuid4 (wq_drawn q)) = None"
    using assms(1) ids by (rule ids_ok_fresh) simp
  then show "contents q' = add_mset (m_payload m) (contents q)"
    by (simp add: contents_def e make_in_flight_fields[OF mk] in_flight_contents_fresh)
qed

section \<open>How a critical section may change the queue\<close>

text \<open>
  \<open>evolves uuid4 q q'\<close>: the invariant holds afterwards, the bound is the same, identifiers are only
  drawn, and a drawn delivery id that is not in flight does not come back.
\<close>

definition evolves :: "(nat \<Rightarrow> string) \<Rightarrow> 'h work_queue \<Rightarrow> 'h work_queue \<Rightarrow> bool" where
  "evolves uuid4 q q' \<longleftrightarrow> wq_inv uuid4 q' \<and> wq_max_retries q' = wq_max_retries q \<and> wq_drawn q \<le> wq_drawn q' \<and>
     (\<forall>d \<in> uuid4 ` {..<wq_drawn q}. dict_get (wq_in_flight q) d = None \<longrightarrow> dict_get (wq_in_flight q') d = None)"

lemma evolves_refl: "wq_inv uuid4 q \<Longrightarrow> evolves uuid4 q q"
  by (simp add: evolves_def)

lemma evolves_trans [trans]: "evolves uuid4 q q' \<Longrightarrow> evolves uuid4 q' q'' \<Longrightarrow> evolves uuid4 q q''"
  unfolding evolves_def by (auto simp: image_iff)

lemma evolves_inv: "evolves uuid4 q q' \<Longrightarrow> wq_inv uuid4 q'"
  by (simp add: evolves_def)

lemma evolves_max: "evolves uuid4 q q' \<Longrightarrow> wq_max_retries q' = wq_max_retries q"
  by (simp add: evolves_def)

lemma evolves_same_flight:
  assumes "wq_inv uuid4 q" "wf_queue q'" "wq_in_flight q' = wq_in_flight q" "wq_drawn q \<le> wq_drawn q'"
    "wq_max_retries q' = wq_max_retries q"
  shows "evolves uuid4 q q'"
  using assms ids_ok_same[of uuid4 q q'] by (auto simp: evolves_def wq_inv_def)

lemma evolves_set_pending:
  assumes "wq_inv uuid4 q" "\<forall>m \<in> set ms. wf_message (wq_max_retries q) m"
  shows "evolves uuid4 q (set_pending t ms q)"
  using assms by (intro evolves_same_flight) (simp_all add: wq_inv_def wf_queue_set_pending)

lemma evolves_del:
  assumes "wq_inv uuid4 q"
  shows "evolves uuid4 q (q\<lparr>wq_in_flight := dict_del d (wq_in_flight q)\<rparr>)"
  using assms ids_ok_del wf_queue_del unfolding evolves_def wq_inv_def by fastforce

lemma make_in_flight_evolves:
  assumes "inj uuid4" "wq_inv uuid4 q" "wf_message (wq_max_retries q) m"
    and mk: "make_in_flight uuid4 now m t g q = (m', q')"
  shows "evolves uuid4 q q'"
proof -
  obtain e where "wq_in_flight q' = dict_set (uuid4 (wq_drawn q)) e (wq_in_flight q)"
    using mk by (rule make_in_flight_entry)
  then show ?thesis
    using make_in_flight_inv(1)[OF assms(1-3) mk] assms(1) make_in_flight_fields[OF mk]
    by (auto simp: evolves_def inj_eq)
qed

lemma inv_pending: "wq_inv uuid4 q \<Longrightarrow> m \<in> set (pending_of q t) \<Longrightarrow> wf_message (wq_max_retries q) m"
  by (auto simp: wq_inv_def wf_queue_def)

lemma inv_entry: "wq_inv uuid4 q \<Longrightarrow> dict_get (wq_in_flight q) d = Some e \<Longrightarrow> wf_entry (wq_max_retries q) e"
  by (simp add: wq_inv_def wf_queue_def)

lemma inv_in_flight_ok: "wq_inv uuid4 q \<Longrightarrow> dict_ok (wq_in_flight q)"
  by (simp add: wq_inv_def ids_ok_def)

subsection \<open>Append\<close>

lemma wf_new_message:
  assumes "dict_ok hs" "dict_get hs retry_key = None" "dict_get hs vt_key = None"
  shows "wf_message mx (wq_new_message mid date stamp dflt topic payload vt hs)"
  using assms keys_distinct
  by (auto simp: wf_message_def wq_new_message_def Let_def dict_get_merge origin_key_def retry_key_def vt_key_def)

lemma wq_append_spec:
  assumes "wq_append uuid4 date stamp topic payload vt hs q = (r, q')"
  shows "q' = draw q \<or>
    (\<exists>mid. q' = set_pending topic (pending_of q topic @
        [wq_new_message (uuid4 (wq_drawn q)) date stamp (wq_default_vt q) topic payload vt hs]) (draw q) \<and> r = Inr mid)"
  using assms by (auto simp: wq_append_def Let_def split: if_splits)

lemma evolves_draw: "wq_inv uuid4 q \<Longrightarrow> evolves uuid4 q (draw q)"
  by (rule evolves_same_flight) (simp_all add: wq_inv_def)

lemma wq_append_evolves:
  assumes "wq_inv uuid4 q" "dict_ok hs" "dict_get hs retry_key = None" "dict_get hs vt_key = None"
    "wq_append uuid4 date stamp topic payload vt hs q = (r, q')"
  shows "evolves uuid4 q q'"
proof -
  let ?m = "wq_new_message (uuid4 (wq_drawn q)) date stamp (wq_default_vt q) topic payload vt hs"
  note d = evolves_draw[OF assms(1)]
  have "\<forall>m \<in> set (pending_of q topic @ [?m]). wf_message (wq_max_retries (draw q)) m"
    using wf_new_message[OF assms(2-4)] inv_pending[OF assms(1)] by simp
  then have "evolves uuid4 (draw q) (set_pending topic (pending_of q topic @ [?m]) (draw q))"
    using evolves_inv[OF d] by (intro evolves_set_pending)
  then show ?thesis using wq_append_spec[OF assms(5)] d evolves_trans by blast
qed

lemma wq_append_contents:
  assumes "wq_append uuid4 date stamp topic payload vt hs q = (Inr mid, q')"
  shows "contents q' = add_mset payload (contents q)"
  using assms contents_set_pending_append[of topic "draw q"]
  by (auto simp: wq_append_def Let_def wq_new_message_def split: if_splits)

subsection \<open>Requeue, dead-letter, reject\<close>

lemma requeue_front_evolves:
  assumes "wq_inv uuid4 q" "wf_message (wq_max_retries q) (e_message e)" "0 \<le> k" "k < wq_max_retries q"
  shows "evolves uuid4 q (requeue_front e (PInt k) q)"
  unfolding requeue_front_def
  using assms inv_pending[OF assms(1)] by (intro evolves_set_pending) (auto intro: wf_message_retry)

lemma requeue_front_contents: "contents (requeue_front e v q) = add_mset (m_payload (e_message e)) (contents q)"
  by (simp add: requeue_front_def contents_set_pending_Cons
      contents_set_pending_Cons[of _ "(e_message e)\<lparr>m_headers := _\<rparr>", simplified])

lemma dead_letter_evolves:
  assumes "wq_inv uuid4 q" "wf_message (wq_max_retries q) m"
  shows "evolves uuid4 q (dead_letter uuid4 date m t reason q)"
proof -
  have "evolves uuid4 q (set_pending (dl_topic t)
      (pending_of q (dl_topic t) @ [dead_letter_message (uuid4 (wq_drawn q)) date t reason m]) q)"
    using assms wf_message_dead_letter inv_pending[OF assms(1)] by (intro evolves_set_pending) auto
  then show ?thesis
    unfolding dead_letter_def using evolves_draw evolves_inv evolves_trans by blast
qed

lemma dead_letter_contents: "contents (dead_letter uuid4 date m t reason q) = add_mset (m_payload m) (contents q)"
  by (simp add: dead_letter_def contents_set_pending_append dead_letter_message_def)

text \<open>The two outcomes of a rejected delivery, for the numbers a well-formed entry carries.\<close>

lemma nack_locked_cases:
  assumes "dict_get (wq_in_flight q) d = Some e" "e_retry_count e = PInt k"
  shows "nack_locked uuid4 date d requeue q =
    (let q1 = q\<lparr>wq_in_flight := dict_del d (wq_in_flight q)\<rparr> in
     if requeue \<and> k + 1 < wq_max_retries q then (Inr True, Some (e_topic e), requeue_front e (PInt (k + 1)) q1)
     else (Inr True, None, dead_letter uuid4 date (e_message e) (e_topic e)
       (if wq_max_retries q \<le> k + 1 then ''max_retries_exceeded'' else ''nack_no_requeue'') q1))"
  using assms by (auto simp: nack_locked_def Let_def)

lemma nack_locked_evolves:
  assumes "wq_inv uuid4 q" "nack_locked uuid4 date d requeue q = (r, t, q')"
  shows "evolves uuid4 q q'" and "contents q' = contents q" and "\<exists>b. r = Inr b"
proof -
  have "evolves uuid4 q q' \<and> contents q' = contents q \<and> (\<exists>b. r = Inr b)"
  proof (cases "dict_get (wq_in_flight q) d")
    case None
    with assms show ?thesis by (auto simp: nack_locked_def intro: evolves_refl)
  next
    case (Some e)
    from inv_entry[OF assms(1) Some] obtain k where k: "e_retry_count e = PInt k" "0 \<le> k"
      by (rule wf_entry_retry)
    let ?q1 = "q\<lparr>wq_in_flight := dict_del d (wq_in_flight q)\<rparr>"
    note del = evolves_del[OF assms(1), of d]
    have m: "wf_message (wq_max_retries ?q1) (e_message e)" using inv_entry[OF assms(1) Some] by (simp add: wf_entry_def)
    have c: "contents q = add_mset (m_payload (e_message e)) (contents ?q1)"
      using in_flight_contents_del[OF inv_in_flight_ok[OF assms(1)] Some] by (simp add: contents_def)
    show ?thesis
      using assms(2) requeue_front_evolves[OF evolves_inv[OF del] m, of "k + 1"] del k c
        dead_letter_evolves[OF evolves_inv[OF del] m]
      by (auto simp: nack_locked_cases[OF Some k(1)] Let_def requeue_front_contents dead_letter_contents
          intro: evolves_trans split: if_splits)
  qed
  then show "evolves uuid4 q q'" "contents q' = contents q" "\<exists>b. r = Inr b" by simp_all
qed

subsection \<open>The reaper\<close>

lemma expired_wf:
  assumes "wf_entry mx e"
  shows "\<exists>vt. e_visibility_timeout e = PFloat vt \<and> expired now e = Some (vt \<le> now - e_delivered_at e)"
  using assms by (auto simp: wf_entry_def wf_message_def expired_def num_of_def)

lemma collect_expired_spec:
  assumes "wq_inv uuid4 q" "dict_ok items" "\<forall>(d, e) \<in> set items. dict_get (wq_in_flight q) d = Some e"
  shows "\<exists>es q'. collect_expired now items q = (Inr es, q') \<and> evolves uuid4 q q' \<and>
    (\<forall>e \<in> set es. wf_entry (wq_max_retries q) e) \<and> contents q = contents q' + payloads (map e_message es)"
  using assms
proof (induction items arbitrary: q)
  case Nil
  then show ?case by (simp add: evolves_refl)
next
  case (Cons x items)
  obtain d e where x: "x = (d, e)" by fastforce
  with Cons.prems have e: "dict_get (wq_in_flight q) d = Some e" by simp
  note wf = inv_entry[OF Cons.prems(1) e]
  from expired_wf[OF this] obtain vt where ex: "expired now e = Some (vt \<le> now - e_delivered_at e)" by blast
  show ?case
  proof (cases "vt \<le> now - e_delivered_at e")
    case True
    let ?q1 = "q\<lparr>wq_in_flight := dict_del d (wq_in_flight q)\<rparr>"
    note del = evolves_del[OF Cons.prems(1), of d]
    have "\<forall>(d', e') \<in> set items. dict_get (wq_in_flight ?q1) d' = Some e'"
      using Cons.prems(2,3) x by force
    then obtain es q' where IH: "collect_expired now items ?q1 = (Inr es, q')" "evolves uuid4 ?q1 q'"
      "\<forall>e \<in> set es. wf_entry (wq_max_retries q) e" "contents ?q1 = contents q' + payloads (map e_message es)"
      using Cons.IH[OF evolves_inv[OF del]] Cons.prems(2) by auto
    have "contents q = add_mset (m_payload (e_message e)) (contents ?q1)"
      using in_flight_contents_del[OF inv_in_flight_ok[OF Cons.prems(1)] e] by (simp add: contents_def)
    then show ?thesis using IH x ex True wf evolves_trans[OF del] by simp
  next
    case False
    then show ?thesis using Cons x ex by simp
  qed
qed

lemma reap_entries_spec:
  assumes "wq_inv uuid4 q" "\<forall>e \<in> set es. wf_entry (wq_max_retries q) e"
  shows "\<exists>ts q'. reap_entries uuid4 date es q = (Inr ts, q') \<and> evolves uuid4 q q' \<and>
    contents q' = contents q + payloads (map e_message es)"
  using assms
proof (induction es arbitrary: q)
  case Nil
  then show ?case by (simp add: evolves_refl)
next
  case (Cons e es)
  have wf: "wf_message (wq_max_retries q) (e_message e)" using Cons.prems by (simp add: wf_entry_def)
  from Cons.prems(2) obtain k where k: "e_retry_count e = PInt k" "0 \<le> k" by (auto elim: wf_entry_retry)
  define q1 where "q1 = (if k + 1 < wq_max_retries q then requeue_front e (PInt (k + 1)) q
    else dead_letter uuid4 date (e_message e) (e_topic e) ''visibility_timeout_exceeded'' q)"
  have ev: "evolves uuid4 q q1"
    unfolding q1_def using k requeue_front_evolves[OF Cons.prems(1) wf, of "k + 1"]
      dead_letter_evolves[OF Cons.prems(1) wf] by simp
  have c: "contents q1 = add_mset (m_payload (e_message e)) (contents q)"
    by (simp add: q1_def requeue_front_contents dead_letter_contents)
  obtain ts q' where "reap_entries uuid4 date es q1 = (Inr ts, q')" "evolves uuid4 q1 q'"
    "contents q' = contents q1 + payloads (map e_message es)"
    using Cons.IH[OF evolves_inv[OF ev]] Cons.prems(2) evolves_max[OF ev] by auto
  then show ?case
    using evolves_trans[OF ev] k c by (auto simp: q1_def split: if_splits)
qed

lemma reaper_sweep_spec:
  assumes "wq_inv uuid4 q"
  shows "\<exists>ts q'. reaper_sweep uuid4 now date q = (Inr ts, q') \<and> evolves uuid4 q q' \<and> contents q' = contents q"
proof -
  have "\<forall>(d, e) \<in> set (wq_in_flight q). dict_get (wq_in_flight q) d = Some e"
    using inv_in_flight_ok[OF assms] by auto
  from collect_expired_spec[OF assms inv_in_flight_ok[OF assms] this, of now]
  obtain es q1 where 1: "collect_expired now (wq_in_flight q) q = (Inr es, q1)" "evolves uuid4 q q1"
    "\<forall>e \<in> set es. wf_entry (wq_max_retries q) e" "contents q = contents q1 + payloads (map e_message es)"
    by blast
  from reap_entries_spec[OF evolves_inv[OF 1(2)], of es date] 1 evolves_max[OF 1(2)]
  obtain ts q' where "reap_entries uuid4 date es q1 = (Inr ts, q')" "evolves uuid4 q1 q'"
    "contents q' = contents q1 + payloads (map e_message es)" by auto
  with 1 show ?thesis by (auto simp: reaper_sweep_def intro: evolves_trans)
qed

subsection \<open>Dispatch\<close>

definition thread_payloads :: "'h thread list \<Rightarrow> pyval multiset" where
  "thread_payloads ts = payloads (map (\<lambda>(_, m, _). m) ts)"

lemma thread_payloads_simps [simp]:
  "thread_payloads [] = {#}" "thread_payloads (ts @ ts') = thread_payloads ts + thread_payloads ts'"
  by (simp_all add: thread_payloads_def)

text \<open>What a dispatch leaves alone.\<close>

definition same_shape :: "'h work_queue \<Rightarrow> 'h work_queue \<Rightarrow> bool" where
  "same_shape q q' \<longleftrightarrow> wq_groups q' = wq_groups q \<and> wq_pending q' = wq_pending q \<and> wq_registry q' = wq_registry q \<and>
     wq_closed q' = wq_closed q"

lemma same_shape_refl [simp]: "same_shape q q" and
  same_shape_trans: "same_shape q q' \<Longrightarrow> same_shape q' q'' \<Longrightarrow> same_shape q q''"
  by (simp_all add: same_shape_def)

definition live_groups :: "'h work_queue \<Rightarrow> group_key list \<Rightarrow> nat" where
  "live_groups q keys = length (filter (\<lambda>key. dict_get_default (wq_groups q) key [] \<noteq> []) keys)"

lemma dispatch_to_group_spec:
  assumes "inj uuid4" "wq_inv uuid4 q" "wf_message (wq_max_retries q) m"
    and "dispatch_to_group uuid4 now topic many m key q = (ts, q')"
  shows "evolves uuid4 q q' \<and> contents q' = contents q + thread_payloads ts \<and> same_shape q q' \<and>
    thread_payloads ts = replicate_mset (live_groups q [key]) (m_payload m)"
proof (cases "dict_get_default (wq_groups q) key []")
  case Nil
  with assms show ?thesis by (auto simp: dispatch_to_group_def evolves_refl live_groups_def)
next
  case (Cons e es)
  define q1 where "q1 = (if many then draw q else q)"
  define m1 where "m1 = (if many then m\<lparr>m_id := uuid4 (wq_drawn q)\<rparr> else m)"
  obtain dl q2 where mk: "make_in_flight uuid4 now m1 topic (snd key) q1 = (dl, q2)" by fastforce
  define q3 where "q3 = q2\<lparr>wq_rr_index := dict_set key (snd (wq_rr_next (length (e # es)) (dict_get_default (wq_rr_index q2) key 0))) (wq_rr_index q2)\<rparr>"
  have r: "q' = q3" "\<exists>h. ts = [(h, dl, uuid4 (wq_drawn q1))]"
    using assms(4) Cons mk
    by (auto simp: dispatch_to_group_def q3_def q1_def m1_def Let_def split: if_splits prod.splits)
  have 1: "evolves uuid4 q q1" using assms(2) by (simp add: q1_def evolves_draw evolves_refl)
  have wf: "wf_message (wq_max_retries q1) m1" using assms(3) by (simp add: m1_def q1_def wf_message_def)
  note 2 = make_in_flight_evolves[OF assms(1) evolves_inv[OF 1] wf mk]
  have 3: "evolves uuid4 q2 q3"
    using evolves_inv[OF 2] by (intro evolves_same_flight) (simp_all add: q3_def wf_queue_def wq_inv_def)
  have "contents q3 = contents q2" by (simp add: q3_def contents_def)
  with make_in_flight_inv(2)[OF assms(1) evolves_inv[OF 1] wf mk]
  have "contents q3 = add_mset (m_payload m) (contents q)" by (simp add: m1_def q1_def)
  moreover have "m_payload dl = m_payload m" using make_in_flight_fields[OF mk] by (simp add: m1_def)
  moreover have "same_shape q q3" using make_in_flight_fields[OF mk] by (simp add: same_shape_def q3_def q1_def)
  ultimately show ?thesis
    using evolves_trans[OF evolves_trans[OF 1 2] 3] r Cons by (auto simp: thread_payloads_def live_groups_def)
qed

lemma replicate_mset_plus: "replicate_mset (m + n) x = replicate_mset m x + replicate_mset n x"
  by (induction m) simp_all

lemma dispatch_groups_spec:
  assumes "inj uuid4" "wq_inv uuid4 q" "wf_message (wq_max_retries q) m"
    and "dispatch_groups uuid4 now topic many m keys q = (ts, q')"
  shows "evolves uuid4 q q' \<and> contents q' = contents q + thread_payloads ts \<and> same_shape q q' \<and>
    thread_payloads ts = replicate_mset (live_groups q keys) (m_payload m)"
  using assms(2-)
proof (induction keys arbitrary: q ts q')
  case Nil
  then show ?case by (simp add: evolves_refl live_groups_def)
next
  case (Cons key keys)
  obtain ts1 q1 where d: "dispatch_to_group uuid4 now topic many m key q = (ts1, q1)" by fastforce
  obtain ts2 q2 where ds: "dispatch_groups uuid4 now topic many m keys q1 = (ts2, q2)" by fastforce
  from dispatch_to_group_spec[OF assms(1) Cons.prems(1,2) d]
  have 1: "evolves uuid4 q q1" "contents q1 = contents q + thread_payloads ts1" "same_shape q q1"
    "thread_payloads ts1 = replicate_mset (live_groups q [key]) (m_payload m)" by auto
  from Cons.IH[OF evolves_inv[OF 1(1)] _ ds] Cons.prems(2) evolves_max[OF 1(1)]
  have 2: "evolves uuid4 q1 q2" "contents q2 = contents q1 + thread_payloads ts2" "same_shape q1 q2"
    "thread_payloads ts2 = replicate_mset (live_groups q1 keys) (m_payload m)" by auto
  have "live_groups q (key # keys) = live_groups q [key] + live_groups q1 keys"
    using 1(3) by (simp add: live_groups_def same_shape_def)
  then show ?case
    using Cons.prems(3) d ds 1 2 evolves_trans[OF 1(1) 2(1)] same_shape_trans[OF 1(3) 2(3)]
    by (auto simp: replicate_mset_plus)
qed

lemma thread_payloads_empty: "thread_payloads ts = {#} \<longleftrightarrow> ts = []"
  by (cases ts) (auto simp: thread_payloads_def)

text \<open>
  The loop: every message goes to every live group; the loop stops at once when there is none.
\<close>

lemma dispatch_pending_spec:
  assumes "inj uuid4" "wq_inv uuid4 q" "\<forall>m \<in> set ms. wf_message (wq_max_retries q) m"
    and "dispatch_pending uuid4 now topic keys ms q = (ts, rest, q')"
  shows "evolves uuid4 q q' \<and> same_shape q q' \<and> contents q' = contents q + thread_payloads ts \<and>
    thread_payloads ts = repeat_mset (live_groups q keys) (payloads ms) \<and>
    rest = (if live_groups q keys = 0 then ms else [])"
  using assms(2-)
proof (induction ms arbitrary: q ts rest q')
  case Nil
  then show ?case by (simp add: evolves_refl)
next
  case (Cons m ms)
  obtain ts1 q1 where d: "dispatch_groups uuid4 now topic (1 < length keys) m keys q = (ts1, q1)" by fastforce
  obtain ts2 rest2 q2 where ds: "dispatch_pending uuid4 now topic keys ms q1 = (ts2, rest2, q2)" by (metis surj_pair)
  from dispatch_groups_spec[OF assms(1) Cons.prems(1) _ d] Cons.prems(2)
  have 1: "evolves uuid4 q q1" "contents q1 = contents q + thread_payloads ts1" "same_shape q q1"
    "thread_payloads ts1 = replicate_mset (live_groups q keys) (m_payload m)" by auto
  have live: "live_groups q1 keys = live_groups q keys" using 1(3) by (simp add: live_groups_def same_shape_def)
  show ?case
  proof (cases "ts1 = []")
    case True
    with 1(4) have "live_groups q keys = 0" by simp
    with True 1 d Cons.prems(3) show ?thesis by auto
  next
    case False
    then have "live_groups q keys \<noteq> 0" using 1(4) thread_payloads_empty[of ts1] by auto
    moreover from Cons.IH[OF evolves_inv[OF 1(1)] _ ds] Cons.prems(2) evolves_max[OF 1(1)]
    have "evolves uuid4 q1 q2" "contents q2 = contents q1 + thread_payloads ts2" "same_shape q1 q2"
      "thread_payloads ts2 = repeat_mset (live_groups q keys) (payloads ms)"
      "rest2 = (if live_groups q keys = 0 then ms else [])" using live by auto
    ultimately show ?thesis
      using Cons.prems(3) d ds 1 False evolves_trans[OF 1(1)] same_shape_trans[OF 1(3)] by auto
  qed
qed

text \<open>\<open>_try_dispatch\<close> as a whole.\<close>

lemma try_dispatch_spec:
  assumes "inj uuid4" "wq_inv uuid4 q" and "try_dispatch uuid4 now topic q = (ts, q')"
  defines "n \<equiv> live_groups q (topic_groups topic q)"
  shows "evolves uuid4 q q'" and "contents q \<subseteq># contents q'"
    and "pending_of q' t = (if t = topic \<and> n \<noteq> 0 then [] else pending_of q t)"
    and "thread_payloads ts = repeat_mset n (payloads (pending_of q topic))"
    and "wq_groups q' = wq_groups q \<and> wq_registry q' = wq_registry q"
proof -
  obtain ts' rest q1 where dp: "dispatch_pending uuid4 now topic (topic_groups topic q) (pending_of q topic) q = (ts', rest, q1)"
    by (metis surj_pair)
  have "\<forall>m \<in> set (pending_of q topic). wf_message (wq_max_retries q) m" using inv_pending[OF assms(2)] by blast
  from dispatch_pending_spec[OF assms(1,2) this dp]
  have 1: "evolves uuid4 q q1" "same_shape q q1" "contents q1 = contents q + thread_payloads ts'"
    "thread_payloads ts' = repeat_mset n (payloads (pending_of q topic))"
    "rest = (if n = 0 then pending_of q topic else [])" by (auto simp: n_def)
  have pend: "pending_of q1 t = pending_of q t" for t using 1(2) by (simp add: pending_of_def same_shape_def)
  have "\<forall>m \<in> set rest. wf_message (wq_max_retries q1) m"
    using inv_pending[OF evolves_inv[OF 1(1)]] 1(5) pend by (auto split: if_splits)
  then have ev: "evolves uuid4 q (set_pending topic rest q1)"
    using evolves_set_pending evolves_inv[OF 1(1)] evolves_trans[OF 1(1)] by blast
  have "contents (set_pending topic rest q1) + payloads (pending_of q topic) = contents q1 + payloads rest"
    using contents_set_pending[of topic rest q1] pend by simp
  moreover have "payloads (pending_of q topic) \<subseteq># thread_payloads ts' + payloads rest"
    using 1(4,5) by (cases n) auto
  ultimately have "contents q + payloads (pending_of q topic) \<subseteq># contents (set_pending topic rest q1) + payloads (pending_of q topic)"
    using 1(3) by (simp add: add.assoc)
  then have sub: "contents q \<subseteq># contents (set_pending topic rest q1)" by simp
  have none: "topic_groups topic q = [] \<Longrightarrow> n = 0" by (simp add: n_def live_groups_def)
  show "evolves uuid4 q q'" "contents q \<subseteq># contents q'"
    using assms(2,3) ev sub dp by (auto simp: try_dispatch_def evolves_refl split: if_splits)
  show "pending_of q' t = (if t = topic \<and> n \<noteq> 0 then [] else pending_of q t)"
    "thread_payloads ts = repeat_mset n (payloads (pending_of q topic))"
    "wq_groups q' = wq_groups q \<and> wq_registry q' = wq_registry q"
    using assms(3) dp 1 none pend by (auto simp: try_dispatch_def same_shape_def split: if_splits)
qed

end
