(* ===== verification/Work_Queue_System.thy ===== *)
theory Work_Queue_System
  imports Work_Queue_Correct
begin

text \<open>
  The work queue as a system: the consumer registry, the step relation that interleaves the critical
  sections of \<open>WorkQueue\<close> with the dispatch calls and the handler threads they leave behind, and the
  properties of every run: nothing is lost, retries are bounded, a delivery is settled at most once, no
  message is stranded while a push consumer is registered for its topic.
\<close>

section \<open>The consumer registry\<close>

definition entries_of :: "'h work_queue \<Rightarrow> group_key \<Rightarrow> (string \<times> 'h) list" where
  "entries_of q key = dict_get_default (wq_groups q) key []"

definition groups_ok :: "(nat \<Rightarrow> string) \<Rightarrow> 'h work_queue \<Rightarrow> bool" where
  "groups_ok uuid4 q \<longleftrightarrow> dict_ok (wq_groups q) \<and>
     (\<forall>key es. dict_get (wq_groups q) key = Some es \<longrightarrow> es \<noteq> []) \<and>
     (\<forall>key. distinct (map fst (entries_of q key))) \<and>
     (\<forall>cid key. dict_get (wq_registry q) cid = Some key \<longleftrightarrow> cid \<in> fst ` set (entries_of q key)) \<and>
     (\<forall>cid key. dict_get (wq_registry q) cid = Some key \<longrightarrow> cid \<in> uuid4 ` {..<wq_drawn q})"

lemma filter_other: "cid \<notin> fst ` set es \<Longrightarrow> filter (\<lambda>e. fst e \<noteq> cid) es = es"
  by (induction es) auto

lemma pop_consumer_filter: "distinct (map fst es) \<Longrightarrow> pop_consumer cid es = filter (\<lambda>e. fst e \<noteq> cid) es"
proof (induction es)
  case (Cons e es)
  have "fst e = cid \<Longrightarrow> filter (\<lambda>e. fst e \<noteq> cid) es = es"
    using Cons.prems by (intro filter_other) simp
  with Cons show ?case by simp
qed simp

lemma groups_ok_init: "groups_ok uuid4 (wq_init n vt mx)"
  by (simp add: groups_ok_def wq_init_def entries_of_def)

lemma groups_ok_same:
  "groups_ok uuid4 q \<Longrightarrow> wq_groups q' = wq_groups q \<Longrightarrow> wq_registry q' = wq_registry q \<Longrightarrow>
     wq_drawn q \<le> wq_drawn q' \<Longrightarrow> groups_ok uuid4 q'"
  unfolding groups_ok_def entries_of_def
  by (elim conjE, intro conjI) (simp_all, meson image_mono lessThan_subset_iff subsetD)

lemma groups_okD:
  assumes "groups_ok uuid4 q"
  shows "dict_ok (wq_groups q)" "distinct (map fst (entries_of q key))"
    "dict_get (wq_registry q) cid = Some key \<longleftrightarrow> cid \<in> fst ` set (entries_of q key)"
    "dict_get (wq_registry q) cid = Some key \<Longrightarrow> cid \<in> uuid4 ` {..<wq_drawn q}"
    "dict_get (wq_groups q) key = Some es \<Longrightarrow> es \<noteq> []"
  using assms unfolding groups_ok_def by blast+

lemma unregistered_absent:
  "groups_ok uuid4 q \<Longrightarrow> dict_get (wq_registry q) cid = None \<Longrightarrow> cid \<notin> fst ` set (entries_of q key)"
  using groups_okD(3)[of uuid4 q cid key] by simp

lemma groups_ok_not_elsewhere:
  assumes "groups_ok uuid4 q" "dict_get (wq_registry q) cid = Some key" "k \<noteq> key"
  shows "filter (\<lambda>e. fst e \<noteq> cid) (entries_of q k) = entries_of q k"
  using assms groups_okD(3)[OF assms(1), of cid k] by (intro filter_other) simp

lemma register_fields:
  assumes "wq_register uuid4 topic h grp q = (cid, q')"
  shows "cid = uuid4 (wq_drawn q)" and "wq_drawn q' = Suc (wq_drawn q)"
    and "wq_pending q' = wq_pending q" and "wq_in_flight q' = wq_in_flight q"
    and "wq_max_retries q' = wq_max_retries q"
    and "\<exists>group. wq_groups q' = dict_set (topic, group) (entries_of q (topic, group) @ [(cid, h)]) (wq_groups q) \<and>
      wq_registry q' = dict_set cid (topic, group) (wq_registry q)"
  using assms by (auto simp: wq_register_def Let_def entries_of_def)

lemma register_groups_ok:
  assumes "inj uuid4" "groups_ok uuid4 q" "wq_register uuid4 topic h grp q = (cid, q')"
  shows "groups_ok uuid4 q'"
proof -
  note f = register_fields[OF assms(3)]
  obtain group where g: "wq_groups q' = dict_set (topic, group) (entries_of q (topic, group) @ [(cid, h)]) (wq_groups q)"
    "wq_registry q' = dict_set cid (topic, group) (wq_registry q)" using f(6) by blast
  have e: "entries_of q' k = entries_of q k @ (if k = (topic, group) then [(cid, h)] else [])" for k
    by (simp add: entries_of_def g)
  have fresh: "dict_get (wq_registry q) cid = None"
    using groups_okD(4)[OF assms(2), of cid] assms(1) f(1) by (cases "dict_get (wq_registry q) cid") (auto simp: inj_eq)
  note new = unregistered_absent[OF assms(2) fresh]
  show ?thesis
    unfolding groups_ok_def
  proof (intro conjI allI impI)
    show "dict_ok (wq_groups q')" using assms(2) by (simp add: g groups_ok_def)
    show "es \<noteq> []" if "dict_get (wq_groups q') key = Some es" for key es
      using that groups_okD(5)[OF assms(2), of key es] by (auto simp: g split: if_splits)
    show "distinct (map fst (entries_of q' key))" for key
      using groups_okD(2)[OF assms(2), of key] new[of key] by (auto simp: e)
    show "dict_get (wq_registry q') c = Some key \<longleftrightarrow> c \<in> fst ` set (entries_of q' key)" for c key
      using groups_okD(3)[OF assms(2), of c key] new[of key] by (auto simp: e g)
    show "c \<in> uuid4 ` {..<wq_drawn q'}" if "dict_get (wq_registry q') c = Some key" for c key
      using that groups_okD(4)[OF assms(2), of c key] f(1,2) by (auto simp: g lessThan_Suc split: if_splits)
  qed
qed

lemma remove_fields:
  assumes "wq_remove_consumer cid q = (b, q')"
  shows "wq_drawn q' = wq_drawn q" "wq_pending q' = wq_pending q" "wq_in_flight q' = wq_in_flight q"
    "wq_max_retries q' = wq_max_retries q" "b \<longleftrightarrow> dict_get (wq_registry q) cid \<noteq> None"
  using assms by (auto simp: wq_remove_consumer_def Let_def split: option.splits list.splits if_splits)

text \<open>Exactly the given consumer goes.\<close>

lemma remove_entries:
  assumes "groups_ok uuid4 q" "wq_remove_consumer cid q = (b, q')"
  shows "entries_of q' k = filter (\<lambda>e. fst e \<noteq> cid) (entries_of q k)"
    and "wq_registry q' = dict_del cid (wq_registry q)"
proof -
  have "entries_of q' k = filter (\<lambda>e. fst e \<noteq> cid) (entries_of q k) \<and> wq_registry q' = dict_del cid (wq_registry q)"
  proof (cases "dict_get (wq_registry q) cid")
    case None
    then have "filter (\<lambda>e. fst e \<noteq> cid) (entries_of q k) = entries_of q k"
      using assms(1) by (intro filter_other unregistered_absent)
    with None assms(2) show ?thesis by (simp add: wq_remove_consumer_def dict_del_absent)
  next
    case (Some key)
    have ne: "entries_of q key \<noteq> []" and dis: "distinct (map fst (entries_of q key))"
      using Some groups_okD(2)[OF assms(1), of key] groups_okD(3)[OF assms(1), of cid key] by auto
    show ?thesis
      using assms(2) Some ne dis groups_ok_not_elsewhere[OF assms(1) Some, of k]
      by (auto simp: wq_remove_consumer_def Let_def entries_of_def pop_consumer_filter filter_other dict_get_default_def
          split: list.splits if_splits option.splits)
  qed
  then show "entries_of q' k = filter (\<lambda>e. fst e \<noteq> cid) (entries_of q k)"
    "wq_registry q' = dict_del cid (wq_registry q)" by simp_all
qed

lemma remove_groups_ok:
  assumes "groups_ok uuid4 q" "wq_remove_consumer cid q = (b, q')"
  shows "groups_ok uuid4 q'"
  unfolding groups_ok_def
proof (intro conjI allI impI)
  note e = remove_entries[OF assms]
  show "dict_ok (wq_groups q')"
    using groups_okD(1)[OF assms(1)] assms(2)
    by (auto simp: wq_remove_consumer_def Let_def split: option.splits list.splits if_splits)
  show "es \<noteq> []" if "dict_get (wq_groups q') key = Some es" for key es
    using that groups_okD(5)[OF assms(1), of key es] assms(2)
    by (auto simp: wq_remove_consumer_def Let_def split: option.splits list.splits if_splits)
  show "distinct (map fst (entries_of q' key))" for key
    using groups_okD(2)[OF assms(1), of key] by (simp add: e distinct_map_filter)
  show "dict_get (wq_registry q') c = Some key \<longleftrightarrow> c \<in> fst ` set (entries_of q' key)" for c key
    using groups_okD(3)[OF assms(1), of c key] by (auto simp: e)
  show "c \<in> uuid4 ` {..<wq_drawn q'}" if "dict_get (wq_registry q') c = Some key" for c key
    using that groups_okD(4)[OF assms(1), of c key] by (simp add: e remove_fields[OF assms(2)] split: if_splits)
qed

section \<open>Which topics an operation touches\<close>

definition is_dl :: "string \<Rightarrow> bool" where
  "is_dl t \<longleftrightarrow> (\<exists>t0. t = dl_topic t0)"

lemma not_dl [simp]: "\<not> is_dl t \<Longrightarrow> t \<noteq> dl_topic t0" "is_dl (dl_topic t0)"
  by (auto simp: is_dl_def)

lemma is_dl_length: "is_dl t \<Longrightarrow> 12 \<le> length t"
  by (auto simp: is_dl_def dl_topic_def)

lemma requeue_front_fields [simp]:
  "wq_groups (requeue_front e v q) = wq_groups q" "wq_registry (requeue_front e v q) = wq_registry q"
  "wq_drawn (requeue_front e v q) = wq_drawn q"
  "pending_of (requeue_front e v q) t = (if t = e_topic e
     then (e_message e)\<lparr>m_headers := dict_set retry_key v (m_headers (e_message e))\<rparr> # pending_of q t
     else pending_of q t)"
  by (simp_all add: requeue_front_def)

lemma dead_letter_fields [simp]:
  "wq_groups (dead_letter uuid4 date m t0 reason q) = wq_groups q"
  "wq_registry (dead_letter uuid4 date m t0 reason q) = wq_registry q"
  "\<not> is_dl t \<Longrightarrow> pending_of (dead_letter uuid4 date m t0 reason q) t = pending_of q t"
  by (simp_all add: dead_letter_def)

lemma nack_locked_touches:
  assumes "nack_locked uuid4 date d requeue q = (r, tt, q')"
  shows "wq_groups q' = wq_groups q" "wq_registry q' = wq_registry q"
    "\<not> is_dl t \<Longrightarrow> tt \<noteq> Some t \<Longrightarrow> pending_of q' t = pending_of q t"
  using assms by (auto simp: nack_locked_def Let_def split: option.splits if_splits)

lemma collect_expired_touches:
  "collect_expired now items q = (r, q') \<Longrightarrow>
     wq_groups q' = wq_groups q \<and> wq_registry q' = wq_registry q \<and> wq_pending q' = wq_pending q"
proof (induction now items q arbitrary: r q' rule: collect_expired.induct)
  case (2 now d e items q)
  then show ?case by (auto split: option.splits bool.splits prod.splits sum.splits)
qed simp

lemma reap_entries_touches:
  "reap_entries uuid4 date es q = (r, q') \<Longrightarrow>
     wq_groups q' = wq_groups q \<and> wq_registry q' = wq_registry q \<and>
     (\<forall>ts t. r = Inr ts \<longrightarrow> \<not> is_dl t \<longrightarrow> t \<notin> set ts \<longrightarrow> pending_of q' t = pending_of q t)"
proof (induction uuid4 date es q arbitrary: r q' rule: reap_entries.induct)
  case (2 uuid4 date e es q)
  show ?case
  proof (cases "py_plus1 (e_retry_count e)")
    case None
    with 2(3) show ?thesis by auto
  next
    case (Some v)
    show ?thesis
    proof (cases "below v (wq_max_retries q)")
      case True
      obtain r1 q1 where "reap_entries uuid4 date es (requeue_front e v q) = (r1, q1)" by fastforce
      with 2(1)[OF Some True this] 2(3) Some True show ?thesis by (auto split: sum.splits)
    next
      case False
      with 2(2)[OF Some False] 2(3) Some show ?thesis by auto
    qed
  qed
qed simp

lemma reaper_sweep_touches:
  assumes "reaper_sweep uuid4 now date q = (r, q')"
  shows "wq_groups q' = wq_groups q" "wq_registry q' = wq_registry q"
    "r = Inr ts \<Longrightarrow> \<not> is_dl t \<Longrightarrow> t \<notin> set ts \<Longrightarrow> pending_of q' t = pending_of q t"
proof -
  obtain r1 q1 where c: "collect_expired now (wq_in_flight q) q = (r1, q1)" by fastforce
  have p: "pending_of q1 t = pending_of q t" for t
    using collect_expired_touches[OF c] by (simp add: pending_of_def)
  have "wq_groups q' = wq_groups q \<and> wq_registry q' = wq_registry q \<and>
    (r = Inr ts \<longrightarrow> \<not> is_dl t \<longrightarrow> t \<notin> set ts \<longrightarrow> pending_of q' t = pending_of q t)"
  proof (cases r1)
    case (Inl e)
    with assms c collect_expired_touches[OF c] show ?thesis by (auto simp: reaper_sweep_def)
  next
    case (Inr es)
    with assms c have "reap_entries uuid4 date es q1 = (r, q')" by (simp add: reaper_sweep_def)
    from reap_entries_touches[OF this] show ?thesis using collect_expired_touches[OF c] p by auto
  qed
  then show "wq_groups q' = wq_groups q" "wq_registry q' = wq_registry q"
    "r = Inr ts \<Longrightarrow> \<not> is_dl t \<Longrightarrow> t \<notin> set ts \<Longrightarrow> pending_of q' t = pending_of q t" by blast+
qed

section \<open>The interleaved system\<close>

text \<open>
  A state is the queue, the calls of \<open>_try_dispatch\<close> that have been reached but not yet taken the lock
  (one per topic occurrence), and the running handler threads. Every critical section of the class is
  a step, by any thread at any time; \<open>close\<close> ends a run. A caller does not set the two header fields
  the queue computes with.
\<close>

record 'h wq_sys =
  s_queue :: "'h work_queue"
  s_calls :: "string multiset"
  s_threads :: "'h thread multiset"

datatype wq_event = Enqueued pyval | Acked string pyval | Nacked string | Quiet

definition nack_event :: "string \<Rightarrow> pyexn + bool \<Rightarrow> wq_event" where
  "nack_event d r = (if r = Inr True then Nacked d else Quiet)"

definition opt_mset :: "'a option \<Rightarrow> 'a multiset" where
  "opt_mset x = (case x of None \<Rightarrow> {#} | Some y \<Rightarrow> {#y#})"

lemma opt_mset_simps [simp]: "opt_mset None = {#}" "opt_mset (Some y) = {#y#}"
  by (simp_all add: opt_mset_def)

inductive wq_step :: "(nat \<Rightarrow> string) \<Rightarrow> 'h wq_sys \<Rightarrow> wq_event \<Rightarrow> 'h wq_sys \<Rightarrow> bool" for uuid4 where
  enqueue: "wq_append uuid4 date stamp topic payload vt headers (s_queue s) = (Inr mid, q') \<Longrightarrow>
    dict_ok headers \<Longrightarrow> dict_get headers retry_key = None \<Longrightarrow> dict_get headers vt_key = None \<Longrightarrow>
    wq_step uuid4 s (Enqueued payload) (s\<lparr>s_queue := q', s_calls := add_mset topic (s_calls s)\<rparr>)"
| full: "wq_append uuid4 date stamp topic payload vt headers (s_queue s) = (Inl e, q') \<Longrightarrow>
    wq_step uuid4 s Quiet (s\<lparr>s_queue := q'\<rparr>)"
| consume: "wq_register uuid4 topic h grp (s_queue s) = (cid, q') \<Longrightarrow>
    wq_step uuid4 s Quiet (s\<lparr>s_queue := q', s_calls := add_mset topic (s_calls s)\<rparr>)"
| remove: "wq_remove_consumer cid (s_queue s) = (b, q') \<Longrightarrow> wq_step uuid4 s Quiet (s\<lparr>s_queue := q'\<rparr>)"
| dequeue: "wq_dequeue uuid4 now topic timeout (s_queue s) = (r, q') \<Longrightarrow>
    wq_step uuid4 s Quiet (s\<lparr>s_queue := q'\<rparr>)"
| ack: "dict_get (wq_in_flight (s_queue s)) d = Some e \<Longrightarrow> wq_ack d (s_queue s) = (True, q') \<Longrightarrow>
    wq_step uuid4 s (Acked d (m_payload (e_message e))) (s\<lparr>s_queue := q'\<rparr>)"
| ack_unknown: "wq_ack d (s_queue s) = (False, q') \<Longrightarrow> wq_step uuid4 s Quiet (s\<lparr>s_queue := q'\<rparr>)"
| nack: "nack_locked uuid4 date d requeue (s_queue s) = (r, tt, q') \<Longrightarrow>
    wq_step uuid4 s (nack_event d r) (s\<lparr>s_queue := q', s_calls := opt_mset tt + s_calls s\<rparr>)"
| dispatch: "topic \<in># s_calls s \<Longrightarrow> try_dispatch uuid4 now topic (s_queue s) = (ts, q') \<Longrightarrow>
    wq_step uuid4 s Quiet
      (s\<lparr>s_queue := q', s_calls := s_calls s - {#topic#}, s_threads := mset ts + s_threads s\<rparr>)"
| handler_returns: "th \<in># s_threads s \<Longrightarrow> wq_step uuid4 s Quiet (s\<lparr>s_threads := s_threads s - {#th#}\<rparr>)"
| handler_raises: "(h, m, d) \<in># s_threads s \<Longrightarrow> nack_locked uuid4 date d True (s_queue s) = (r, tt, q') \<Longrightarrow>
    wq_step uuid4 s (nack_event d r)
      (s\<lparr>s_queue := q', s_calls := opt_mset tt + s_calls s, s_threads := s_threads s - {#(h, m, d)#}\<rparr>)"
| sweep: "reaper_sweep uuid4 now date (s_queue s) = (r, q') \<Longrightarrow>
    wq_step uuid4 s Quiet
      (s\<lparr>s_queue := q', s_calls := (case r of Inr topics \<Rightarrow> mset topics | Inl _ \<Rightarrow> {#}) + s_calls s\<rparr>)"

inductive wq_run :: "(nat \<Rightarrow> string) \<Rightarrow> 'h wq_sys \<Rightarrow> wq_event list \<Rightarrow> 'h wq_sys \<Rightarrow> bool" for uuid4 where
  start: "wq_run uuid4 s [] s"
| step: "wq_run uuid4 s evs s' \<Longrightarrow> wq_step uuid4 s' ev s'' \<Longrightarrow> wq_run uuid4 s (evs @ [ev]) s''"

definition sys_init :: "int \<Rightarrow> real \<Rightarrow> int \<Rightarrow> 'h wq_sys" where
  "sys_init max_work_queue_size default_visibility_timeout max_retries =
     \<lparr>s_queue = wq_init max_work_queue_size default_visibility_timeout max_retries, s_calls = {#}, s_threads = {#}\<rparr>"

text \<open>What an event adds to or takes from the payloads in the queue, and the delivery it settles.\<close>

fun enq_of :: "wq_event \<Rightarrow> pyval multiset" where
  "enq_of (Enqueued p) = {#p#}" | "enq_of _ = {#}"

fun ack_of :: "wq_event \<Rightarrow> pyval multiset" where
  "ack_of (Acked _ p) = {#p#}" | "ack_of _ = {#}"

fun settles :: "wq_event \<Rightarrow> string list" where
  "settles (Acked d _) = [d]" | "settles (Nacked d) = [d]" | "settles _ = []"

definition enqueued :: "wq_event list \<Rightarrow> pyval multiset" where
  "enqueued evs = sum_list (map enq_of evs)"

definition acked :: "wq_event list \<Rightarrow> pyval multiset" where
  "acked evs = sum_list (map ack_of evs)"

definition settled :: "wq_event list \<Rightarrow> string list" where
  "settled evs = concat (map settles evs)"

subsection \<open>What one step keeps\<close>

lemma wq_inv_init: "wq_inv uuid4 (wq_init n vt mx)"
  by (simp add: wq_inv_def ids_ok_def wf_queue_def wq_init_def pending_of_def)

lemma dequeue_spec:
  assumes "inj uuid4" "wq_inv uuid4 q" "wq_dequeue uuid4 now topic timeout q = (r, q')"
  shows "evolves uuid4 q q' \<and> contents q' = contents q \<and> wq_groups q' = wq_groups q \<and> wq_registry q' = wq_registry q \<and>
    (\<forall>t. pending_of q t = [] \<longrightarrow> pending_of q' t = [])"
proof (cases "wq_closed q \<or> pending_of q topic = []")
  case True
  with assms show ?thesis by (auto simp: wq_dequeue_def evolves_refl split: if_splits list.splits)
next
  case False
  then obtain m rest where p: "pending_of q topic = m # rest" and open_wq: "\<not> wq_closed q" by (cases "pending_of q topic") auto
  define q1 where "q1 = set_pending topic rest q"
  obtain dl q2 where mk: "make_in_flight uuid4 now m topic (topic @ ''._pull'') q1 = (dl, q2)" by fastforce
  have q': "q' = q2" using assms(3) p open_wq mk by (simp add: wq_dequeue_def q1_def)
  have 1: "evolves uuid4 q q1"
    unfolding q1_def using p inv_pending[OF assms(2), of _ topic] by (intro evolves_set_pending assms(2)) simp
  have wf: "wf_message (wq_max_retries q1) m" using p inv_pending[OF assms(2), of m topic] by (simp add: q1_def)
  note 2 = make_in_flight_evolves[OF assms(1) evolves_inv[OF 1] wf mk]
  have "contents q2 = contents q"
    using make_in_flight_inv(2)[OF assms(1) evolves_inv[OF 1] wf mk] contents_set_pending[of topic rest q] p
    by (simp add: q1_def)
  then show ?thesis
    using evolves_trans[OF 1 2] make_in_flight_fields[OF mk] make_in_flight_pending[OF mk]
    by (auto simp: q' q1_def p)
qed

lemma ack_spec:
  assumes "wq_inv uuid4 q" "wq_ack d q = (b, q')"
  shows "evolves uuid4 q q' \<and> wq_groups q' = wq_groups q \<and> wq_registry q' = wq_registry q \<and> pending_of q' t = pending_of q t \<and>
    (dict_get (wq_in_flight q) d = Some e \<longrightarrow>
      contents q = add_mset (m_payload (e_message e)) (contents q') \<and> dict_get (wq_in_flight q') d = None) \<and>
    (\<not> b \<longrightarrow> q' = q)"
  using assms in_flight_contents_del[OF inv_in_flight_ok[OF assms(1)]] evolves_del[OF assms(1), of d]
  by (auto simp: wq_ack_def evolves_refl contents_def split: if_splits)

lemma nack_settles:
  assumes "nack_locked uuid4 date d requeue q = (Inr True, tt, q')"
  shows "dict_get (wq_in_flight q) d \<noteq> None \<and> dict_get (wq_in_flight q') d = None"
  using assms by (auto simp: nack_locked_def Let_def requeue_front_def dead_letter_def split: option.splits if_splits)

lemma append_full: "wq_append uuid4 date stamp topic payload vt headers q = (Inl e, q') \<Longrightarrow> q' = draw q"
  by (auto simp: wq_append_def Let_def split: if_splits)

lemma register_evolves:
  assumes "wq_inv uuid4 q" "wq_register uuid4 topic h grp q = (cid, q')"
  shows "evolves uuid4 q q' \<and> contents q' = contents q \<and> (\<forall>t. pending_of q' t = pending_of q t)"
proof -
  note f = register_fields[OF assms(2)]
  have p: "pending_of q' t = pending_of q t" for t by (simp add: pending_of_def f)
  then have "evolves uuid4 q q'"
    using assms(1) by (intro evolves_same_flight) (simp_all add: f wf_queue_def wq_inv_def)
  then show ?thesis using p by (simp add: contents_def f)
qed

lemma remove_evolves:
  assumes "wq_inv uuid4 q" "wq_remove_consumer cid q = (b, q')"
  shows "evolves uuid4 q q' \<and> contents q' = contents q \<and> (\<forall>t. pending_of q' t = pending_of q t)"
proof -
  note f = remove_fields[OF assms(2)]
  have p: "pending_of q' t = pending_of q t" for t by (simp add: pending_of_def f)
  then have "evolves uuid4 q q'"
    using assms(1) by (intro evolves_same_flight) (simp_all add: f wf_queue_def wq_inv_def)
  then show ?thesis using p by (simp add: contents_def f)
qed

lemma step_keeps:
  assumes "wq_step uuid4 s ev s'" "inj uuid4" "wq_inv uuid4 (s_queue s)"
  shows "evolves uuid4 (s_queue s) (s_queue s') \<and> contents (s_queue s) + enq_of ev \<subseteq># contents (s_queue s') + ack_of ev \<and>
    (\<forall>d \<in> set (settles ev). dict_get (wq_in_flight (s_queue s)) d \<noteq> None \<and> dict_get (wq_in_flight (s_queue s')) d = None)"
  using assms(1)
proof cases
  case (enqueue date stamp topic payload vt headers mid q')
  then show ?thesis using wq_append_evolves[OF assms(3)] wq_append_contents by fastforce
next
  case (full date stamp topic payload vt headers e q')
  then show ?thesis using append_full evolves_draw[OF assms(3)] by fastforce
next
  case (consume topic h grp cid q')
  then show ?thesis using register_evolves[OF assms(3)] by fastforce
next
  case (remove cid b q')
  then show ?thesis using remove_evolves[OF assms(3)] by fastforce
next
  case (dequeue now topic timeout r q')
  then show ?thesis using dequeue_spec[OF assms(2,3)] by fastforce
next
  case (ack d e q')
  have "dict_get (wq_in_flight (s_queue s)) d \<noteq> None" using ack(3) by simp
  then show ?thesis using ack ack_spec[OF assms(3) ack(4), of _ e] by simp
next
  case (ack_unknown d q')
  then show ?thesis using assms(3) by (auto simp: wq_ack_def evolves_refl split: if_splits)
next
  case (nack date d requeue r tt q')
  then show ?thesis using nack_locked_evolves(1,2)[OF assms(3) nack(3)] nack_settles[of uuid4 date d requeue "s_queue s" tt q']
    by (simp add: nack_event_def)
next
  case (dispatch topic now ts q')
  then show ?thesis using try_dispatch_spec[OF assms(2,3) dispatch(4)] by simp
next
  case (handler_returns th)
  then show ?thesis using assms(3) by (simp add: evolves_refl)
next
  case (handler_raises h m d date r tt q')
  then show ?thesis using nack_locked_evolves(1,2)[OF assms(3) handler_raises(4)]
      nack_settles[of uuid4 date d True "s_queue s" tt q'] by (simp add: nack_event_def)
next
  case (sweep now date r q')
  then show ?thesis using reaper_sweep_spec[OF assms(3), of now date] by fastforce
qed

lemma step_groups_ok:
  assumes "wq_step uuid4 s ev s'" "inj uuid4" "wq_inv uuid4 (s_queue s)" "groups_ok uuid4 (s_queue s)"
  shows "groups_ok uuid4 (s_queue s')"
proof -
  have drawn: "wq_drawn (s_queue s) \<le> wq_drawn (s_queue s')"
    using step_keeps[OF assms(1-3)] by (simp add: evolves_def)
  note same = groups_ok_same[OF assms(4) _ _ drawn]
  show ?thesis
    using assms(1)
  proof cases
    case (enqueue date stamp topic payload vt headers mid q')
    then show ?thesis by (intro same) (auto simp: wq_append_def Let_def split: if_splits)
  next
    case (full date stamp topic payload vt headers e q')
    then show ?thesis by (intro same) (auto dest!: append_full)
  next
    case (consume topic h grp cid q')
    then show ?thesis using register_groups_ok[OF assms(2,4)] by simp
  next
    case (remove cid b q')
    then show ?thesis using remove_groups_ok[OF assms(4)] by simp
  next
    case (dequeue now topic timeout r q')
    then show ?thesis using dequeue_spec[OF assms(2,3) dequeue(3)] by (intro same) simp_all
  next
    case (ack d e q')
    then show ?thesis using ack_spec[OF assms(3) ack(4)] by (intro same) simp_all
  next
    case (ack_unknown d q')
    then show ?thesis using ack_spec[OF assms(3) ack_unknown(3)] by (intro same) simp_all
  next
    case (nack date d requeue r tt q')
    then show ?thesis using nack_locked_touches[OF nack(3)] by (intro same) simp_all
  next
    case (dispatch topic now ts q')
    then show ?thesis using try_dispatch_spec(5)[OF assms(2,3) dispatch(4)] by (intro same) simp_all
  next
    case (handler_returns th)
    then show ?thesis by (intro same) simp_all
  next
    case (handler_raises h m d date r tt q')
    then show ?thesis using nack_locked_touches[OF handler_raises(4)] by (intro same) simp_all
  next
    case (sweep now date r q')
    then show ?thesis using reaper_sweep_touches[OF sweep(3)] by (intro same) simp_all
  qed
qed

section \<open>No message is stranded\<close>

text \<open>
  \<open>served\<close>: a topic with push consumers and pending messages has a dispatch call on its way. Dead-letter
  topics are left out: \<open>_dead_letter\<close> makes no such call.
\<close>

definition served :: "'h wq_sys \<Rightarrow> bool" where
  "served s \<longleftrightarrow> (\<forall>t. \<not> is_dl t \<longrightarrow> topic_groups t (s_queue s) \<noteq> [] \<longrightarrow> pending_of (s_queue s) t \<noteq> [] \<longrightarrow> t \<in># s_calls s)"

lemma topic_groups_live:
  assumes "groups_ok uuid4 q"
  shows "live_groups q (topic_groups t q) = length (topic_groups t q)"
proof -
  have "\<forall>key \<in> set (topic_groups t q). dict_get_default (wq_groups q) key [] \<noteq> []"
    using groups_okD(1,5)[OF assms] by (force simp: topic_groups_def dict_get_default_def)
  then show ?thesis by (simp add: live_groups_def)
qed

lemma topic_groups_nonempty: "groups_ok uuid4 q \<Longrightarrow> topic_groups t q \<noteq> [] \<longleftrightarrow> (\<exists>g. entries_of q (t, g) \<noteq> [])"
proof -
  assume ok: "groups_ok uuid4 q"
  have "topic_groups t q \<noteq> [] \<longleftrightarrow> (\<exists>g es. ((t, g), es) \<in> set (wq_groups q))"
    by (force simp: topic_groups_def filter_empty_conv)
  also have "\<dots> \<longleftrightarrow> (\<exists>g. entries_of q (t, g) \<noteq> [])"
    using groups_okD(1,5)[OF ok] by (force simp: entries_of_def dict_get_default_def split: option.splits)
  finally show ?thesis .
qed

text \<open>
  The one fact each step has to supply: a topic that gains a consumer or a message, other than the
  topic of an outstanding call, gets a call.
\<close>

lemma served_step:
  assumes "served s"
    and "\<And>t. \<not> is_dl t \<Longrightarrow> t \<in># s_calls s \<Longrightarrow> t \<notin># s_calls s' \<Longrightarrow> topic_groups t (s_queue s') \<noteq> [] \<Longrightarrow> pending_of (s_queue s') t = []"
    and "\<And>t. \<not> is_dl t \<Longrightarrow> t \<notin># s_calls s' \<Longrightarrow> topic_groups t (s_queue s') \<noteq> [] \<Longrightarrow> topic_groups t (s_queue s) \<noteq> []"
    and "\<And>t. \<not> is_dl t \<Longrightarrow> t \<notin># s_calls s' \<Longrightarrow> pending_of (s_queue s') t \<noteq> [] \<Longrightarrow> pending_of (s_queue s) t \<noteq> []"
  shows "served s'"
  using assms unfolding served_def by blast

lemma served_keep_groups:
  assumes "served s" "wq_groups (s_queue s') = wq_groups (s_queue s)" "s_calls s \<subseteq># s_calls s'"
    and "\<And>t. \<not> is_dl t \<Longrightarrow> t \<notin># s_calls s' \<Longrightarrow> pending_of (s_queue s') t \<noteq> [] \<Longrightarrow> pending_of (s_queue s) t \<noteq> []"
  shows "served s'"
proof (rule served_step[OF assms(1)])
  show "pending_of (s_queue s') t = []" if "t \<in># s_calls s" "t \<notin># s_calls s'" for t
    using that assms(3) by (meson mset_subset_eqD)
  show "topic_groups t (s_queue s) \<noteq> []" if "topic_groups t (s_queue s') \<noteq> []" for t
    using that by (simp add: topic_groups_def assms(2))
qed (rule assms(4))

lemma remove_topic_groups:
  assumes "groups_ok uuid4 q" "wq_remove_consumer cid q = (b, q')" "topic_groups t q' \<noteq> []"
  shows "topic_groups t q \<noteq> []"
  using assms(3) topic_groups_nonempty[OF assms(1)] topic_groups_nonempty[OF remove_groups_ok[OF assms(1,2)]]
  by (metis filter.simps(1) remove_entries(1)[OF assms(1,2)])

lemma step_served:
  assumes "wq_step uuid4 s ev s'" "inj uuid4" "wq_inv uuid4 (s_queue s)" "groups_ok uuid4 (s_queue s)" "served s"
  shows "served s'"
  using assms(1)
proof cases
  case (enqueue date stamp topic payload vt headers mid q')
  then show ?thesis
    by (intro served_keep_groups[OF assms(5)]) (auto simp: wq_append_def Let_def split: if_splits)
next
  case (full date stamp topic payload vt headers e q')
  then show ?thesis by (intro served_keep_groups[OF assms(5)]) (auto dest!: append_full)
next
  case (consume topic h grp cid q')
  have "topic_groups t q' \<noteq> [] \<Longrightarrow> t \<noteq> topic \<Longrightarrow> topic_groups t (s_queue s) \<noteq> []" for t
    using register_fields(6)[OF consume(3)] topic_groups_nonempty[OF assms(4), of t]
      topic_groups_nonempty[OF register_groups_ok[OF assms(2,4) consume(3)], of t]
    by (auto simp: entries_of_def)
  with consume show ?thesis
    using register_evolves[OF assms(3) consume(3)] by (intro served_step[OF assms(5)]) auto
next
  case (remove cid b q')
  then show ?thesis
    using remove_evolves[OF assms(3) remove(3)] remove_topic_groups[OF assms(4) remove(3)]
    by (intro served_step[OF assms(5)]) auto
next
  case (dequeue now topic timeout r q')
  then show ?thesis using dequeue_spec[OF assms(2,3) dequeue(3)] by (intro served_keep_groups[OF assms(5)]) auto
next
  case (ack d e q')
  then show ?thesis using ack_spec[OF assms(3) ack(4)] by (intro served_keep_groups[OF assms(5)]) auto
next
  case (ack_unknown d q')
  then show ?thesis using ack_spec[OF assms(3) ack_unknown(3)] by (intro served_keep_groups[OF assms(5)]) auto
next
  case (nack date d requeue r tt q')
  then show ?thesis
    using nack_locked_touches[OF nack(3)] by (intro served_keep_groups[OF assms(5)]) force+
next
  case (dispatch topic now ts q')
  note d = try_dispatch_spec[OF assms(2,3) dispatch(4)]
  have g: "topic_groups t q' = topic_groups t (s_queue s)" for t using d(5) by (simp add: topic_groups_def)
  have n: "live_groups (s_queue s) (topic_groups topic (s_queue s)) = 0 \<longleftrightarrow> topic_groups topic (s_queue s) = []"
    by (simp add: topic_groups_live[OF assms(4)])
  show ?thesis
    using dispatch by (intro served_step[OF assms(5)]) (auto simp: g d(3) n in_diff_count split: if_splits)
next
  case (handler_returns th)
  then show ?thesis by (intro served_keep_groups[OF assms(5)]) auto
next
  case (handler_raises h m d date r tt q')
  then show ?thesis
    using nack_locked_touches[OF handler_raises(4)] by (intro served_keep_groups[OF assms(5)]) force+
next
  case (sweep now date r q')
  obtain topics where r: "r = Inr topics" using reaper_sweep_spec[OF assms(3), of now date] sweep(3) by auto
  show ?thesis
    using sweep reaper_sweep_touches(1)[OF sweep(3)] reaper_sweep_touches(3)[OF sweep(3) r]
    by (intro served_keep_groups[OF assms(5)]) (auto simp: r)
qed

section \<open>Runs\<close>

lemma settled_snoc: "settled (evs @ [ev]) = settled evs @ settles ev"
  by (simp add: settled_def)

lemma run_inv:
  assumes "wq_run uuid4 s0 evs s" "inj uuid4" "wq_inv uuid4 (s_queue s0)" "groups_ok uuid4 (s_queue s0)" "served s0"
  shows "evolves uuid4 (s_queue s0) (s_queue s) \<and> groups_ok uuid4 (s_queue s) \<and> served s"
  using assms
proof (induction rule: wq_run.induct)
  case (start s)
  then show ?case by (simp add: evolves_refl)
next
  case (step s0 evs s ev s')
  then have IH: "evolves uuid4 (s_queue s0) (s_queue s)" "groups_ok uuid4 (s_queue s)" "served s" by auto
  note inv = evolves_inv[OF IH(1)]
  show ?case
    using step_keeps[OF step.hyps(2) assms(2) inv] IH(1) evolves_trans
      step_groups_ok[OF step.hyps(2) assms(2) inv IH(2)] step_served[OF step.hyps(2) assms(2) inv IH(2,3)]
    by blast
qed

lemma run_conserves:
  assumes "wq_run uuid4 s0 evs s" "inj uuid4" "wq_inv uuid4 (s_queue s0)" "groups_ok uuid4 (s_queue s0)" "served s0"
  shows "contents (s_queue s0) + enqueued evs \<subseteq># contents (s_queue s) + acked evs"
  using assms
proof (induction rule: wq_run.induct)
  case (start s)
  then show ?case by (simp add: enqueued_def acked_def)
next
  case (step s0 evs s ev s')
  have inv: "wq_inv uuid4 (s_queue s)"
    using run_inv[OF step.hyps(1) step.prems] by (auto intro: evolves_inv)
  have 1: "contents (s_queue s0) + enqueued evs \<subseteq># contents (s_queue s) + acked evs" using step by simp
  have 2: "contents (s_queue s) + enq_of ev \<subseteq># contents (s_queue s') + ack_of ev"
    using step_keeps[OF step.hyps(2) assms(2) inv] by simp
  have "contents (s_queue s0) + enqueued evs + enq_of ev \<subseteq># contents (s_queue s) + acked evs + enq_of ev"
    using 1 by simp
  also have "\<dots> \<subseteq># contents (s_queue s') + ack_of ev + acked evs"
    using 2 by (simp add: ac_simps)
  finally show ?case by (simp add: enqueued_def acked_def ac_simps)
qed

lemma run_settles:
  assumes "wq_run uuid4 s0 evs s" "inj uuid4" "wq_inv uuid4 (s_queue s0)" "groups_ok uuid4 (s_queue s0)" "served s0"
  shows "distinct (settled evs) \<and>
    (\<forall>d \<in> set (settled evs). d \<in> uuid4 ` {..<wq_drawn (s_queue s)} \<and> dict_get (wq_in_flight (s_queue s)) d = None)"
  using assms
proof (induction rule: wq_run.induct)
  case (start s)
  then show ?case by (simp add: settled_def)
next
  case (step s0 evs s ev s')
  have inv: "wq_inv uuid4 (s_queue s)"
    using run_inv[OF step.hyps(1) step.prems] by (auto intro: evolves_inv)
  note k = step_keeps[OF step.hyps(2) assms(2) inv]
  have IH: "distinct (settled evs)" "\<forall>d \<in> set (settled evs). d \<in> uuid4 ` {..<wq_drawn (s_queue s)} \<and>
    dict_get (wq_in_flight (s_queue s)) d = None" using step by simp_all
  have new: "d \<in> uuid4 ` {..<wq_drawn (s_queue s)}" if "d \<in> set (settles ev)" for d
    using that k inv unfolding wq_inv_def ids_ok_def by force
  have mono: "uuid4 ` {..<wq_drawn (s_queue s)} \<subseteq> uuid4 ` {..<wq_drawn (s_queue s')}"
    using k by (auto simp: evolves_def)
  have "distinct (settles ev)" by (cases ev) simp_all
  then show ?case
    using IH new mono k unfolding settled_snoc evolves_def by auto
qed

text \<open>A run from the initial state, for the witnesses: enqueue, pull, reject, pull, acknowledge.\<close>

definition demo_uuid :: "nat \<Rightarrow> string" where
  "demo_uuid n = replicate n CHR ''u''"

lemma demo_uuid_inj: "inj demo_uuid"
  by (rule injI) (metis demo_uuid_def length_replicate)

lemma sys_init_ok: "wq_inv uuid4 (s_queue (sys_init n vt mx))" "groups_ok uuid4 (s_queue (sys_init n vt mx))"
  "served (sys_init n vt mx)"
proof -
  show "served (sys_init n vt mx)" by (simp add: sys_init_def served_def wq_init_def pending_of_def)
qed (simp_all add: sys_init_def wq_inv_init groups_ok_init)

lemma sys_init_contents: "contents (s_queue (sys_init n vt mx)) = {#}"
  by (simp add: sys_init_def contents_def wq_init_def pending_contents_def in_flight_contents_def)

definition demo_queue :: "string work_queue" where
  "demo_queue = snd (wq_append demo_uuid [] 0 ''jobs'' (PInt 7) None [] (wq_init 0 30 3))"

definition demo_sys :: "string wq_sys" where
  "demo_sys = \<lparr>s_queue = demo_queue, s_calls = {#''jobs''#}, s_threads = {#}\<rparr>"

definition demo_pulled :: "string work_queue" where
  "demo_pulled = snd (wq_dequeue demo_uuid 0 ''jobs'' (Some 0) demo_queue)"

definition demo_served :: "string work_queue" where
  "demo_served = snd (wq_register demo_uuid ''jobs'' ''h'' None demo_queue)"

lemma demo_queue_value:
  "demo_queue = \<lparr>wq_max_size = 0, wq_default_vt = 30, wq_max_retries = 3,
     wq_pending = [(''jobs'', [\<lparr>m_id = [], m_topic = ''jobs'', m_payload = PInt 7,
       m_headers = [(retry_key, PInt 0), (origin_key, PStr ''jobs''), (''_wq_enqueued_at'', PStr []), (vt_key, PFloat 30)],
       m_timestamp = 0, m_reply_to = None, m_correlation_id = None\<rparr>])], wq_in_flight = [],
     wq_groups = [], wq_rr_index = [], wq_registry = [], wq_closed = False, wq_reaper_running = False, wq_drawn = 1\<rparr>"
  by (simp add: demo_queue_def wq_append_def wq_init_def wq_new_message_def draw_def pending_of_def
      set_pending_def dict_merge_def demo_uuid_def)

lemma demo_run: "wq_run demo_uuid (sys_init 0 30 3) [Enqueued (PInt 7)] demo_sys"
proof -
  have "wq_append demo_uuid [] 0 ''jobs'' (PInt 7) None [] (s_queue (sys_init 0 30 3)) = (Inr [], demo_queue)"
    by (simp add: sys_init_def demo_queue_def wq_append_def wq_init_def wq_new_message_def demo_uuid_def Let_def)
  from wq_run.step[OF wq_run.start wq_step.enqueue[OF this]] show ?thesis
    by (simp add: sys_init_def demo_sys_def)
qed

lemma demo_run_pulled: "wq_run demo_uuid (sys_init 0 30 3) [Enqueued (PInt 7), Quiet] (demo_sys\<lparr>s_queue := demo_pulled\<rparr>)"
proof -
  have "wq_dequeue demo_uuid 0 ''jobs'' (Some 0) (s_queue demo_sys) =
      (fst (wq_dequeue demo_uuid 0 ''jobs'' (Some 0) demo_queue), demo_pulled)"
    by (simp add: demo_sys_def demo_pulled_def)
  from wq_run.step[OF demo_run wq_step.dequeue[OF this]] show ?thesis by simp
qed

lemma demo_pulled_entry:
  "\<exists>e. dict_get (wq_in_flight demo_pulled) ''u'' = Some e \<and> m_payload (e_message e) = PInt 7 \<and> e_retry_count e = PInt 0"
  "pending_of demo_pulled t = []"
  by (simp_all add: demo_pulled_def demo_queue_value wq_dequeue_def make_in_flight_def pending_of_def
      set_pending_def draw_def demo_uuid_def Let_def dict_get_default_def retry_key_def vt_key_def origin_key_def)

lemma demo_run_acked:
  "wq_run demo_uuid (sys_init 0 30 3) [Enqueued (PInt 7), Quiet, Acked ''u'' (PInt 7)]
     (demo_sys\<lparr>s_queue := snd (wq_ack ''u'' demo_pulled)\<rparr>)"
proof -
  obtain e where e: "dict_get (wq_in_flight demo_pulled) ''u'' = Some e" "m_payload (e_message e) = PInt 7"
    using demo_pulled_entry by blast
  then have "wq_ack ''u'' demo_pulled = (True, snd (wq_ack ''u'' demo_pulled))" by (simp add: wq_ack_def)
  with wq_run.step[OF demo_run_pulled wq_step.ack[of _ "''u''" e]] e show ?thesis by simp
qed

lemma demo_run_served:
  "wq_run demo_uuid (sys_init 0 30 3) [Enqueued (PInt 7), Quiet]
     (demo_sys\<lparr>s_queue := demo_served, s_calls := {#''jobs'', ''jobs''#}\<rparr>)"
proof -
  have "wq_register demo_uuid ''jobs'' ''h'' None (s_queue demo_sys) = (''u'', demo_served)"
    by (simp add: demo_sys_def demo_served_def demo_queue_value wq_register_def demo_uuid_def Let_def)
  from wq_run.step[OF demo_run wq_step.consume[OF this]] show ?thesis by (simp add: demo_sys_def)
qed

section \<open>Properties of every run\<close>

text \<open>
  C1. No message is lost. After any run of the work queue, in any interleaving of enqueues, pulls,
  acknowledgements, rejections, dispatches, handler outcomes, consumer changes and reaper sweeps, every
  payload that was enqueued is still in the queue (pending on some topic, a dead-letter topic included,
  or in flight) or has been acknowledged, counted with multiplicity.
\<close>

theorem work_queue_no_loss:
  assumes "inj uuid4" and "wq_run uuid4 (sys_init n vt mx) evs s"
  shows "enqueued evs \<subseteq># contents (s_queue s) + acked evs"
  using run_conserves[OF assms(2,1) sys_init_ok] by (simp add: sys_init_contents)

theorem work_queue_no_loss_witness:
  "enqueued [Enqueued (PInt 7), Quiet, Acked ''u'' (PInt 7)] \<subseteq>#
     contents (snd (wq_ack ''u'' demo_pulled)) + acked [Enqueued (PInt 7), Quiet, Acked ''u'' (PInt 7)]"
  using work_queue_no_loss[OF demo_uuid_inj demo_run_acked] by simp

text \<open>
  C4. A delivery is settled at most once. In any run no delivery id is acknowledged or rejected
  successfully twice, whatever the threads do, and a settled id is not in flight.
\<close>

theorem work_queue_settle_once:
  assumes "inj uuid4" and "wq_run uuid4 (sys_init n vt mx) evs s"
  shows "distinct (settled evs) \<and> (\<forall>d. d \<in> set (settled evs) \<longrightarrow> dict_get (wq_in_flight (s_queue s)) d = None)"
  using run_settles[OF assms(2,1) sys_init_ok] by blast

theorem work_queue_settle_once_witness:
  "distinct (settled [Enqueued (PInt 7), Quiet, Acked ''u'' (PInt 7)]) \<and>
   dict_get (wq_in_flight (snd (wq_ack ''u'' demo_pulled))) ''u'' = None"
  using work_queue_settle_once[OF demo_uuid_inj demo_run_acked] by (simp add: settled_def)



text \<open>
  C8. No message is stranded. In every reachable state, if a push consumer is registered for a topic
  (other than a dead-letter topic) that has pending messages, a dispatch call for that topic is on its
  way, and once it runs the topic has no pending message left.
\<close>

theorem work_queue_not_stranded:
  assumes "inj uuid4" and "wq_run uuid4 (sys_init n vt mx) evs s"
    and "\<not> is_dl topic" and "entries_of (s_queue s) (topic, grp) \<noteq> []" and "pending_of (s_queue s) topic \<noteq> []"
  shows "topic \<in># s_calls s \<and> pending_of (snd (try_dispatch uuid4 now topic (s_queue s))) topic = []"
proof -
  have r: "evolves uuid4 (s_queue (sys_init n vt mx :: 'a wq_sys)) (s_queue s)" "groups_ok uuid4 (s_queue s)" "served s"
    using run_inv[OF assms(2,1) sys_init_ok] by simp_all
  have "topic_groups topic (s_queue s) \<noteq> []" using topic_groups_nonempty[OF r(2)] assms(4) by blast
  moreover obtain ts q' where "try_dispatch uuid4 now topic (s_queue s) = (ts, q')" by fastforce
  ultimately show ?thesis
    using r(3) assms(3,5) try_dispatch_spec(3)[OF assms(1) evolves_inv[OF r(1)]] topic_groups_live[OF r(2)]
    by (simp add: served_def)
qed

theorem work_queue_not_stranded_witness:
  "pending_of demo_served ''jobs'' \<noteq> [] \<and> pending_of (snd (try_dispatch demo_uuid 0 ''jobs'' demo_served)) ''jobs'' = []"
proof -
  have 1: "entries_of demo_served (''jobs'', ''jobs.default'') \<noteq> []" and 2: "pending_of demo_served ''jobs'' \<noteq> []"
    by (simp_all add: demo_served_def demo_queue_value wq_register_def entries_of_def pending_of_def draw_def
        dict_get_default_def Let_def)
  have "\<not> is_dl ''jobs''" by (rule notI, drule is_dl_length) simp
  with work_queue_not_stranded[OF demo_uuid_inj demo_run_served, of "''jobs''" "''jobs.default''" 0] 1 2
  show ?thesis by simp
qed

end
