(* ===== verification/Work_Queue_Behaviour.thy ===== *)
theory Work_Queue_Behaviour
  imports Work_Queue_System
begin

text \<open>
  What single operations of the work queue do: the outcome of \<open>nack\<close> on each branch, the fate of a
  message that is always rejected, backpressure, round-robin dispatch to a consumer group, and exact
  removal of consumers.
\<close>

section \<open>Reject\<close>

text \<open>
  \<open>nack\<close> does what its documentation says. An unknown delivery id changes nothing and returns
  \<open>False\<close>. Otherwise the entry leaves the in-flight table and \<open>True\<close> is returned; with \<open>requeue\<close> and
  retries left the message goes back to the front of its topic with the count raised by one and the
  topic is dispatched again; in all other cases it is appended to the dead-letter topic with the
  reason, its payload and its original topic, its own topic unchanged.
\<close>

theorem nack_outcome:
  assumes "\<And>e. dict_get (wq_in_flight q) d = Some e \<Longrightarrow> e_retry_count e = PInt (k e)"
  shows "case dict_get (wq_in_flight q) d of
      None \<Rightarrow> nack_locked uuid4 date d requeue q = (Inr False, None, q)
    | Some e \<Rightarrow> (\<exists>q'. dict_get (wq_in_flight q') d = None \<and>
        (if requeue \<and> k e + 1 < wq_max_retries q
         then nack_locked uuid4 date d requeue q = (Inr True, Some (e_topic e), q') \<and>
           (\<exists>m. pending_of q' (e_topic e) = m # pending_of q (e_topic e) \<and> m_payload m = m_payload (e_message e) \<and>
              m_id m = m_id (e_message e) \<and> dict_get (m_headers m) retry_key = Some (PInt (k e + 1)))
         else nack_locked uuid4 date d requeue q = (Inr True, None, q') \<and>
           pending_of q' (e_topic e) = pending_of q (e_topic e) \<and>
           (\<exists>m. pending_of q' (e_topic e @ ''.dead_letter'') = pending_of q (e_topic e @ ''.dead_letter'') @ [m] \<and>
              m_payload m = m_payload (e_message e) \<and> m_topic m = e_topic e @ ''.dead_letter'' \<and>
              dict_get (m_headers m) ''_wq_dead_letter_reason'' =
                Some (PStr (if k e + 1 < wq_max_retries q then ''nack_no_requeue'' else ''max_retries_exceeded'')))))"
proof (cases "dict_get (wq_in_flight q) d")
  case None
  then show ?thesis by (simp add: nack_locked_def)
next
  case (Some e)
  note n = nack_locked_cases[OF Some assms[OF Some]]
  have neq: "e_topic e \<noteq> e_topic e @ ''.dead_letter''" by simp
  show ?thesis
    using Some neq by (cases requeue) (auto simp: n Let_def requeue_front_def dead_letter_def dead_letter_message_def dl_topic_def
        origin_key_def)
qed

theorem nack_outcome_witness:
  "\<exists>q'. dict_get (wq_in_flight q') ''u'' = None \<and>
     nack_locked demo_uuid [] ''u'' False demo_pulled = (Inr True, None, q')"
proof -
  obtain e where e: "dict_get (wq_in_flight demo_pulled) ''u'' = Some e" "e_retry_count e = PInt 0"
    using demo_pulled_entry by blast
  show ?thesis
    using nack_outcome[of demo_pulled "''u''" "\<lambda>_. 0" demo_uuid "[]" False] e by auto
qed

section \<open>A message that keeps failing\<close>

text \<open>\<open>n\<close> rounds of pulling a message of the topic and rejecting it.\<close>

fun pull_reject ::
  "(nat \<Rightarrow> string) \<Rightarrow> real \<Rightarrow> string \<Rightarrow> string \<Rightarrow> nat \<Rightarrow> 'h work_queue \<Rightarrow> 'h work_queue" where
  "pull_reject uuid4 now date topic 0 q = q"
| "pull_reject uuid4 now date topic (Suc n) q =
     (case wq_dequeue uuid4 now topic (Some 0) q of
        (Got (Some m), q1) \<Rightarrow>
          (case dict_get (m_headers m) id_key of
             Some (PStr d) \<Rightarrow> (case wq_nack uuid4 now date d True q1 of (_, _, q2) \<Rightarrow> pull_reject uuid4 now date topic n q2)
           | _ \<Rightarrow> q1)
      | (_, q1) \<Rightarrow> q1)"

text \<open>The state of a topic served by pulling only, holding one message with count \<open>k\<close>.\<close>

definition holds :: "string \<Rightarrow> pyval \<Rightarrow> int \<Rightarrow> 'h work_queue \<Rightarrow> bool" where
  "holds topic p k q \<longleftrightarrow> \<not> wq_closed q \<and> topic_groups topic q = [] \<and> pending_of q (dl_topic topic) = [] \<and>
     (\<exists>m. pending_of q topic = [m] \<and> m_payload m = p \<and> dict_get (m_headers m) retry_key = Some (PInt k))"

definition buried :: "string \<Rightarrow> pyval \<Rightarrow> 'h work_queue \<Rightarrow> bool" where
  "buried topic p q \<longleftrightarrow> pending_of q topic = [] \<and>
     (\<exists>m. pending_of q (dl_topic topic) = [m] \<and> m_payload m = p \<and>
        dict_get (m_headers m) ''_wq_dead_letter_reason'' = Some (PStr ''max_retries_exceeded''))"

lemma dl_topic_neq [simp]: "dl_topic t \<noteq> t" "t \<noteq> dl_topic t"
  by (simp_all add: dl_topic_def)

lemma try_dispatch_nobody: "topic_groups topic q = [] \<Longrightarrow> try_dispatch uuid4 now topic q = ([], q)"
  by (simp add: try_dispatch_def)

lemma pull_reject_round:
  assumes "holds topic p k q"
  shows "\<exists>q2. (\<forall>n. pull_reject uuid4 now date topic (Suc n) q = pull_reject uuid4 now date topic n q2) \<and>
    wq_max_retries q2 = wq_max_retries q \<and>
    (if k + 1 < wq_max_retries q then holds topic p (k + 1) q2 else buried topic p q2)"
proof -
  obtain m where m: "pending_of q topic = [m]" "m_payload m = p" "dict_get (m_headers m) retry_key = Some (PInt k)"
    and q: "\<not> wq_closed q" "topic_groups topic q = []" "pending_of q (dl_topic topic) = []"
    using assms by (auto simp: holds_def)
  obtain dl q1 where mk: "make_in_flight uuid4 now m topic (topic @ ''._pull'') (set_pending topic [] q) = (dl, q1)"
    by fastforce
  note f = make_in_flight_fields[OF mk] make_in_flight_pending[OF mk]
  obtain e where e: "dict_get (wq_in_flight q1) (uuid4 (wq_drawn q)) = Some e" "e_message e = m" "e_topic e = topic"
    "e_retry_count e = PInt k"
    using make_in_flight_entry[OF mk] m(3) by (auto simp: dict_get_default_def) (metis dict_get_set)
  define q2 where "q2 = snd (snd (wq_nack uuid4 now date (uuid4 (wq_drawn q)) True q1))"
  have deq: "wq_dequeue uuid4 now topic (Some 0) q = (Got (Some dl), q1)"
    using m q mk by (simp add: wq_dequeue_def)
  have n: "wq_nack uuid4 now date (uuid4 (wq_drawn q)) True q1 =
      (let q1' = q1\<lparr>wq_in_flight := dict_del (uuid4 (wq_drawn q)) (wq_in_flight q1)\<rparr> in
       if k + 1 < wq_max_retries q then (Inr True, [], requeue_front e (PInt (k + 1)) q1')
       else (Inr True, [], dead_letter uuid4 date m topic ''max_retries_exceeded'' q1'))"
    using q(2) by (auto simp: wq_nack_def nack_locked_cases[OF e(1,4)] e f Let_def topic_groups_def intro!: try_dispatch_nobody)
  have "pull_reject uuid4 now date topic (Suc n) q = pull_reject uuid4 now date topic n q2" for n
    using deq f(12) by (simp add: q2_def split: prod.split)
  moreover have "wq_max_retries q2 = wq_max_retries q"
    by (simp add: q2_def n Let_def requeue_front_def dead_letter_def f)
  moreover have "if k + 1 < wq_max_retries q then holds topic p (k + 1) q2 else buried topic p q2"
    using q m e(2,3)
    by (simp add: q2_def n Let_def holds_def buried_def topic_groups_def requeue_front_def dead_letter_def
        dead_letter_message_def f origin_key_def)
  ultimately show ?thesis by blast
qed

lemma holds_until_bound:
  assumes "holds topic p k q" "0 \<le> k" "k + int n < max 1 (wq_max_retries q)"
  shows "\<exists>q'. holds topic p (k + int n) q' \<and> wq_max_retries q' = wq_max_retries q \<and>
    (\<forall>j. pull_reject uuid4 now date topic (n + j) q = pull_reject uuid4 now date topic j q')"
  using assms
proof (induction n arbitrary: k q)
  case 0
  then show ?case by auto
next
  case (Suc n)
  have more: "k + 1 < wq_max_retries q" using Suc.prems by (auto simp: max_def split: if_splits)
  obtain q2 where q2: "\<And>j. pull_reject uuid4 now date topic (Suc j) q = pull_reject uuid4 now date topic j q2"
    "wq_max_retries q2 = wq_max_retries q" "holds topic p (k + 1) q2"
    using pull_reject_round[OF Suc.prems(1), of uuid4 now date] more by auto
  have "k + 1 + int n < max 1 (wq_max_retries q2)" using Suc.prems(3) q2(2) by simp
  from Suc.IH[OF q2(3) _ this] Suc.prems(2) q2(2) obtain q' where
    "holds topic p (k + 1 + int n) q'" "wq_max_retries q' = wq_max_retries q"
    "\<forall>j. pull_reject uuid4 now date topic (n + j) q2 = pull_reject uuid4 now date topic j q'" by auto
  then show ?case using q2(1) by (auto simp: ac_simps)
qed

text \<open>
  C21. Dead-lettering after exactly the allowed deliveries. A message enqueued on an empty topic that is
  consumed by pulling only and always rejected stays the topic's pending message, with its retry count
  equal to the number of rejections so far, for the first \<open>max(1, max_retries) - 1\<close> rounds; the round
  after that empties the topic and puts the payload on the dead-letter topic with reason
  \<open>max_retries_exceeded\<close>.
\<close>

theorem poison_message:
  assumes "\<not> wq_closed q" and "topic_groups topic q = []" and "pending_of q topic = []"
    and "pending_of q (dl_topic topic) = []"
    and "wq_enqueue uuid4 now date stamp topic payload vt [] q = (Inr mid, ts, q1)"
  shows "(int n < max 1 (wq_max_retries q) \<longrightarrow> holds topic payload (int n) (pull_reject uuid4 now date topic n q1)) \<and>
    buried topic payload (pull_reject uuid4 now date topic (nat (max 1 (wq_max_retries q))) q1)"
proof -
  have h: "holds topic payload 0 q1" and mx: "wq_max_retries q1 = wq_max_retries q"
    using assms by (auto simp: wq_enqueue_def wq_append_def Let_def holds_def topic_groups_def wq_new_message_def
        dict_merge_def try_dispatch_nobody split: if_splits prod.splits)
  define b where "b = nat (max 1 (wq_max_retries q)) - 1"
  have b: "nat (max 1 (wq_max_retries q)) = b + 1" "int b + 1 = max 1 (wq_max_retries q)" by (auto simp: b_def)
  obtain q2 where q2: "holds topic payload (int b) q2" "wq_max_retries q2 = wq_max_retries q"
    "\<And>j. pull_reject uuid4 now date topic (b + j) q1 = pull_reject uuid4 now date topic j q2"
    using holds_until_bound[OF h, of b uuid4 now date] b mx by auto
  from pull_reject_round[OF q2(1), of uuid4 now date] q2(2) b(2)
  have "buried topic payload (pull_reject uuid4 now date topic (Suc 0) q2)"
    by (auto simp: max_def split: if_splits)
  then have "buried topic payload (pull_reject uuid4 now date topic (nat (max 1 (wq_max_retries q))) q1)"
    using q2(3)[of 1] b(1) by simp
  moreover have "holds topic payload (int n) (pull_reject uuid4 now date topic n q1)" if "int n < max 1 (wq_max_retries q)"
    using holds_until_bound[OF h, of n uuid4 now date] that mx by (metis add.right_neutral add_0 order_refl pull_reject.simps(1))
  ultimately show ?thesis by blast
qed

theorem poison_message_witness:
  "holds ''jobs'' (PInt 7) 2 (pull_reject demo_uuid 0 [] ''jobs'' 2 demo_queue) \<and>
   buried ''jobs'' (PInt 7) (pull_reject demo_uuid 0 [] ''jobs'' 3 demo_queue)"
proof -
  let ?q = "wq_init 0 30 3 :: string work_queue"
  have "\<exists>mid ts. wq_enqueue demo_uuid 0 [] 0 ''jobs'' (PInt 7) None [] ?q = (Inr mid, ts, demo_queue)"
    by (simp add: wq_enqueue_def demo_queue_def wq_append_def wq_init_def Let_def draw_def set_pending_def
        try_dispatch_def topic_groups_def)
  then obtain mid ts where e: "wq_enqueue demo_uuid 0 [] 0 ''jobs'' (PInt 7) None [] ?q = (Inr mid, ts, demo_queue)" by blast
  have q: "\<not> wq_closed ?q" "topic_groups ''jobs'' ?q = []" "pending_of ?q t = []" "wq_max_retries ?q = 3" for t
    by (simp_all add: wq_init_def topic_groups_def pending_of_def)
  from poison_message[OF q(1-2) q(3) q(3) e, of 2] show ?thesis by (simp add: q(4))
qed

section \<open>Backpressure\<close>

text \<open>
  Backpressure. \<open>enqueue\<close> raises \<open>QueueFullError\<close> exactly when a limit is set and the topic already
  has that many pending messages; then no topic, no in-flight entry and no consumer changes and nothing
  is dispatched. Otherwise it returns the new message's id, and on a topic without consumers the message
  is the last pending one.
\<close>

theorem enqueue_backpressure:
  "case wq_enqueue uuid4 now date stamp topic payload vt hs q of (r, ts, q') \<Rightarrow>
     (r = Inl (queue_full_error (wq_max_size q) topic) \<longleftrightarrow> 0 < wq_max_size q \<and> wq_max_size q \<le> int (length (pending_of q topic))) \<and>
     (case r of
        Inl e \<Rightarrow> ts = [] \<and> wq_pending q' = wq_pending q \<and> wq_in_flight q' = wq_in_flight q \<and> wq_groups q' = wq_groups q
      | Inr mid \<Rightarrow> mid = uuid4 (wq_drawn q) \<and>
          (topic_groups topic q \<noteq> [] \<or> (ts = [] \<and> (\<exists>m. pending_of q' topic = pending_of q topic @ [m] \<and>
             m_id m = mid \<and> m_payload m = payload \<and> m_topic m = topic))))"
  by (auto simp: wq_enqueue_def wq_append_def Let_def wq_new_message_def try_dispatch_def topic_groups_def
      split: prod.splits)

theorem enqueue_backpressure_witness:
  "fst (wq_enqueue demo_uuid 0 [] 0 ''jobs'' PNone None [] (demo_queue\<lparr>wq_max_size := 1\<rparr>)) =
     Inl (queue_full_error 1 ''jobs'')"
proof -
  have "length (pending_of (demo_queue\<lparr>wq_max_size := 1\<rparr>) ''jobs'') = 1"
    by (simp add: demo_queue_value pending_of_def dict_get_default_def)
  then show ?thesis
    using enqueue_backpressure[where ?uuid4.0 = demo_uuid and now = 0 and date = "[]" and stamp = 0 and topic = "''jobs''"
        and payload = PNone and vt = None and hs = "[]" and q = "demo_queue\<lparr>wq_max_size := 1\<rparr>"]
    by (auto split: prod.splits)
qed

section \<open>Round-robin dispatch\<close>

interpretation wq_rr: round_robin wq_rr_next "\<lambda>_ _. True"
  by unfold_locales (simp_all add: wq_rr_next_def Let_def mod_Suc_eq)

text \<open>One group: each message goes to the entry under the group's cursor.\<close>

lemma dispatch_to_group_single:
  assumes "entries_of q key = es" "es \<noteq> []"
  shows "\<exists>dl q'. dispatch_groups uuid4 now topic False m [key] q =
      ([(snd (es ! fst (wq_rr_next (length es) (dict_get_default (wq_rr_index q) key 0))), dl, uuid4 (wq_drawn q))], q') \<and>
    m_payload dl = m_payload m \<and> dict_get (m_headers dl) id_key = Some (PStr (uuid4 (wq_drawn q))) \<and>
    entries_of q' key = es \<and>
    dict_get_default (wq_rr_index q') key 0 = snd (wq_rr_next (length es) (dict_get_default (wq_rr_index q) key 0))"
proof -
  obtain dl q1 where mk: "make_in_flight uuid4 now m topic (snd key) q = (dl, q1)" by fastforce
  show ?thesis
    using assms make_in_flight_fields[OF mk]
    by (cases es) (auto simp: dispatch_to_group_def entries_of_def mk Let_def split: prod.split)
qed

lemma dispatch_pending_single:
  assumes "entries_of q key = es" "es \<noteq> []"
    and "dispatch_pending uuid4 now topic [key] ms q = (ts, rest, q')"
  shows "map fst ts = map (\<lambda>p. snd (es ! p)) (rr_picks wq_rr_next (length es) (dict_get_default (wq_rr_index q) key 0) (length ms)) \<and>
    map (\<lambda>(_, m, _). m_payload m) ts = map m_payload ms \<and>
    list_all (\<lambda>(_, m, d). dict_get (m_headers m) id_key = Some (PStr d)) ts \<and> rest = []"
  using assms(1,3)
proof (induction ms arbitrary: q ts rest q')
  case (Cons m ms)
  obtain dl q1 where d: "dispatch_groups uuid4 now topic False m [key] q =
      ([(snd (es ! fst (wq_rr_next (length es) (dict_get_default (wq_rr_index q) key 0))), dl, uuid4 (wq_drawn q))], q1)"
    "m_payload dl = m_payload m" "dict_get (m_headers dl) id_key = Some (PStr (uuid4 (wq_drawn q)))" "entries_of q1 key = es"
    "dict_get_default (wq_rr_index q1) key 0 = snd (wq_rr_next (length es) (dict_get_default (wq_rr_index q) key 0))"
    using dispatch_to_group_single[OF Cons.prems(1) assms(2)] by metis
  obtain ts2 rest2 q2 where ds: "dispatch_pending uuid4 now topic [key] ms q1 = (ts2, rest2, q2)" by (metis surj_pair)
  from Cons.IH[OF d(4) ds] Cons.prems(2) d ds show ?case
    by (auto simp del: dispatch_groups.simps split: prod.split)
qed simp

text \<open>
  C27. Fair dispatch to a consumer group. When a topic is served by one consumer group, \<open>_try_dispatch\<close>
  hands every pending message to exactly one handler, in order, leaving none pending; handlers are
  taken in rotation from the group's cursor, so of \<open>n\<close> messages each of the group's \<open>c\<close> consumers gets
  at least \<open>n div c\<close> and at most one more, and each delivered message carries its own delivery id.
\<close>

theorem dispatch_round_robin:
  assumes "topic_groups topic q = [key]" and "entries_of q key = es" and "es \<noteq> []"
    and "try_dispatch uuid4 now topic q = (ts, q')"
  shows "\<exists>picks. map fst ts = map (\<lambda>p. snd (es ! p)) picks \<and>
    picks = map (\<lambda>j. (dict_get_default (wq_rr_index q) key 0 + j) mod length es) [0..<length (pending_of q topic)] \<and>
    (\<forall>j. j < length es \<longrightarrow> length (pending_of q topic) div length es \<le> count_list picks j \<and>
       count_list picks j \<le> length (pending_of q topic) div length es + 1) \<and>
    map (\<lambda>(_, m, _). m_payload m) ts = map m_payload (pending_of q topic) \<and>
    list_all (\<lambda>(_, m, d). dict_get (m_headers m) id_key = Some (PStr d)) ts \<and> pending_of q' topic = []"
proof -
  let ?i = "dict_get_default (wq_rr_index q) key 0" and ?n = "length (pending_of q topic)"
  obtain ts1 rest q1 where dp: "dispatch_pending uuid4 now topic [key] (pending_of q topic) q = (ts1, rest, q1)"
    by (metis surj_pair)
  from dispatch_pending_single[OF assms(2,3) dp] have
    "map fst ts1 = map (\<lambda>p. snd (es ! p)) (rr_picks wq_rr_next (length es) ?i ?n)"
    "map (\<lambda>(_, m, _). m_payload m) ts1 = map m_payload (pending_of q topic)"
    "list_all (\<lambda>(_, m, d). dict_get (m_headers m) id_key = Some (PStr d)) ts1" "rest = []" by auto
  moreover have "ts = ts1" "q' = set_pending topic rest q1" using assms(1,4) dp by (auto simp: try_dispatch_def)
  ultimately show ?thesis
    using wq_rr.picks[of "length es" ?i ?n] wq_rr.fair[where n = "length es" and i = ?i and k = ?n] assms(3)
    by (intro exI[of _ "rr_picks wq_rr_next (length es) ?i ?n"]) auto
qed

theorem dispatch_round_robin_witness:
  "map fst (fst (try_dispatch demo_uuid 0 ''jobs'' demo_served)) = [''h'']"
proof -
  have 1: "topic_groups ''jobs'' demo_served = [(''jobs'', ''jobs.default'')]"
    "entries_of demo_served (''jobs'', ''jobs.default'') = [(''u'', ''h'')]" "length (pending_of demo_served ''jobs'') = 1"
    by (simp_all add: demo_served_def demo_queue_value wq_register_def entries_of_def pending_of_def draw_def
        dict_get_default_def Let_def topic_groups_def demo_uuid_def)
  obtain ts q' where d: "try_dispatch demo_uuid 0 ''jobs'' demo_served = (ts, q')" by fastforce
  from dispatch_round_robin[OF 1(1,2) _ d] 1(3) show ?thesis by (auto simp: d)
qed

section \<open>Removing a consumer\<close>

text \<open>
  Removing a consumer removes exactly that consumer. In every reachable state \<open>remove_consumer\<close>
  returns whether the id is registered, the id's entry is gone from every group afterwards, all other
  entries keep their order, and removing it again returns \<open>False\<close>.
\<close>

theorem remove_consumer_exact:
  assumes "inj uuid4" and "wq_run uuid4 (sys_init n vt mx) evs s"
    and "wq_remove_consumer cid (s_queue s) = (b, q')"
  shows "(b \<longleftrightarrow> (\<exists>key. cid \<in> fst ` set (entries_of (s_queue s) key))) \<and>
    (\<forall>key. entries_of q' key = filter (\<lambda>e. fst e \<noteq> cid) (entries_of (s_queue s) key)) \<and>
    fst (wq_remove_consumer cid q') = False"
proof -
  have ok: "groups_ok uuid4 (s_queue s)" using run_inv[OF assms(2,1) sys_init_ok] by simp
  have "b \<longleftrightarrow> (\<exists>key. cid \<in> fst ` set (entries_of (s_queue s) key))"
    using remove_fields(5)[OF assms(3)] groups_okD(3)[OF ok, of cid] by (metis not_None_eq)
  moreover have "fst (wq_remove_consumer cid q') = False"
    using remove_entries(2)[OF ok assms(3)] by (simp add: wq_remove_consumer_def)
  ultimately show ?thesis using remove_entries(1)[OF ok assms(3)] by blast
qed

theorem remove_consumer_exact_witness:
  "entries_of (snd (wq_remove_consumer ''u'' demo_served)) (''jobs'', ''jobs.default'') = []"
proof -
  have e: "entries_of demo_served (''jobs'', ''jobs.default'') = [(''u'', ''h'')]"
    by (simp add: demo_served_def demo_queue_value wq_register_def entries_of_def draw_def
        dict_get_default_def Let_def demo_uuid_def)
  obtain b q' where r: "wq_remove_consumer ''u'' demo_served = (b, q')" by fastforce
  with remove_consumer_exact[OF demo_uuid_inj demo_run_served, of "''u''" b q'] show ?thesis by (simp add: e)
qed

section \<open>Dead letters are not dispatched\<close>



section \<open>A header that is not a number stops the reaper\<close>

text \<open>The first loop of a sweep up to an entry it cannot compare; \<open>kept\<close> are the entries it has passed and left.\<close>

lemma collect_until_bad:
  assumes "wq_in_flight q = kept @ pre @ (d, bad) # post" "dict_ok (wq_in_flight q)"
    "\<forall>(i, e) \<in> set pre. num_of (e_visibility_timeout e) \<noteq> None" "num_of (e_visibility_timeout bad) = None"
  shows "collect_expired now (pre @ (d, bad) # post) q =
    (Inl type_error, q\<lparr>wq_in_flight := kept @ filter (\<lambda>(i, e). expired now e \<noteq> Some True) pre @ (d, bad) # post\<rparr>)"
  using assms
proof (induction pre arbitrary: kept q)
  case Nil
  then have "q\<lparr>wq_in_flight := kept @ (d, bad) # post\<rparr> = q" by (cases q) simp
  with Nil show ?case by (simp add: expired_def)
next
  case (Cons x pre)
  obtain i e where x: "x = (i, e)" by fastforce
  from Cons.prems(3) x obtain b where b: "expired now e = Some b" by (auto simp: expired_def)
  show ?case
  proof (cases b)
    case True
    let ?q = "q\<lparr>wq_in_flight := dict_del i (wq_in_flight q)\<rparr>"
    have "filter (\<lambda>(j, _). j \<noteq> i) xs = xs" if "\<forall>x \<in> set xs. i \<noteq> fst x" for xs :: "(string, in_flight_entry) dict"
      by (rule filter_True) (use that in auto)
    then have "dict_del i (wq_in_flight q) = kept @ pre @ (d, bad) # post"
      using Cons.prems(1,2) unfolding x by (auto simp: dict_del_filter image_iff)
    then have "collect_expired now (pre @ (d, bad) # post) ?q =
        (Inl type_error, ?q\<lparr>wq_in_flight := kept @ filter (\<lambda>(i, e). expired now e \<noteq> Some True) pre @ (d, bad) # post\<rparr>)"
      using Cons.prems(1-4) unfolding x by (intro Cons.IH) auto
    then show ?thesis by (simp add: x b True)
  next
    case False
    from Cons.IH[of q "kept @ [(i, e)]"] Cons.prems show ?thesis by (simp add: x b False)
  qed
qed

text \<open>
  C22. One bad entry stops redelivery and loses messages. If an in-flight entry's visibility timeout is not a number
  (\<open>enqueue\<close> takes any value, as the header \<open>_wq_visibility_timeout\<close> too), the sweep that meets it raises and ends the
  reaper thread. The expired entries before it have left the in-flight table by then and are neither requeued nor
  dead-lettered: their payloads are gone from the queue. And since the flag still says that a reaper
  runs, no later delivery starts another.
\<close>

theorem bad_timeout_stops_reaper:
  assumes "wq_in_flight q = pre @ (d, bad) # post" and "dict_ok (wq_in_flight q)"
    and "\<forall>(i, e) \<in> set pre. num_of (e_visibility_timeout e) \<noteq> None" and "num_of (e_visibility_timeout bad) = None"
    and "wq_reaper_running q"
  shows "case reaper_sweep uuid4 now date q of (r, q') \<Rightarrow>
    r = Inl type_error \<and> wq_pending q' = wq_pending q \<and>
    contents q = contents q' + in_flight_contents (filter (\<lambda>(i, e). expired now e = Some True) pre) \<and>
    \<not> fst (start_reaper_if_needed q')"
proof -
  let ?live = "filter (\<lambda>(i, e). expired now e \<noteq> Some True) pre" and ?dead = "filter (\<lambda>(i, e). expired now e = Some True) pre"
  have "reaper_sweep uuid4 now date q = (Inl type_error, q\<lparr>wq_in_flight := ?live @ (d, bad) # post\<rparr>)"
    using collect_until_bad[of q "[]" pre d bad post now] assms(1-4) by (simp add: reaper_sweep_def)
  moreover have "in_flight_contents pre = in_flight_contents ?live + in_flight_contents ?dead"
    by (induction pre) (auto simp: in_flight_contents_def)
  ultimately show ?thesis
    using assms(1,5) by (simp add: contents_def start_reaper_if_needed_def in_flight_contents_def)
qed

definition demo_entry :: "string \<Rightarrow> pyval \<Rightarrow> pyval \<Rightarrow> in_flight_entry" where
  "demo_entry d payload vt = \<lparr>e_message = \<lparr>m_id = d, m_topic = ''jobs'', m_payload = payload, m_headers = [], m_timestamp = 0, m_reply_to = None,
     m_correlation_id = None\<rparr>, e_delivery_id = d, e_topic = ''jobs'', e_consumer_group = ''g'', e_delivered_at = 0, e_visibility_timeout = vt,
     e_retry_count = PInt 0\<rparr>"

definition demo_poisoned :: "string work_queue" where
  "demo_poisoned = (wq_init 0 30 3)\<lparr>wq_in_flight := [(''a'', demo_entry ''a'' (PInt 1) (PFloat 5)), (''b'', demo_entry ''b'' (PInt 2) (PStr ''5''))],
     wq_reaper_running := True\<rparr>"

theorem bad_timeout_stops_reaper_witness:
  "contents demo_poisoned = {#PInt 1, PInt 2#} \<and> contents (snd (reaper_sweep demo_uuid 10 [] demo_poisoned)) = {#PInt 2#}"
proof -
  have "contents demo_poisoned = {#PInt 1, PInt 2#}"
    by (simp add: demo_poisoned_def demo_entry_def wq_init_def contents_def pending_contents_def in_flight_contents_def)
  moreover have "case reaper_sweep demo_uuid 10 [] demo_poisoned of (r, q') \<Rightarrow> r = Inl type_error \<and> wq_pending q' = wq_pending demo_poisoned \<and>
      contents demo_poisoned = contents q' + in_flight_contents (filter (\<lambda>(i, e). expired 10 e = Some True) [(''a'', demo_entry ''a'' (PInt 1) (PFloat 5))]) \<and>
      \<not> fst (start_reaper_if_needed q')"
    by (rule bad_timeout_stops_reaper[where d = "''b''" and bad = "demo_entry ''b'' (PInt 2) (PStr ''5'')" and post = "[]"])
      (simp_all add: demo_poisoned_def demo_entry_def wq_init_def num_of_def)
  ultimately show ?thesis
    by (auto simp: case_prod_beta in_flight_contents_def expired_def demo_entry_def num_of_def)
qed

end
