(* ===== verification/Work_Queue_Leases.thy ===== *)
theory Work_Queue_Leases
  imports Work_Queue_System
begin

text \<open>
  What \<open>WorkQueue\<close> (\<open>src/eventforge/work_queue.py\<close>) promises, as an abstract queue with leases, and the proof
  that the critical sections of the class, interleaved in any way, implement it. The abstract queue has no
  headers, message ids, clocks, consumer groups, cursors or dispatch calls: a job is a payload and the
  number of times it came back; a lease says which job of which topic is out under a delivery id.
\<close>

section \<open>The abstract queue\<close>

type_synonym job = "pyval \<times> int"

record lease_queue =
  lq_waiting :: "string \<Rightarrow> job list"
  lq_leases :: "string \<Rightarrow> (string \<times> job) option"

definition lq_init :: lease_queue where
  "lq_init = \<lparr>lq_waiting = (\<lambda>_. []), lq_leases = (\<lambda>_. None)\<rparr>"

definition lease_out :: "string list \<Rightarrow> string \<times> job \<Rightarrow> (string \<Rightarrow> (string \<times> job) option) \<Rightarrow> string \<Rightarrow> (string \<times> job) option" where
  "lease_out ds x L = (\<lambda>d. if d \<in> set ds then Some x else L d)"

lemma lease_out_Nil [simp]: "lease_out [] x L = L"
  by (simp add: lease_out_def)

text \<open>
  The steps, with \<open>mx\<close> the bound of redelivery: a job is added last; the first job of a topic goes out under
  new ids (one for a pull, one per group for a push); a lease ends with an acknowledgement, or the job
  comes back to the front of its topic with its count raised, as long as the count is below the bound, or
  it goes to the dead letters. Without a rejection (a lease that ran out) the last happens only at the bound.
\<close>

inductive lease_step :: "int \<Rightarrow> lease_queue \<Rightarrow> wq_event \<Rightarrow> lease_queue \<Rightarrow> bool" for mx where
  add: "lease_step mx a (Enqueued p) (a\<lparr>lq_waiting := (lq_waiting a)(t := lq_waiting a t @ [(p, 0)])\<rparr>)"
| lend: "lq_waiting a t = j # js \<Longrightarrow> ds \<noteq> [] \<Longrightarrow> distinct ds \<Longrightarrow> (\<forall>d \<in> set ds. lq_leases a d = None) \<Longrightarrow>
    lease_step mx a Quiet (a\<lparr>lq_waiting := (lq_waiting a)(t := js), lq_leases := lease_out ds (t, j) (lq_leases a)\<rparr>)"
| finish: "lq_leases a d = Some (t, p, k) \<Longrightarrow> lease_step mx a (Acked d p) (a\<lparr>lq_leases := (lq_leases a)(d := None)\<rparr>)"
| give_back: "lq_leases a d = Some (t, p, k) \<Longrightarrow> k + 1 < mx \<Longrightarrow> ev \<in> {Nacked d, Quiet} \<Longrightarrow>
    lease_step mx a ev (a\<lparr>lq_waiting := (lq_waiting a)(t := (p, k + 1) # lq_waiting a t), lq_leases := (lq_leases a)(d := None)\<rparr>)"
| bury: "lq_leases a d = Some (t, p, k) \<Longrightarrow> ev = Nacked d \<or> ev = Quiet \<and> mx \<le> k + 1 \<Longrightarrow>
    lease_step mx a ev (a\<lparr>lq_waiting := (lq_waiting a)(dl_topic t := lq_waiting a (dl_topic t) @ [(p, k)]),
      lq_leases := (lq_leases a)(d := None)\<rparr>)"

definition shown :: "wq_event \<Rightarrow> wq_event list" where
  "shown ev = (if ev = Quiet then [] else [ev])"

inductive lease_run :: "int \<Rightarrow> lease_queue \<Rightarrow> wq_event list \<Rightarrow> lease_queue \<Rightarrow> bool" for mx where
  start: "lease_run mx a [] a"
| step: "lease_run mx a tr b \<Longrightarrow> lease_step mx b ev c \<Longrightarrow> lease_run mx a (tr @ shown ev) c"

lemma shown_simps [simp]: "shown Quiet = []" "shown (Enqueued p) = [Enqueued p]" "shown (Acked d p) = [Acked d p]" "shown (Nacked d) = [Nacked d]"
  by (simp_all add: shown_def)

lemma lease_run_trans: "lease_run mx b tr' c \<Longrightarrow> lease_run mx a tr b \<Longrightarrow> lease_run mx a (tr @ tr') c"
  by (induction rule: lease_run.induct) (auto simp: append.assoc[symmetric] simp del: append_assoc intro: lease_run.step)

lemma lease_run_one: "lease_step mx a ev b \<Longrightarrow> lease_run mx a (shown ev) b"
  using lease_run.step[OF lease_run.start] by fastforce

section \<open>The queue of the code as an abstract queue\<close>

definition count_of :: "pyval \<Rightarrow> int" where
  "count_of v = (case v of PInt k \<Rightarrow> k | _ \<Rightarrow> 0)"

definition job_of :: "message \<Rightarrow> job" where
  "job_of m = (m_payload m, count_of (dict_get_default (m_headers m) retry_key (PInt 0)))"

definition lease_of :: "in_flight_entry \<Rightarrow> string \<times> job" where
  "lease_of e = (e_topic e, m_payload (e_message e), count_of (e_retry_count e))"

definition lq_of :: "'h work_queue \<Rightarrow> lease_queue" where
  "lq_of q = \<lparr>lq_waiting = (\<lambda>t. map job_of (pending_of q t)), lq_leases = (\<lambda>d. map_option lease_of (dict_get (wq_in_flight q) d))\<rparr>"

lemma count_of_PInt [simp]: "count_of (PInt k) = k"
  by (simp add: count_of_def)

lemma lq_of_same: "(\<And>t. pending_of q' t = pending_of q t) \<Longrightarrow> wq_in_flight q' = wq_in_flight q \<Longrightarrow> lq_of q' = lq_of q"
  by (simp add: lq_of_def)

lemma lq_of_draw [simp]: "lq_of (draw q) = lq_of q"
  by (rule lq_of_same) simp_all

lemma job_of_requeued [simp]:
  "job_of (m\<lparr>m_headers := dict_set retry_key (PInt k) (m_headers m)\<rparr>) = (m_payload m, k)"
  by (simp add: job_of_def)

lemma job_of_dead_letter [simp]: "job_of (dead_letter_message mid date t reason m) = job_of m"
  by (auto simp: job_of_def dead_letter_message_def dict_get_default_def)

lemma job_of_new:
  "dict_ok hs \<Longrightarrow> dict_get hs retry_key = None \<Longrightarrow> job_of (wq_new_message mid date stamp dflt topic payload vt hs) = (payload, 0)"
  by (simp add: job_of_def wq_new_message_def Let_def dict_get_merge dict_get_default_def)

lemma entry_job: "wf_entry mx e \<Longrightarrow> job_of (e_message e) = (m_payload (e_message e), count_of (e_retry_count e))"
  by (simp add: job_of_def wf_entry_def dict_get_default_def)

subsection \<open>A lease ends\<close>

text \<open>The abstract queue with the leases of some entries added: what a sweep has taken out but not yet placed.\<close>

fun holding :: "in_flight_entry list \<Rightarrow> 'h work_queue \<Rightarrow> lease_queue" where
  "holding [] q = lq_of q"
| "holding (e # es) q = (holding es q)\<lparr>lq_leases := (lq_leases (holding es q))(e_delivery_id e := Some (lease_of e))\<rparr>"

lemma lq_of_sel [simp]:
  "lq_waiting (lq_of q) t = map job_of (pending_of q t)" "lq_leases (lq_of q) d = map_option lease_of (dict_get (wq_in_flight q) d)"
  by (simp_all add: lq_of_def)

lemma holding_waiting [simp]: "lq_waiting (holding es q) = lq_waiting (lq_of q)"
  by (induction es) simp_all

lemma holding_other: "d \<notin> e_delivery_id ` set es \<Longrightarrow> lq_leases (holding es q) d = lq_leases (lq_of q) d"
  by (induction es) auto

lemma holding_leases: "wq_in_flight q' = wq_in_flight q \<Longrightarrow> lq_leases (holding es q') = lq_leases (holding es q)"
  by (induction es) (simp_all add: lq_of_def)

lemma lease_queue_eqI: "lq_waiting a = lq_waiting b \<Longrightarrow> lq_leases a = lq_leases b \<Longrightarrow> a = (b :: lease_queue)"
  by simp

definition put_back :: "(nat \<Rightarrow> string) \<Rightarrow> string \<Rightarrow> bool \<Rightarrow> string \<Rightarrow> in_flight_entry \<Rightarrow> int \<Rightarrow> 'h work_queue \<Rightarrow> 'h work_queue" where
  "put_back uuid4 date again reason e k q =
     (if again then requeue_front e (PInt (k + 1)) q else dead_letter uuid4 date (e_message e) (e_topic e) reason q)"

lemma put_back_in_flight [simp]: "wq_in_flight (put_back uuid4 date again reason e k q) = wq_in_flight q"
  by (simp add: put_back_def requeue_front_def dead_letter_def)

lemma put_back_step:
  assumes "e_delivery_id e \<notin> e_delivery_id ` set es" "dict_get (wq_in_flight q) (e_delivery_id e) = None"
    and "wf_entry mx' e" "e_retry_count e = PInt k"
    and "if again then k + 1 < mx \<and> ev \<in> {Nacked (e_delivery_id e), Quiet} else ev = Nacked (e_delivery_id e) \<or> ev = Quiet \<and> mx \<le> k + 1"
  shows "lease_step mx (holding (e # es) q) ev (holding es (put_back uuid4 date again reason e k q))"
proof -
  let ?d = "e_delivery_id e" and ?p = "m_payload (e_message e)"
  define a where "a = holding (e # es) q"
  define b where "b = holding es (put_back uuid4 date again reason e k q)"
  have lease: "lq_leases a ?d = Some (e_topic e, ?p, k)" by (simp add: a_def lease_of_def assms(4))
  have ends: "lq_leases b = (lq_leases a)(?d := None)"
    using holding_leases[of "put_back uuid4 date again reason e k q" q es] holding_other[OF assms(1), of q] assms(2)
    by (auto simp: fun_eq_iff a_def b_def)
  have j: "job_of (e_message e) = (?p, k)" using entry_job[OF assms(3)] assms(4) by simp
  have w: "lq_waiting b = (if again then (lq_waiting a)(e_topic e := (?p, k + 1) # lq_waiting a (e_topic e))
      else (lq_waiting a)(dl_topic (e_topic e) := lq_waiting a (dl_topic (e_topic e)) @ [(?p, k)]))"
    using j by (auto simp: fun_eq_iff a_def b_def put_back_def dead_letter_def)
  have "b = a\<lparr>lq_waiting := lq_waiting b, lq_leases := (lq_leases a)(?d := None)\<rparr>" by (rule lease_queue_eqI) (simp_all add: ends)
  then show ?thesis
    using lease_step.give_back[OF lease, of mx ev] lease_step.bury[OF lease, of ev mx] assms(5) w
    unfolding a_def[symmetric] b_def[symmetric] by (cases again) simp_all
qed

lemma holding_taken:
  "dict_get (wq_in_flight q) (e_delivery_id e) = Some e \<Longrightarrow>
     holding [e] (q\<lparr>wq_in_flight := dict_del (e_delivery_id e) (wq_in_flight q)\<rparr>) = lq_of q"
  by (intro lease_queue_eqI) (auto simp: fun_eq_iff)

text \<open>A rejection, in the one critical section of \<open>nack\<close>.\<close>

lemma nack_leases:
  assumes "wq_inv uuid4 q" "nack_locked uuid4 date d requeue q = (r, tt, q')"
  shows "lease_run (wq_max_retries q) (lq_of q) (shown (nack_event d r)) (lq_of q')"
proof (cases "dict_get (wq_in_flight q) d")
  case None
  with assms(2) show ?thesis by (auto simp: nack_locked_def nack_event_def intro: lease_run.start)
next
  case (Some e)
  have d: "e_delivery_id e = d" using assms(1) Some by (simp add: wq_inv_def ids_ok_def)
  note wf = inv_entry[OF assms(1) Some]
  from wf obtain k where k: "e_retry_count e = PInt k" by (rule wf_entry_retry)
  let ?q1 = "q\<lparr>wq_in_flight := dict_del d (wq_in_flight q)\<rparr>" and ?again = "requeue \<and> k + 1 < wq_max_retries q"
  have out: "r = Inr True" "\<exists>reason. q' = put_back uuid4 date ?again reason e k ?q1"
    using assms(2) by (auto simp: nack_locked_cases[OF Some k] put_back_def Let_def split: if_splits)
  then obtain reason where q': "q' = put_back uuid4 date ?again reason e k ?q1" by blast
  have "lease_step (wq_max_retries q) (holding [e] ?q1) (Nacked d) (holding [] q')"
    unfolding q' using d by (intro put_back_step[OF _ _ wf k]) auto
  then show ?thesis
    using lease_run_one holding_taken[of q e] Some d out(1) by (force simp: nack_event_def)
qed

subsection \<open>A sweep of the reaper\<close>

lemma collect_expired_holding:
  assumes "wq_inv uuid4 q" "dict_ok items" "\<forall>(d, e) \<in> set items. dict_get (wq_in_flight q) d = Some e"
    and "collect_expired now items q = (Inr es, q')"
  shows "holding es q' = lq_of q \<and> distinct (map e_delivery_id es) \<and> e_delivery_id ` set es \<subseteq> fst ` set items \<and>
    (\<forall>e \<in> set es. wf_entry (wq_max_retries q) e \<and> dict_get (wq_in_flight q') (e_delivery_id e) = None) \<and>
    (\<forall>d. dict_get (wq_in_flight q) d = None \<longrightarrow> dict_get (wq_in_flight q') d = None) \<and> wq_max_retries q' = wq_max_retries q"
  using assms
proof (induction items arbitrary: q es)
  case (Cons x items)
  obtain d e where x: "x = (d, e)" by fastforce
  with Cons.prems(3) have e: "dict_get (wq_in_flight q) d = Some e" by simp
  have d: "e_delivery_id e = d" using Cons.prems(1) e by (simp add: wq_inv_def ids_ok_def)
  note wf = inv_entry[OF Cons.prems(1) e]
  from expired_wf[OF wf] obtain vt where ex: "expired now e = Some (vt \<le> now - e_delivered_at e)" by blast
  show ?case
  proof (cases "vt \<le> now - e_delivered_at e")
    case True
    let ?q1 = "q\<lparr>wq_in_flight := dict_del d (wq_in_flight q)\<rparr>"
    obtain es' where es: "es = e # es'" "collect_expired now items ?q1 = (Inr es', q')"
      using Cons.prems(4) x ex True by (auto split: prod.splits sum.splits)
    have "\<forall>(d', e') \<in> set items. dict_get (wq_in_flight ?q1) d' = Some e'" using Cons.prems(2,3) x by force
    note IH = Cons.IH[OF evolves_inv[OF evolves_del[OF Cons.prems(1)]] _ this es(2)]
    have dis: "d \<notin> fst ` set items" using Cons.prems(2) x by auto
    have "holding es q' = holding [e] ?q1"
      using IH Cons.prems(2) by (intro lease_queue_eqI) (simp_all add: es(1))
    also have "\<dots> = lq_of q" using holding_taken[of q e] e d by simp
    finally show ?thesis using IH Cons.prems(2) dis wf d x by (auto simp: es(1))
  next
    case False
    then have "collect_expired now items q = (Inr es, q')" using Cons.prems(4) x ex by simp
    note IH = Cons.IH[OF Cons.prems(1) _ _ this]
    have "dict_ok items" "\<forall>(d, e) \<in> set items. dict_get (wq_in_flight q) d = Some e" using Cons.prems(2,3) by simp_all
    note IH[OF this]
    then show ?thesis by auto
  qed
qed auto

lemma reap_entries_leases:
  assumes "distinct (map e_delivery_id es)" "\<forall>e \<in> set es. wf_entry mx e \<and> dict_get (wq_in_flight q) (e_delivery_id e) = None"
    and "wq_max_retries q = mx" "reap_entries uuid4 date es q = (r, q')"
  shows "lease_run mx (holding es q) [] (lq_of q')"
  using assms
proof (induction es arbitrary: q r)
  case Nil
  then show ?case by (simp add: lease_run.start)
next
  case (Cons e es)
  have wf: "wf_entry mx e" using Cons.prems(2) by simp
  from wf obtain k where k: "e_retry_count e = PInt k" by (rule wf_entry_retry)
  define q1 where "q1 = put_back uuid4 date (k + 1 < mx) ''visibility_timeout_exceeded'' e k q"
  have "lease_step mx (holding (e # es) q) Quiet (holding es q1)"
    unfolding q1_def using Cons.prems(1,2) by (intro put_back_step[OF _ _ wf k]) auto
  then have 1: "lease_run mx (holding (e # es) q) [] (holding es q1)" using lease_run_one by fastforce
  obtain r1 where "reap_entries uuid4 date es q1 = (r1, q')"
    using Cons.prems(3,4) k by (auto simp: q1_def put_back_def split: if_splits prod.splits sum.splits)
  moreover have "wq_max_retries q1 = mx" using Cons.prems(3) by (simp add: q1_def put_back_def requeue_front_def dead_letter_def)
  ultimately have "lease_run mx (holding es q1) [] (lq_of q')"
    using Cons.IH[of q1 r1] Cons.prems(1,2) by (simp add: q1_def)
  from lease_run_trans[OF this 1] show ?case by simp
qed

lemma sweep_leases:
  assumes "wq_inv uuid4 q" "reaper_sweep uuid4 now date q = (r, q')"
  shows "lease_run (wq_max_retries q) (lq_of q) [] (lq_of q')"
proof -
  have items: "dict_ok (wq_in_flight q)" "\<forall>(d, e) \<in> set (wq_in_flight q). dict_get (wq_in_flight q) d = Some e"
    using inv_in_flight_ok[OF assms(1)] by auto
  obtain es q1 where c: "collect_expired now (wq_in_flight q) q = (Inr es, q1)"
    using collect_expired_spec[OF assms(1) items, of now] by blast
  note h = collect_expired_holding[OF assms(1) items c]
  have "reap_entries uuid4 date es q1 = (r, q')" using assms(2) c by (simp add: reaper_sweep_def)
  then show ?thesis using reap_entries_leases[of es "wq_max_retries q" q1] h by auto
qed

subsection \<open>Messages go out\<close>

lemma make_in_flight_leases:
  assumes "wf_message (wq_max_retries q) m" "make_in_flight uuid4 now m t g q = (m', q')"
  shows "lq_leases (lq_of q') = lease_out [uuid4 (wq_drawn q)] (t, job_of m) (lq_leases (lq_of q))"
proof -
  obtain e where e: "wq_in_flight q' = dict_set (uuid4 (wq_drawn q)) e (wq_in_flight q)" "e_message e = m" "e_topic e = t"
    "e_retry_count e = dict_get_default (m_headers m) retry_key (PInt 0)"
    using make_in_flight_entry[OF assms(2)] by blast
  then show ?thesis by (auto simp: lease_out_def lease_of_def job_of_def fun_eq_iff)
qed

lemma dequeue_leases:
  assumes "inj uuid4" "wq_inv uuid4 q" "wq_dequeue uuid4 now topic timeout q = (r, q')"
  shows "lease_run mx (lq_of q) [] (lq_of q')"
proof (cases "wq_closed q \<or> pending_of q topic = []")
  case True
  with assms(3) show ?thesis by (auto simp: wq_dequeue_def intro: lease_run.start split: if_splits list.splits)
next
  case False
  then obtain m rest where p: "pending_of q topic = m # rest" by (cases "pending_of q topic") auto
  define q1 where "q1 = set_pending topic rest q"
  obtain dl where mk: "make_in_flight uuid4 now m topic (topic @ ''._pull'') q1 = (dl, q')"
    using assms(3) p False by (auto simp: wq_dequeue_def q1_def split: prod.splits)
  have wf: "wf_message (wq_max_retries q1) m" using p inv_pending[OF assms(2), of m topic] by (simp add: q1_def)
  have fresh: "lq_leases (lq_of q) (uuid4 (wq_drawn q)) = None"
    using ids_ok_fresh[of uuid4 q "wq_drawn q"] assms(1,2) by (simp add: wq_inv_def)
  have "lq_of q' = (lq_of q)\<lparr>lq_waiting := (lq_waiting (lq_of q))(topic := map job_of rest),
      lq_leases := lease_out [uuid4 (wq_drawn q)] (topic, job_of m) (lq_leases (lq_of q))\<rparr>"
    using make_in_flight_leases[OF wf mk] make_in_flight_pending[OF mk]
    by (intro lease_queue_eqI) (auto simp: q1_def fun_eq_iff lease_out_def)
  then show ?thesis
    using lease_run_one[OF lease_step.lend[of "lq_of q" topic "job_of m" "map job_of rest" "[uuid4 (wq_drawn q)]" mx]] p fresh by simp
qed

definition thread_ids :: "'h thread list \<Rightarrow> string list" where
  "thread_ids ts = map (\<lambda>(h, m, d). d) ts"

lemma thread_ids_simps [simp]:
  "thread_ids [] = []" "thread_ids ((h, m, d) # ts) = d # thread_ids ts" "thread_ids (ts @ ts') = thread_ids ts @ thread_ids ts'"
  "thread_ids ts = [] \<longleftrightarrow> ts = []"
  by (simp_all add: thread_ids_def)

text \<open>The leases one message gets: one per group with consumers, under new ids.\<close>

definition lends :: "string \<Rightarrow> message \<Rightarrow> 'h thread list \<Rightarrow> 'h work_queue \<Rightarrow> 'h work_queue \<Rightarrow> bool" where
  "lends topic m ts q q' \<longleftrightarrow> distinct (thread_ids ts) \<and> (\<forall>d \<in> set (thread_ids ts). lq_leases (lq_of q) d = None) \<and>
     lq_leases (lq_of q') = lease_out (thread_ids ts) (topic, job_of m) (lq_leases (lq_of q))"

lemma lends_trans: "lends topic m ts q q1 \<Longrightarrow> lends topic m ts' q1 q' \<Longrightarrow> lends topic m (ts @ ts') q q'"
  unfolding lends_def by (auto simp: lease_out_def fun_eq_iff split: if_splits)

lemma dispatch_to_group_lends:
  assumes "inj uuid4" "wq_inv uuid4 q" "wf_message (wq_max_retries q) m"
    and "dispatch_to_group uuid4 now topic many m key q = (ts, q')"
  shows "lends topic m ts q q'"
proof (cases "dict_get_default (wq_groups q) key []")
  case Nil
  with assms(4) show ?thesis by (auto simp: dispatch_to_group_def lends_def lease_out_def)
next
  case (Cons e es)
  define q1 where "q1 = (if many then draw q else q)"
  define m1 where "m1 = (if many then m\<lparr>m_id := uuid4 (wq_drawn q)\<rparr> else m)"
  obtain dl q2 where mk: "make_in_flight uuid4 now m1 topic (snd key) q1 = (dl, q2)" by fastforce
  have out: "\<exists>h. ts = [(h, dl, uuid4 (wq_drawn q1))]" "wq_in_flight q' = wq_in_flight q2"
    using assms(4) Cons mk by (auto simp: dispatch_to_group_def q1_def m1_def Let_def split: if_splits prod.splits)
  have wf: "wf_message (wq_max_retries q1) m1" using assms(3) by (simp add: m1_def q1_def wf_message_def)
  have same: "lq_of q1 = lq_of q" "job_of m1 = job_of m" by (simp_all add: q1_def m1_def job_of_def)
  have "lq_leases (lq_of q) (uuid4 (wq_drawn q1)) = None"
    using ids_ok_fresh[of uuid4 q "wq_drawn q1"] assms(1,2) by (simp add: wq_inv_def q1_def)
  moreover have "lq_leases (lq_of q') = lq_leases (lq_of q2)" by (simp add: lq_of_def out(2))
  ultimately show ?thesis using make_in_flight_leases[OF wf mk] out(1) by (auto simp: lends_def same)
qed

lemma dispatch_groups_lends:
  assumes "inj uuid4" "wq_inv uuid4 q" "wf_message (wq_max_retries q) m"
    and "dispatch_groups uuid4 now topic many m keys q = (ts, q')"
  shows "lends topic m ts q q'"
  using assms(2-)
proof (induction keys arbitrary: q ts)
  case Nil
  then show ?case by (simp add: lends_def)
next
  case (Cons key keys)
  obtain ts1 q1 where d: "dispatch_to_group uuid4 now topic many m key q = (ts1, q1)" by fastforce
  obtain ts2 where ds: "dispatch_groups uuid4 now topic many m keys q1 = (ts2, q')" "ts = ts1 @ ts2"
    using Cons.prems(3) d by (auto split: prod.splits)
  have ev: "evolves uuid4 q q1" using dispatch_to_group_spec[OF assms(1) Cons.prems(1,2) d] by simp
  have "lends topic m ts2 q1 q'"
    using Cons.IH[OF evolves_inv[OF ev] _ ds(1)] Cons.prems(2) evolves_max[OF ev] by simp
  with dispatch_to_group_lends[OF assms(1) Cons.prems(1,2) d] show ?case unfolding ds(2) by (rule lends_trans)
qed

text \<open>The loop over the pending messages, whose list is written back when it ends.\<close>

definition with_waiting :: "string \<Rightarrow> message list \<Rightarrow> 'h work_queue \<Rightarrow> lease_queue" where
  "with_waiting topic ms q = (lq_of q)\<lparr>lq_waiting := (lq_waiting (lq_of q))(topic := map job_of ms)\<rparr>"

lemma dispatch_pending_leases:
  assumes "inj uuid4" "wq_inv uuid4 q" "\<forall>m \<in> set ms. wf_message (wq_max_retries q) m"
    and "dispatch_pending uuid4 now topic keys ms q = (ts, rest, q')"
  shows "lease_run mx (with_waiting topic ms q) [] (with_waiting topic rest q')"
  using assms(2-)
proof (induction ms arbitrary: q ts)
  case Nil
  then show ?case by (simp add: lease_run.start)
next
  case (Cons m ms)
  obtain ts1 q1 where d: "dispatch_groups uuid4 now topic (1 < length keys) m keys q = (ts1, q1)" by fastforce
  have wf: "wf_message (wq_max_retries q) m" using Cons.prems(2) by simp
  note spec = dispatch_groups_spec[OF assms(1) Cons.prems(1) wf d] and out = dispatch_groups_lends[OF assms(1) Cons.prems(1) wf d]
  have shape: "lq_waiting (lq_of q1) = lq_waiting (lq_of q)" using spec by (simp add: lq_of_def pending_of_def same_shape_def)
  show ?case
  proof (cases "ts1 = []")
    case True
    then have "lq_leases (lq_of q1) = lq_leases (lq_of q)" using out by (simp add: lends_def)
    then have "with_waiting topic (m # ms) q1 = with_waiting topic (m # ms) q"
      using shape by (intro lease_queue_eqI) (simp_all add: with_waiting_def)
    with True d Cons.prems(3) show ?thesis by (auto intro: lease_run.start)
  next
    case False
    let ?a = "with_waiting topic (m # ms) q"
    have "with_waiting topic ms q1 = ?a\<lparr>lq_waiting := (lq_waiting ?a)(topic := map job_of ms),
        lq_leases := lease_out (thread_ids ts1) (topic, job_of m) (lq_leases ?a)\<rparr>"
      using shape out by (intro lease_queue_eqI) (simp_all add: with_waiting_def lends_def)
    moreover have "lease_step mx ?a Quiet (?a\<lparr>lq_waiting := (lq_waiting ?a)(topic := map job_of ms),
        lq_leases := lease_out (thread_ids ts1) (topic, job_of m) (lq_leases ?a)\<rparr>)"
      using out False by (intro lease_step.lend) (auto simp: with_waiting_def lends_def)
    ultimately have 1: "lease_run mx ?a [] (with_waiting topic ms q1)" using lease_run_one[of mx ?a Quiet] by simp
    obtain ts2 where ds: "dispatch_pending uuid4 now topic keys ms q1 = (ts2, rest, q')"
      using Cons.prems(3) d False by (auto split: prod.splits)
    have "lease_run mx (with_waiting topic ms q1) [] (with_waiting topic rest q')"
      using Cons.IH[OF _ _ ds] Cons.prems(2) spec evolves_inv evolves_max by fastforce
    from lease_run_trans[OF this 1] show ?thesis by simp
  qed
qed

lemma dispatch_leases:
  assumes "inj uuid4" "wq_inv uuid4 q" "try_dispatch uuid4 now topic q = (ts, q')"
  shows "lease_run mx (lq_of q) [] (lq_of q')"
proof (cases "topic_groups topic q = []")
  case True
  with assms(3) show ?thesis by (auto simp: try_dispatch_def intro: lease_run.start)
next
  case False
  obtain rest q1 where dp: "dispatch_pending uuid4 now topic (topic_groups topic q) (pending_of q topic) q = (ts, rest, q1)"
    "q' = set_pending topic rest q1"
    using assms(3) False by (auto simp: try_dispatch_def split: prod.splits)
  have "with_waiting topic (pending_of q topic) q = lq_of q" "with_waiting topic rest q1 = lq_of q'"
    unfolding with_waiting_def dp(2) by (intro lease_queue_eqI; auto simp: fun_eq_iff)+
  with dispatch_pending_leases[OF assms(1,2) _ dp(1), of mx] inv_pending[OF assms(2)] show ?thesis by simp
qed

section \<open>Refinement\<close>

lemma step_leases:
  assumes "wq_step uuid4 s ev s'" "inj uuid4" "wq_inv uuid4 (s_queue s)"
  shows "lease_run (wq_max_retries (s_queue s)) (lq_of (s_queue s)) (shown ev) (lq_of (s_queue s'))"
  using assms(1)
proof cases
  case (enqueue date stamp topic payload vt headers mid q')
  let ?a = "lq_of (s_queue s)"
  have "lq_of q' = ?a\<lparr>lq_waiting := (lq_waiting ?a)(topic := lq_waiting ?a topic @ [(payload, 0)])\<rparr>"
    using enqueue(3) job_of_new[OF enqueue(4,5)]
    by (intro lease_queue_eqI) (auto simp: wq_append_def Let_def fun_eq_iff split: if_splits)
  with enqueue lease_run_one[OF lease_step.add[of _ ?a payload topic]] show ?thesis by simp
next
  case (full date stamp topic payload vt headers e q')
  then show ?thesis using append_full[OF full(3)] by (simp add: lease_run.start)
next
  case (consume topic h grp cid q')
  then show ?thesis
    using register_fields[OF consume(3)] lq_of_same[of q' "s_queue s"] by (simp add: pending_of_def lease_run.start)
next
  case (remove cid b q')
  then show ?thesis
    using remove_fields[OF remove(3)] lq_of_same[of q' "s_queue s"] by (simp add: pending_of_def lease_run.start)
next
  case (dequeue now topic timeout r q')
  then show ?thesis using dequeue_leases[OF assms(2,3) dequeue(3)] by simp
next
  case (ack d e q')
  let ?a = "lq_of (s_queue s)"
  have "lq_of q' = ?a\<lparr>lq_leases := (lq_leases ?a)(d := None)\<rparr>"
    using ack by (intro lease_queue_eqI) (auto simp: wq_ack_def fun_eq_iff split: if_splits)
  moreover have "lq_leases ?a d = Some (e_topic e, m_payload (e_message e), count_of (e_retry_count e))"
    using ack by (simp add: lease_of_def)
  ultimately show ?thesis using ack lease_run_one[OF lease_step.finish] by fastforce
next
  case (ack_unknown d q')
  then show ?thesis by (auto simp: wq_ack_def lease_run.start split: if_splits)
next
  case (nack date d requeue r tt q')
  then show ?thesis using nack_leases[OF assms(3) nack(3)] by simp
next
  case (dispatch topic now ts q')
  then show ?thesis using dispatch_leases[OF assms(2,3) dispatch(4)] by simp
next
  case (handler_returns th)
  then show ?thesis by (simp add: lease_run.start)
next
  case (handler_raises h m d date r tt q')
  then show ?thesis using nack_leases[OF assms(3) handler_raises(4)] by simp
next
  case (sweep now date r q')
  then show ?thesis using sweep_leases[OF assms(3) sweep(3)] by simp
qed

lemma run_leases:
  assumes "wq_run uuid4 s0 evs s" "inj uuid4" "wq_inv uuid4 (s_queue s0)" "groups_ok uuid4 (s_queue s0)" "served s0"
  shows "lease_run (wq_max_retries (s_queue s0)) (lq_of (s_queue s0)) (concat (map shown evs)) (lq_of (s_queue s))"
  using assms
proof (induction rule: wq_run.induct)
  case (start s)
  then show ?case by (simp add: lease_run.start)
next
  case (step s0 evs s ev s')
  have ev: "evolves uuid4 (s_queue s0) (s_queue s)" using run_inv[OF step.hyps(1) step.prems] by simp
  show ?case
    using lease_run_trans[OF step_leases[OF step.hyps(2) assms(2) evolves_inv[OF ev]]] step evolves_max[OF ev] by simp
qed

text \<open>
  C2. The work queue is a queue with leases. Every run of \<open>WorkQueue\<close>, in any interleaving of its threads, is a
  run of the abstract queue with the same acceptances, acknowledgements and rejections: jobs go out in the
  order of their topic, under ids that are not in use; a lease ends once; a job that comes back goes to the
  front with its count raised, and only below \<open>max_retries\<close>; a lease that ran out is buried only at the bound.
\<close>

theorem work_queue_refines_leases:
  assumes "inj uuid4" and "wq_run uuid4 (sys_init n vt mx) evs s"
  shows "lease_run mx lq_init (filter (\<lambda>ev. ev \<noteq> Quiet) evs) (lq_of (s_queue s))"
proof -
  have "concat (map shown evs) = filter (\<lambda>ev. ev \<noteq> Quiet) evs" by (induction evs) (auto simp: shown_def)
  moreover have "lq_of (wq_init n vt mx :: 'a work_queue) = lq_init" by (simp add: lq_of_def lq_init_def wq_init_def pending_of_def)
  ultimately show ?thesis using run_leases[OF assms(2,1) sys_init_ok] by (simp add: sys_init_def wq_init_def)
qed

theorem work_queue_refines_leases_witness:
  "lease_run 3 lq_init [Enqueued (PInt 7), Acked ''u'' (PInt 7)] (lq_of (snd (wq_ack ''u'' demo_pulled)))"
  using work_queue_refines_leases[OF demo_uuid_inj demo_run_acked] by simp

end
