(* ===== verification/Rpc.thy ===== *)
theory Rpc
  imports Message_Queue
begin

text \<open>
  \<open>src/eventforge/rpc.py\<close>: the server's dispatch of requests, the client's call, the round-robin client and
  the retrying client, on top of the message queue. Conversion of requests and responses to and from
  payloads (\<open>model_dump\<close>, \<open>model_validate\<close>) is pydantic's and a parameter.
\<close>

section \<open>State\<close>

record 'f rpc_server =
  sv_service_name :: string
  sv_methods :: "(string, 'f) dict"
  sv_running :: bool
  sv_sub_id :: "string option"
  sv_stopped :: bool

record rpc_codec =
  dump_request :: "rpc_request \<Rightarrow> pyval"
  load_request :: "pyval \<Rightarrow> pyexn + rpc_request"
  dump_response :: "rpc_response \<Rightarrow> pyval"
  load_response :: "pyval \<Rightarrow> pyexn + rpc_response"

text \<open>
  Where the server finds its parts: the queue, the codec, its own fields, the call of a registered
  function, and the handler that stands for the bound method \<open>_handle_request\<close>.
\<close>

record ('h, 'f, 's) rpc_ctx =
  rc_queue :: "('h, 's) mq_ctx"
  rc_codec :: rpc_codec
  rc_server :: "'s \<Rightarrow> 'f rpc_server"
  rc_upd :: "('f rpc_server \<Rightarrow> 'f rpc_server) \<Rightarrow> 's \<Rightarrow> 's"
  rc_call :: "'f \<Rightarrow> pyval list \<Rightarrow> kwargs \<Rightarrow> ('s, pyval) py"
  rc_handler :: 'h

definition rpc_server_init :: "string \<Rightarrow> 'f rpc_server" where
  "rpc_server_init service_name =
     \<lparr>sv_service_name = service_name, sv_methods = [], sv_running = False, sv_sub_id = None, sv_stopped = False\<rparr>"

section \<open>The server\<close>

definition add_method :: "string \<Rightarrow> 'f \<Rightarrow> 'f rpc_server \<Rightarrow> 'f rpc_server" where
  "add_method name func sv = sv\<lparr>sv_methods := dict_set name func (sv_methods sv)\<rparr>"

text \<open>\<open>@server.register(name)\<close> on a function: an absent or empty name is the function's own.\<close>

definition register_method :: "string option \<Rightarrow> string \<Rightarrow> 'f \<Rightarrow> 'f rpc_server \<Rightarrow> 'f rpc_server" where
  "register_method name func_name func sv =
     add_method (case name of Some (c # cs) \<Rightarrow> c # cs | _ \<Rightarrow> func_name) func sv"

definition request_topic :: "string \<Rightarrow> string" where
  "request_topic service_name = service_name @ ''.request''"

text \<open>\<open>serve\<close> up to its wait for the stop event; \<open>serve_async\<close> has no running check.\<close>

definition subscribe_handler :: "('h, 'f, 's) rpc_ctx \<Rightarrow> ('s, unit) py" where
  "subscribe_handler R =
     py_seq (py_modify (rc_upd R (\<lambda>sv. sv\<lparr>sv_running := True, sv_stopped := False\<rparr>)))
     (py_bind (py_gets (\<lambda>s. request_topic (sv_service_name (rc_server R s)))) (\<lambda>topic.
     py_bind (mq_on (rc_queue R) topic (rc_handler R)) (\<lambda>sub_id.
       py_modify (rc_upd R (\<lambda>sv. sv\<lparr>sv_sub_id := Some sub_id\<rparr>)))))"

definition rpc_serve :: "('h, 'f, 's) rpc_ctx \<Rightarrow> ('s, unit) py" where
  "rpc_serve R = py_bind (py_gets (\<lambda>s. sv_running (rc_server R s))) (\<lambda>running.
     if running then py_ret () else subscribe_handler R)"

definition rpc_serve_async :: "('h, 'f, 's) rpc_ctx \<Rightarrow> ('s, unit) py" where
  "rpc_serve_async R = subscribe_handler R"

definition rpc_stop :: "('h, 'f, 's) rpc_ctx \<Rightarrow> ('s, unit) py" where
  "rpc_stop R =
     py_seq (py_modify (rc_upd R (\<lambda>sv. sv\<lparr>sv_running := False, sv_stopped := True\<rparr>)))
     (py_bind (py_gets (\<lambda>s. sv_sub_id (rc_server R s))) (\<lambda>sub_id.
       case sub_id of
         None \<Rightarrow> py_ret ()
       | Some i \<Rightarrow> py_seq (mq_unsubscribe (rc_queue R) i) (py_modify (rc_upd R (\<lambda>sv. sv\<lparr>sv_sub_id := None\<rparr>)))))"

subsection \<open>Handling a request\<close>

definition error_response :: "string \<Rightarrow> string \<Rightarrow> string \<Rightarrow> string \<Rightarrow> rpc_response" where
  "error_response i request_id error error_type =
     \<lparr>rs_id = i, rs_request_id = request_id, rs_result = PNone, rs_error = Some error, rs_error_type = Some error_type\<rparr>"

definition result_response :: "string \<Rightarrow> string \<Rightarrow> pyval \<Rightarrow> rpc_response" where
  "result_response i request_id result =
     \<lparr>rs_id = i, rs_request_id = request_id, rs_result = result, rs_error = None, rs_error_type = None\<rparr>"

text \<open>\<open>if msg.reply_to: self._queue.publish(msg.reply_to, response.model_dump())\<close>, with the response made only then.\<close>

definition respond :: "('h, 'f, 's) rpc_ctx \<Rightarrow> message \<Rightarrow> ('s, rpc_response) py \<Rightarrow> ('s, unit) py" where
  "respond R msg mk =
     (case m_reply_to msg of
        Some (c # cs) \<Rightarrow> py_bind mk (\<lambda>response.
          py_void (mq_publish (rc_queue R) (c # cs) (dump_response (rc_codec R) response) []))
      | _ \<Rightarrow> py_ret ())"

text \<open>
  The \<open>request_id\<close> of the answer to a payload that is no request: its \<open>id\<close> if it is a dictionary with one
  (which the response accepts only if it is a string), else \<open>unknown\<close>.
\<close>

definition invalid_request_id :: "pyval \<Rightarrow> pyexn + string" where
  "invalid_request_id payload = (case payload of
       PDict d \<Rightarrow> (case dict_get_default d ''id'' (PStr ''unknown'') of
                      PStr i \<Rightarrow> Inr i | _ \<Rightarrow> Inl (Exception ''ValidationError'' ''RPCResponse''))
     | _ \<Rightarrow> Inr ''unknown'')"

definition respond_invalid :: "('h, 'f, 's) rpc_ctx \<Rightarrow> message \<Rightarrow> pyexn \<Rightarrow> ('s, unit) py" where
  "respond_invalid R msg e = respond R msg
     (py_bind (mq_uuid (rc_queue R)) (\<lambda>i.
       case invalid_request_id (m_payload msg) of
         Inl err \<Rightarrow> py_raise err
       | Inr request_id \<Rightarrow> py_ret (error_response i request_id (''Invalid request: '' @ exn_str e) ''ValidationError'')))"

definition respond_not_found :: "('h, 'f, 's) rpc_ctx \<Rightarrow> message \<Rightarrow> rpc_request \<Rightarrow> ('s, unit) py" where
  "respond_not_found R msg request = respond R msg
     (py_bind (mq_uuid (rc_queue R)) (\<lambda>i.
       py_ret (error_response i (rq_id request) (''Method not found: '' @ rq_method request) ''MethodNotFound'')))"

definition run_method :: "('h, 'f, 's) rpc_ctx \<Rightarrow> 'f \<Rightarrow> rpc_request \<Rightarrow> ('s, rpc_response) py" where
  "run_method R func request =
     py_except
       (py_bind (rc_call R func (rq_args request) (rq_kwargs request)) (\<lambda>result.
        py_bind (mq_uuid (rc_queue R)) (\<lambda>i. py_ret (result_response i (rq_id request) result))))
       (\<lambda>e. py_bind (mq_uuid (rc_queue R)) (\<lambda>i. py_ret (error_response i (rq_id request) (exn_str e) (exn_type e))))"

definition handle_request :: "('h, 'f, 's) rpc_ctx \<Rightarrow> message \<Rightarrow> ('s, unit) py" where
  "handle_request R msg =
     (case load_request (rc_codec R) (m_payload msg) of
        Inl e \<Rightarrow> if is_Exc e then respond_invalid R msg e else py_raise e
      | Inr request \<Rightarrow>
          py_bind (py_gets (\<lambda>s. dict_get (sv_methods (rc_server R s)) (rq_method request))) (\<lambda>method.
            case method of
              None \<Rightarrow> respond_not_found R msg request
            | Some func \<Rightarrow> py_bind (run_method R func request) (\<lambda>response. respond R msg (py_ret response))))"

section \<open>The client\<close>

record rpc_client =
  cl_service_name :: string
  cl_timeout :: real

text \<open>\<open>timeout or self._timeout\<close>.\<close>

definition effective_timeout :: "real option \<Rightarrow> rpc_client \<Rightarrow> real" where
  "effective_timeout timeout k = (case timeout of Some x \<Rightarrow> if x = 0 then cl_timeout k else x | None \<Rightarrow> cl_timeout k)"

definition rpc_timed_out :: "string \<Rightarrow> pyexn" where
  "rpc_timed_out method = Exception ''TimeoutError'' (''RPC call to '' @ method @ '' timed out'')"

text \<open>What \<open>call\<close> makes of a response: a true (non-empty) error is raised, else the result is returned.\<close>

definition response_outcome :: "rpc_response \<Rightarrow> pyexn + pyval" where
  "response_outcome r = (case rs_error r of
       Some (c # cs) \<Rightarrow>
         Inl (Exception ''Exception'' ((case rs_error_type r of None \<Rightarrow> ''None'' | Some x \<Rightarrow> x) @ '': '' @ c # cs))
     | _ \<Rightarrow> Inr (rs_result r))"

definition rpc_finish :: "rpc_codec \<Rightarrow> string \<Rightarrow> message option \<Rightarrow> pyexn + pyval" where
  "rpc_finish cd method response_msg = (case response_msg of
       None \<Rightarrow> Inl (rpc_timed_out method)
     | Some m \<Rightarrow> (case load_response cd (m_payload m) of Inl e \<Rightarrow> Inl e | Inr r \<Rightarrow> response_outcome r))"

definition rpc_conclude :: "rpc_codec \<Rightarrow> string \<Rightarrow> message option waiting \<Rightarrow> ('s, pyval waiting) py" where
  "rpc_conclude cd method w = (case w of
       Blocked \<Rightarrow> py_ret Blocked
     | Got response_msg \<Rightarrow> (case rpc_finish cd method response_msg of Inl e \<Rightarrow> py_raise e | Inr v \<Rightarrow> py_ret (Got v)))"

definition rpc_request_message :: "('h, 's) mq_ctx \<Rightarrow> rpc_codec \<Rightarrow> rpc_client \<Rightarrow> rpc_request \<Rightarrow> ('s, message) py" where
  "rpc_request_message c cd k request =
     mq_message c (request_topic (cl_service_name k)) (dump_request cd request) [] (Some (''_rpc_reply.'' @ rq_id request))
       (Some (rq_id request))"

definition rpc_call ::
  "('h, 's) mq_ctx \<Rightarrow> rpc_codec \<Rightarrow> rpc_client \<Rightarrow> string \<Rightarrow> pyval list \<Rightarrow> real option \<Rightarrow> kwargs \<Rightarrow> ('s, pyval waiting) py" where
  "rpc_call c cd k method args timeout kw =
     py_bind (mq_uuid c) (\<lambda>i.
     let request = \<lparr>rq_id = i, rq_method = method, rq_args = args, rq_kwargs = kw,
           rq_timeout = Some (effective_timeout timeout k)\<rparr> in
     py_bind (rpc_request_message c cd k request) (\<lambda>msg.
     py_seq (t_send (c_ops c) msg)
     (py_bind (mq_receive c (''_rpc_reply.'' @ i) (Some (effective_timeout timeout k))) (rpc_conclude cd method))))"

section \<open>Round-robin and retrying clients\<close>

record 'c rr_client =
  rrc_clients :: "'c list"
  rrc_idx :: nat

definition rr_client_new :: "'c list \<Rightarrow> pyexn + 'c rr_client" where
  "rr_client_new clients =
     (if clients = [] then Inl (Exception ''ValueError'' ''RoundRobinRPCClient requires at least one RPCClient'')
      else Inr \<lparr>rrc_clients = clients, rrc_idx = 0\<rparr>)"

definition rr_rpc_next :: "nat \<Rightarrow> nat \<Rightarrow> nat \<times> nat" where
  "rr_rpc_next n i = (i, (i + 1) mod n)"

definition next_client :: "'c rr_client \<Rightarrow> 'c \<times> 'c rr_client" where
  "next_client b = (case rr_rpc_next (length (rrc_clients b)) (rrc_idx b) of
     (p, i) \<Rightarrow> (rrc_clients b ! p, b\<lparr>rrc_idx := i\<rparr>))"

text \<open>A call through the balancer, which lives in the first part of the state; \<open>call\<close> is a call of a client.\<close>

definition rr_call :: "('c \<Rightarrow> ('c rr_client \<times> 's, 'a) py) \<Rightarrow> ('c rr_client \<times> 's, 'a) py" where
  "rr_call clcall = (\<lambda>(b, s). case next_client b of (k, b') \<Rightarrow> clcall k (b', s))"

text \<open>
  The loop of the retrying client over the attempts still to make. \<open>retry_on\<close> tells which exceptions are
  retried; without any attempt the final assertion fails.
\<close>

fun retry_attempts ::
  "(pyexn \<Rightarrow> bool) \<Rightarrow> ('s, 'a) py \<Rightarrow> (real \<Rightarrow> ('s, unit) py) \<Rightarrow> real \<Rightarrow> int \<Rightarrow> int list \<Rightarrow> real \<Rightarrow> ('s, 'a) py" where
  "retry_attempts retry_on clcall sleep factor max_retries [] delay s = (Inl (Exception ''AssertionError'' []), s)"
| "retry_attempts retry_on clcall sleep factor max_retries (attempt # rest) delay s =
     (case clcall s of
        (Inr x, s1) \<Rightarrow> (Inr x, s1)
      | (Inl e, s1) \<Rightarrow>
          if retry_on e
          then (if attempt = max_retries then (Inl e, s1)
                else case sleep delay s1 of
                       (Inl e', s2) \<Rightarrow> (Inl e', s2)
                     | (Inr _, s2) \<Rightarrow> retry_attempts retry_on clcall sleep factor max_retries rest (delay * factor) s2)
          else (Inl e, s1))"

definition with_retry ::
  "(pyexn \<Rightarrow> bool) \<Rightarrow> (real \<Rightarrow> ('s, unit) py) \<Rightarrow> int \<Rightarrow> real \<Rightarrow> real \<Rightarrow> ('s, 'a) py \<Rightarrow> ('s, 'a) py" where
  "with_retry retry_on sleep max_retries backoff_initial backoff_factor clcall =
     retry_attempts retry_on clcall sleep backoff_factor max_retries [0..max_retries] backoff_initial"

text \<open>The default \<open>retry_on=(TimeoutError, ConnectionError)\<close>, with the subclasses of \<open>ConnectionError\<close>.\<close>

definition default_retry_on :: "pyexn \<Rightarrow> bool" where
  "default_retry_on e \<longleftrightarrow> exn_type e \<in> {''TimeoutError'', ''ConnectionError'', ''ConnectionRefusedError'',
     ''ConnectionResetError'', ''ConnectionAbortedError'', ''BrokenPipeError''}"

section \<open>A call over the in-memory transport\<close>

text \<open>
  Client and server in one process: the user part of the state is the server's fields and the rest of the
  program, on which the registered functions act.
\<close>

definition rest_rpc ::
  "rpc_codec \<Rightarrow> ('f \<Rightarrow> pyval list \<Rightarrow> kwargs \<Rightarrow> 'u \<Rightarrow> (pyexn + pyval) \<times> 'u) \<Rightarrow> 'h \<Rightarrow>
   ('h, 't \<times> ('h, 'f rpc_server \<times> 'u) mq_rest) mq_ctx \<Rightarrow> ('h, 'f, 't \<times> ('h, 'f rpc_server \<times> 'u) mq_rest) rpc_ctx" where
  "rest_rpc cd F h c =
     \<lparr>rc_queue = c, rc_codec = cd, rc_server = (\<lambda>(t, r). fst (r_user r)),
      rc_upd = (\<lambda>g (t, r). (t, r\<lparr>r_user := (g (fst (r_user r)), snd (r_user r))\<rparr>)),
      rc_call = (\<lambda>f args kw (t, r). case F f args kw (snd (r_user r)) of
        (out, u) \<Rightarrow> (out, (t, r\<lparr>r_user := (fst (r_user r), u)\<rparr>))), rc_handler = h\<rparr>"

lemma rest_rpc_simps [simp]:
  "rc_queue (rest_rpc cd F h c) = c" "rc_codec (rest_rpc cd F h c) = cd" "rc_server (rest_rpc cd F h c) = (\<lambda>(t, r). fst (r_user r))"
  "rc_call (rest_rpc cd F h c) = (\<lambda>f args kw (t, r). case F f args kw (snd (r_user r)) of
     (out, u) \<Rightarrow> (out, (t, r\<lparr>r_user := (fst (r_user r), u)\<rparr>)))" "rc_handler (rest_rpc cd F h c) = h"
  by (simp_all add: rest_rpc_def)

text \<open>The response a request gets, and what becomes of the program's state.\<close>

definition response_to :: "('f \<Rightarrow> pyval list \<Rightarrow> kwargs \<Rightarrow> 'u \<Rightarrow> (pyexn + pyval) \<times> 'u) \<Rightarrow> (string, 'f) dict \<Rightarrow> rpc_request \<Rightarrow> 'u \<Rightarrow>
    string \<Rightarrow> rpc_response" where
  "response_to F methods q u i = (case dict_get methods (rq_method q) of
     None \<Rightarrow> error_response i (rq_id q) (''Method not found: '' @ rq_method q) ''MethodNotFound''
   | Some f \<Rightarrow> (case fst (F f (rq_args q) (rq_kwargs q) u) of
       Inr v \<Rightarrow> result_response i (rq_id q) v
     | Inl e \<Rightarrow> error_response i (rq_id q) (exn_str e) (exn_type e)))"

definition state_after :: "('f \<Rightarrow> pyval list \<Rightarrow> kwargs \<Rightarrow> 'u \<Rightarrow> (pyexn + pyval) \<times> 'u) \<Rightarrow> (string, 'f) dict \<Rightarrow> rpc_request \<Rightarrow> 'u \<Rightarrow> 'u" where
  "state_after F methods q u = (case dict_get methods (rq_method q) of
     None \<Rightarrow> u | Some f \<Rightarrow> snd (F f (rq_args q) (rq_kwargs q) u))"

lemma respond_queues:
  assumes "\<not> mt_closed t" "m_reply_to msg = Some rt" "rt \<noteq> []" "mt_targets t rt = []" "mt_queue t rt = []"
    "mk (t, r) = (Inr resp, (t, r1))"
  shows "\<exists>reply t' r'. respond (rest_rpc cd F h (mem_ctx uuid4 clock (rest_env cl sb ld))) msg mk (t, r) = (Inr (), (t', r')) \<and>
    r_user r' = r_user r1 \<and> mt_sub_topic t' = mt_sub_topic t \<and> mt_closed t' = mt_closed t \<and>
    mt_max_queue_size t' = mt_max_queue_size t \<and>
    (\<forall>x. mt_queue t' x = (if x = rt then [reply] else mt_queue t x)) \<and> m_payload reply = dump_response cd resp"
proof -
  obtain x xs where rt: "rt = x # xs" using assms(3) by (cases rt) auto
  show ?thesis
    using assms rt
    by (simp add: respond_def mq_publish_def mq_message_def mq_uuid_def py_simps send_unmatched mt_put_def Let_def
        queue_full_def mt_queue_def)
qed

lemma handle_request_replies:
  assumes "\<not> mt_closed t" "m_reply_to msg = Some rt" "rt \<noteq> []" "mt_targets t rt = []" "mt_queue t rt = []"
    and "load_request cd (m_payload msg) = Inr q"
    and "\<forall>f e. dict_get (sv_methods (fst (r_user r))) (rq_method q) = Some f \<longrightarrow>
      fst (F f (rq_args q) (rq_kwargs q) (snd (r_user r))) = Inl e \<longrightarrow> is_Exc e"
  shows "\<exists>reply t' r' i. handle_request (rest_rpc cd F h (mem_ctx uuid4 clock (rest_env cl sb ld))) msg (t, r) = (Inr (), (t', r')) \<and>
    r_user r' = (fst (r_user r), state_after F (sv_methods (fst (r_user r))) q (snd (r_user r))) \<and>
    mt_sub_topic t' = mt_sub_topic t \<and> mt_closed t' = mt_closed t \<and> mt_max_queue_size t' = mt_max_queue_size t \<and>
    (\<forall>x. mt_queue t' x = (if x = rt then [reply] else mt_queue t x)) \<and>
    m_payload reply = dump_response cd (response_to F (sv_methods (fst (r_user r))) q (snd (r_user r)) i)"
proof -
  let ?R = "rest_rpc cd F h (mem_ctx uuid4 clock (rest_env cl sb ld))" and ?ms = "sv_methods (fst (r_user r))"
  show ?thesis
  proof (cases "dict_get ?ms (rq_method q)")
    case None
    let ?mk = "py_bind (mq_uuid (rc_queue ?R)) (\<lambda>i. py_ret (error_response i (rq_id q) (''Method not found: '' @ rq_method q) ''MethodNotFound''))"
    have "?mk (t, r) = (Inr (response_to F ?ms q (snd (r_user r)) (uuid4 (r_drawn r))), (t, r\<lparr>r_drawn := Suc (r_drawn r)\<rparr>))"
      using None by (simp add: response_to_def mq_uuid_def py_simps)
    from respond_queues[where mk = ?mk and r = r, OF assms(1-5) this, of cd F h uuid4 clock cl sb ld] None assms(6) show ?thesis
      by (auto simp: handle_request_def respond_not_found_def py_simps state_after_def)
  next
    case (Some f)
    obtain out u where out: "F f (rq_args q) (rq_kwargs q) (snd (r_user r)) = (out, u)" by fastforce
    let ?r1 = "r\<lparr>r_user := (fst (r_user r), u), r_drawn := Suc (r_drawn r)\<rparr>"
    let ?resp = "response_to F ?ms q (snd (r_user r)) (uuid4 (r_drawn r))"
    have run: "run_method ?R f q (t, r) = (Inr ?resp, (t, ?r1))"
      using Some out assms(7)
      by (cases out) (simp_all add: run_method_def py_simps response_to_def mq_uuid_def)
    from respond_queues[where r = ?r1 and mk = "py_ret ?resp", OF assms(1-5), of ?resp ?r1 cd F h uuid4 clock cl sb ld]
    obtain reply t' r' where r': "respond ?R msg (py_ret ?resp) (t, ?r1) = (Inr (), (t', r'))" "r_user r' = r_user ?r1"
      "mt_sub_topic t' = mt_sub_topic t" "mt_closed t' = mt_closed t" "mt_max_queue_size t' = mt_max_queue_size t"
      "\<forall>x. mt_queue t' x = (if x = rt then [reply] else mt_queue t x)" "m_payload reply = dump_response cd ?resp"
      by (auto simp: py_simps)
    have "handle_request ?R msg (t, r) = (Inr (), (t', r'))"
      using Some assms(6) run r'(1) by (simp add: handle_request_def py_simps)
    then show ?thesis using r'(2-7) Some out by (auto simp: state_after_def)
  qed
qed

text \<open>The request and the message a call makes, and the call as an exchange over the transport.\<close>

definition sent_request :: "string \<Rightarrow> rpc_client \<Rightarrow> string \<Rightarrow> pyval list \<Rightarrow> real option \<Rightarrow> kwargs \<Rightarrow> rpc_request" where
  "sent_request i k meth args timeout kw =
     \<lparr>rq_id = i, rq_method = meth, rq_args = args, rq_kwargs = kw, rq_timeout = Some (effective_timeout timeout k)\<rparr>"

definition sent_message :: "string \<Rightarrow> string \<Rightarrow> int \<Rightarrow> rpc_codec \<Rightarrow> rpc_client \<Rightarrow> rpc_request \<Rightarrow> message" where
  "sent_message i request_id now cd k q =
     \<lparr>m_id = i, m_topic = request_topic (cl_service_name k), m_payload = dump_request cd q, m_headers = [],
      m_timestamp = now, m_reply_to = Some (''_rpc_reply.'' @ request_id), m_correlation_id = Some request_id\<rparr>"

lemma sent_simps [simp]:
  "m_topic (sent_message i j now cd k q) = request_topic (cl_service_name k)" "m_payload (sent_message i j now cd k q) = dump_request cd q"
  "m_reply_to (sent_message i j now cd k q) = Some (''_rpc_reply.'' @ j)"
  "rq_method (sent_request i k meth args timeout kw) = meth" "rq_args (sent_request i k meth args timeout kw) = args"
  "rq_kwargs (sent_request i k meth args timeout kw) = kw"
  by (simp_all add: sent_message_def sent_request_def)

lemma rpc_call_exchange:
  assumes "i = uuid4 (r_drawn r)"
  shows "rpc_call (mem_ctx uuid4 clock (rest_env cl sb ld)) cd k meth args timeout kw (t, r) =
    py_bind (py_seq (mt_send (ev_fire (rest_env cl sb ld))
        (sent_message (uuid4 (Suc (r_drawn r))) i (clock (r_user r)) cd k (sent_request i k meth args timeout kw)))
      (mt_receive (''_rpc_reply.'' @ i) (Some (effective_timeout timeout k))))
    (rpc_conclude cd meth) (t, r\<lparr>r_drawn := Suc (Suc (r_drawn r))\<rparr>)"
  by (simp add: rpc_call_def rpc_request_message_def mq_message_def mq_uuid_def mq_receive_def py_simps Let_def assms
      sent_message_def sent_request_def split: prod.split sum.split)

lemma conclude_reply:
  assumes "load_response cd (m_payload reply) = Inr x"
  shows "rpc_conclude cd meth (Got (Some reply)) s = (case response_outcome x of Inl e \<Rightarrow> (Inl e, s) | Inr v \<Rightarrow> (Inr (Got v), s))"
  using assms by (simp add: rpc_conclude_def rpc_finish_def py_simps split: sum.split)


text \<open>A codec with the round trips of pydantic's, on the dictionaries of the fields.\<close>

definition demo_codec :: rpc_codec where
  "demo_codec =
     \<lparr>dump_request = (\<lambda>q. PDict [(''id'', PStr (rq_id q)), (''method'', PStr (rq_method q)), (''args'', PTuple (rq_args q)),
        (''kwargs'', PDict (rq_kwargs q)), (''timeout'', case rq_timeout q of None \<Rightarrow> PNone | Some x \<Rightarrow> PFloat x)]),
      load_request = (\<lambda>v. case v of
          PDict [(_, PStr i), (_, PStr m), (_, PTuple xs), (_, PDict kw), (_, PFloat x)] \<Rightarrow>
            Inr \<lparr>rq_id = i, rq_method = m, rq_args = xs, rq_kwargs = kw, rq_timeout = Some x\<rparr>
        | PDict [(_, PStr i), (_, PStr m), (_, PTuple xs), (_, PDict kw), (_, PNone)] \<Rightarrow>
            Inr \<lparr>rq_id = i, rq_method = m, rq_args = xs, rq_kwargs = kw, rq_timeout = None\<rparr>
        | _ \<Rightarrow> Inl (Exception ''ValidationError'' ''RPCRequest'')),
      dump_response = (\<lambda>r. PList [PStr (rs_id r), PStr (rs_request_id r), rs_result r,
        PList (case rs_error r of None \<Rightarrow> [] | Some e \<Rightarrow> [PStr e]), PList (case rs_error_type r of None \<Rightarrow> [] | Some e \<Rightarrow> [PStr e])]),
      load_response = (\<lambda>v. case v of
          PList [PStr i, PStr q, x, PList e, PList et] \<Rightarrow>
            Inr \<lparr>rs_id = i, rs_request_id = q, rs_result = x,
              rs_error = (case e of [PStr t] \<Rightarrow> Some t | _ \<Rightarrow> None), rs_error_type = (case et of [PStr t] \<Rightarrow> Some t | _ \<Rightarrow> None)\<rparr>
        | _ \<Rightarrow> Inl (Exception ''ValidationError'' ''RPCResponse''))\<rparr>"

lemma demo_codec_request: "load_request demo_codec (dump_request demo_codec q) = Inr q"
  by (cases q) (simp add: demo_codec_def split: option.split)

lemma demo_codec_response: "load_response demo_codec (dump_response demo_codec x) = Inr x"
  by (cases x) (simp add: demo_codec_def split: option.split)

definition demo_server :: "nat rpc_server" where
  "demo_server = add_method ''double'' 0 (add_method ''fail'' 1 (rpc_server_init ''svc''))"

definition demo_method :: "nat \<Rightarrow> pyval list \<Rightarrow> kwargs \<Rightarrow> nat \<Rightarrow> (pyexn + pyval) \<times> nat" where
  "demo_method f args kw u = (if f = 0 then (case args of [PInt x] \<Rightarrow> Inr (PInt (2 * x)) | _ \<Rightarrow> Inl (Exception ''TypeError'' ''args''))
     else Inl (Exception ''ValueError'' []), Suc u)"


section \<open>The round-robin client\<close>

interpretation rpc_rr: round_robin rr_rpc_next "\<lambda>n i. i < n"
  by unfold_locales (simp_all add: rr_rpc_next_def)

text \<open>A number of calls through the balancer, whatever each of them returns or raises.\<close>

fun rr_calls :: "('c \<Rightarrow> ('c rr_client \<times> 's, 'a) py) \<Rightarrow> nat \<Rightarrow> 'c rr_client \<times> 's \<Rightarrow> 'c rr_client \<times> 's" where
  "rr_calls clcall 0 s = s"
| "rr_calls clcall (Suc n) s = rr_calls clcall n (snd (rr_call clcall s))"

text \<open>A client call that notes which client was called and then does anything to the rest of the program.\<close>

definition noted_call :: "('c \<Rightarrow> 'w \<Rightarrow> (pyexn + 'a) \<times> 'w) \<Rightarrow> 'c \<Rightarrow> ('c rr_client \<times> 'c list \<times> 'w, 'a) py" where
  "noted_call g k = (\<lambda>(b, seen, w). case g k w of (out, w') \<Rightarrow> (out, (b, seen @ [k], w')))"

lemma rr_call_noted:
  "snd (rr_call (noted_call g) (b, seen, w)) =
     (b\<lparr>rrc_idx := snd (rr_rpc_next (length (rrc_clients b)) (rrc_idx b))\<rparr>,
      seen @ [rrc_clients b ! fst (rr_rpc_next (length (rrc_clients b)) (rrc_idx b))],
      snd (g (rrc_clients b ! rrc_idx b) w))"
  by (simp add: rr_call_def next_client_def noted_call_def rr_rpc_next_def split: prod.split)

lemma rr_calls_noted:
  "\<exists>b' w'. rr_calls (noted_call g) n (b, seen, w) = (b', seen @ map ((!) (rrc_clients b)) (rr_picks rr_rpc_next (length (rrc_clients b)) (rrc_idx b) n), w')"
proof (induction n arbitrary: b seen w)
  case (Suc n)
  obtain p i where nx: "rr_rpc_next (length (rrc_clients b)) (rrc_idx b) = (p, i)" by fastforce
  from Suc.IH[of "b\<lparr>rrc_idx := i\<rparr>" "seen @ [rrc_clients b ! p]"] show ?case by (simp add: rr_call_noted nx)
qed simp

text \<open>
  The round-robin client. From a balancer over at least one client, any number \<open>n\<close> of calls goes to the
  clients in turn, starting with the first; each of the distinct clients gets \<open>n div length\<close> of them or one
  more, whatever the calls return or raise; and no balancer exists over no clients.
\<close>

theorem round_robin_rpc_fair:
  assumes "rr_client_new clients = Inr b"
  shows "\<exists>b' seen w'. rr_calls (noted_call g) n (b, [], w) = (b', seen, w') \<and>
    seen = map (\<lambda>i. clients ! (i mod length clients)) [0..<n] \<and>
    (distinct clients \<longrightarrow> (\<forall>k \<in> set clients. count_list seen k \<in> {n div length clients, n div length clients + 1}))"
proof -
  let ?m = "length clients"
  have b: "b = \<lparr>rrc_clients = clients, rrc_idx = 0\<rparr>" and m: "0 < ?m"
    using assms by (auto simp: rr_client_new_def split: if_splits)
  let ?picks = "rr_picks rr_rpc_next ?m 0 n"
  have picks: "?picks = map (\<lambda>i. i mod ?m) [0..<n]" using rpc_rr.picks[OF m m] by simp
  have "count_list (map ((!) clients) ?picks) k \<in> {n div ?m, n div ?m + 1}" if "distinct clients" "k \<in> set clients" for k
  proof -
    obtain j where j: "j < ?m" "k = clients ! j" using \<open>k \<in> set clients\<close> by (metis in_set_conv_nth)
    have "count_list (map ((!) clients) ps) k = count_list ps j" if "\<forall>p \<in> set ps. p < ?m" for ps
      using that j \<open>distinct clients\<close> by (induction ps) (auto simp: nth_eq_iff_index_eq)
    then have "count_list (map ((!) clients) ?picks) k = count_list ?picks j"
      using rpc_rr.in_range[OF m m] by blast
    then show ?thesis using rpc_rr.fair[OF j(1) m, of n] by simp linarith
  qed
  moreover have "map ((!) clients) ?picks = map (\<lambda>i. clients ! (i mod ?m)) [0..<n]" by (simp add: picks)
  ultimately show ?thesis using rr_calls_noted[of g n b "[]" w] by (auto simp: b)
qed

theorem round_robin_rpc_fair_witness:
  "\<exists>b b' w'. rr_client_new [''a'', ''b''] = Inr b \<and>
     rr_calls (noted_call (\<lambda>k (w :: nat). (Inl (Exception ''E'' k) :: pyexn + pyval, Suc w))) 3 (b, [], 0) = (b', [''a'', ''b'', ''a''], w')"
proof -
  have "rr_client_new [''a'', ''b''] = Inr \<lparr>rrc_clients = [''a'', ''b''], rrc_idx = 0\<rparr>" by (simp add: rr_client_new_def)
  with round_robin_rpc_fair[OF this, of "\<lambda>k w. (Inl (Exception ''E'' k), Suc w)" 3 0] show ?thesis
    by (auto simp: upt_rec)
qed

section \<open>The retrying client\<close>

text \<open>
  A client whose \<open>n\<close>-th call has the outcome \<open>out n\<close>, and a sleep that notes its length; the state is the
  number of calls made and the sleeps.
\<close>

definition counted_call :: "(nat \<Rightarrow> pyexn + 'a) \<Rightarrow> (nat \<times> real list, 'a) py" where
  "counted_call out = (\<lambda>(n, sleeps). (out n, (Suc n, sleeps)))"

definition noted_sleep :: "real \<Rightarrow> (nat \<times> real list, unit) py" where
  "noted_sleep d = (\<lambda>(n, sleeps). (Inr (), (n, sleeps @ [d])))"

lemma counted_simps [simp]:
  "counted_call out (n, sleeps) = (out n, (Suc n, sleeps))" "noted_sleep d (n, sleeps) = (Inr (), (n, sleeps @ [d]))"
  by (simp_all add: counted_call_def noted_sleep_def)

definition retried :: "(pyexn \<Rightarrow> bool) \<Rightarrow> pyexn + 'a \<Rightarrow> bool" where
  "retried retry_on r = (case r of Inl e \<Rightarrow> retry_on e | Inr _ \<Rightarrow> False)"

lemma retry_attempts_run:
  assumes "\<forall>j < k. retried retry_on (out (n + j))" "k = m \<or> \<not> retried retry_on (out (n + k))" "k \<le> m"
  shows "retry_attempts retry_on (counted_call out) noted_sleep f (a + int m) [a..a + int m] d (n, sleeps) =
    (out (n + k), (Suc (n + k), sleeps @ map (\<lambda>j. d * f ^ j) [0..<k]))"
  using assms
proof (induction m arbitrary: a n k d sleeps)
  case 0
  then show ?case by (auto simp: retried_def split: sum.split)
next
  case (Suc m)
  have list: "[a..a + int (Suc m)] = a # [(a + 1)..(a + 1) + int m]" using upto_rec1[of a "a + int (Suc m)"] by (simp add: ac_simps)
  show ?case
  proof (cases k)
    case 0
    with Suc.prems show ?thesis unfolding list by (auto simp: retried_def split: sum.splits)
  next
    case (Suc k')
    with Suc.prems(1) have "retried retry_on (out (n + 0))" by blast
    then obtain e where e: "out n = Inl e" "retry_on e" by (auto simp: retried_def split: sum.splits)
    have "\<forall>j < k'. retried retry_on (out (Suc n + j))" "k' = m \<or> \<not> retried retry_on (out (Suc n + k'))" "k' \<le> m"
      using Suc.prems Suc by auto
    from Suc.IH[OF this, of "a + 1" "d * f" "sleeps @ [d]"] e
    have "retry_attempts retry_on (counted_call out) noted_sleep f (a + int (Suc m)) [a..a + int (Suc m)] d (n, sleeps) =
      (out (Suc n + k'), (Suc (Suc n + k'), (sleeps @ [d]) @ map (\<lambda>j. d * f * f ^ j) [0..<k']))"
      unfolding list by (simp add: algebra_simps)
    moreover have "map (\<lambda>j. d * f ^ j) [0..<k] = d # map (\<lambda>j. d * f * f ^ j) [0..<k']"
      by (simp add: Suc upt_conv_Cons map_Suc_upt[symmetric] comp_def mult.assoc del: upt_Suc)
    ultimately show ?thesis using Suc by simp
  qed
qed

text \<open>
  C30. Retrying. A retrying client stops at the first call that returns or raises an exception that is not
  retried, or after \<open>max_retries + 1\<close> calls: if the first \<open>k\<close> calls raised retried exceptions and call \<open>k\<close>
  did not (or was the last one allowed), its outcome is that of call \<open>k\<close>, the client was called exactly
  \<open>k + 1\<close> times, and it slept \<open>k\<close> times, for \<open>backoff_initial * backoff_factor ^ j\<close> seconds before
  retry \<open>j + 1\<close>. A negative \<open>max_retries\<close> makes no call and fails the assertion.
\<close>

theorem with_retry_outcome:
  "(max_retries < 0 \<longrightarrow> with_retry retry_on noted_sleep max_retries d f (counted_call out) (n, sleeps) =
      (Inl (Exception ''AssertionError'' []), (n, sleeps))) \<and>
   (\<forall>k. int k \<le> max_retries \<longrightarrow> (\<forall>j < k. retried retry_on (out (n + j))) \<longrightarrow>
      (int k = max_retries \<or> \<not> retried retry_on (out (n + k))) \<longrightarrow>
      with_retry retry_on noted_sleep max_retries d f (counted_call out) (n, sleeps) =
        (out (n + k), (Suc (n + k), sleeps @ map (\<lambda>j. d * f ^ j) [0..<k])))"
proof (intro conjI allI impI)
  show "with_retry retry_on noted_sleep max_retries d f (counted_call out) (n, sleeps) = (Inl (Exception ''AssertionError'' []), (n, sleeps))"
    if "max_retries < 0" using that by (simp add: with_retry_def)
  show "with_retry retry_on noted_sleep max_retries d f (counted_call out) (n, sleeps) =
      (out (n + k), (Suc (n + k), sleeps @ map (\<lambda>j. d * f ^ j) [0..<k]))"
    if "int k \<le> max_retries" "\<forall>j < k. retried retry_on (out (n + j))" "int k = max_retries \<or> \<not> retried retry_on (out (n + k))" for k
    using retry_attempts_run[of k retry_on out n "nat max_retries" f 0 d sleeps] that by (auto simp: with_retry_def)
qed

theorem with_retry_outcome_witness:
  "with_retry default_retry_on noted_sleep 3 (1 / 10) 2
     (counted_call (\<lambda>n. if n < 2 then Inl (Exception ''TimeoutError'' ''late'') else Inr (PInt 7))) (0, []) =
   (Inr (PInt 7), (3, [1 / 10, 1 / 5]))"
  using with_retry_outcome[THEN conjunct2, rule_format, of 2 3 default_retry_on
      "\<lambda>n. if n < 2 then Inl (Exception ''TimeoutError'' ''late'') else Inr (PInt 7)" 0 "1 / 10" 2 "[]"]
  by (simp add: retried_def default_retry_on_def upt_rec)

end
