(* ===== verification/Tcp_Framing.thy ===== *)
theory Tcp_Framing
  imports EF_Types "HOL-Library.Word" "HOL-Library.Sublist"
begin

text \<open>
  The wire format of \<open>src/eventforge/transports/tcp.py\<close>: a message is a four-byte big-endian length and that
  many bytes. A socket is the list of chunks the network still has for the reader; it ends where the peer
  has closed, and \<open>recv(n)\<close> returns at most \<open>n\<close> bytes of the first chunk (none at the end). How the
  bytes are cut into chunks is arbitrary.
\<close>

type_synonym byte = "8 word"
type_synonym socket = "byte list list"

section \<open>Reading and writing\<close>

text \<open>\<open>struct.pack("!I", n)\<close> raises unless the number fits in 32 bits; \<open>struct.unpack\<close> of four bytes.\<close>

definition pack_length :: "nat \<Rightarrow> pyexn + byte list" where
  "pack_length n =
     (if n < 2 ^ 32
      then Inr [word_of_nat (n div 2 ^ 24), word_of_nat (n div 2 ^ 16), word_of_nat (n div 2 ^ 8), word_of_nat n]
      else Inl (Exception ''error'' (squote @ ''I'' @ squote @ '' format requires 0 <= number <= 4294967295'')))"

definition unpack_length :: "byte list \<Rightarrow> nat" where
  "unpack_length bs = fold (\<lambda>b n. 256 * n + unat b) bs 0"

text \<open>What \<open>_send_msg\<close> hands to \<open>sendall\<close>.\<close>

definition frame :: "byte list \<Rightarrow> pyexn + byte list" where
  "frame data = (case pack_length (length data) of Inl e \<Rightarrow> Inl e | Inr header \<Rightarrow> Inr (header @ data))"

fun sock_recv :: "nat \<Rightarrow> socket \<Rightarrow> byte list \<times> socket" where
  "sock_recv n [] = ([], [])"
| "sock_recv n (c # cs) = (take n c, if length c \<le> n then cs else drop n c # cs)"

text \<open>The loop of \<open>_recv_exact\<close>: \<open>chunks\<close> so far, \<open>remaining\<close> to read.\<close>

function recv_loop :: "nat \<Rightarrow> byte list list \<Rightarrow> socket \<Rightarrow> byte list option \<times> socket" where
  "recv_loop remaining chunks s =
     (if remaining = 0 then (Some (concat chunks), s)
      else case sock_recv remaining s of (chunk, s') \<Rightarrow>
        if chunk = [] then (None, s')
        else recv_loop (remaining - length chunk) (chunks @ [chunk]) s')"
  by pat_completeness auto
termination
  by (relation "measure (\<lambda>(remaining, chunks, s). remaining)") (auto simp: length_greater_0_conv)

declare recv_loop.simps [simp del]

definition recv_exact :: "nat \<Rightarrow> socket \<Rightarrow> byte list option \<times> socket" where
  "recv_exact n s = recv_loop n [] s"

definition recv_msg :: "socket \<Rightarrow> byte list option \<times> socket" where
  "recv_msg s =
     (case recv_exact 4 s of
        (None, s') \<Rightarrow> (None, s')
      | (Some header, s') \<Rightarrow> recv_exact (unpack_length header) s')"

section \<open>Reading depends on the bytes only\<close>

text \<open>A socket with no empty chunk: \<open>recv\<close> returns nothing only at the end.\<close>

definition proper :: "socket \<Rightarrow> bool" where
  "proper s \<longleftrightarrow> [] \<notin> set s"

lemma proper_simps [simp]: "proper []" "proper (c # cs) \<longleftrightarrow> c \<noteq> [] \<and> proper cs"
  by (auto simp: proper_def)

lemma sock_recv_bytes:
  assumes "sock_recv n s = (chunk, s')" "proper s" "0 < n"
  shows "concat s = chunk @ concat s'" "proper s'" "length chunk \<le> n" "chunk = [] \<longleftrightarrow> concat s = []"
  using assms by (cases s; auto split: if_splits)+

lemma recv_loop_bytes:
  assumes "proper s"
  shows "\<exists>s'. recv_loop n chunks s = ((if n \<le> length (concat s) then Some (concat chunks @ take n (concat s)) else None), s') \<and>
    proper s' \<and> concat s' = drop n (concat s)"
  using assms
proof (induction n chunks s rule: recv_loop.induct)
  case (1 n chunks s)
  show ?case
  proof (cases "n = 0")
    case True
    with "1.prems" show ?thesis by (simp add: recv_loop.simps)
  next
    case False
    obtain c s1 where r: "sock_recv n s = (c, s1)" by fastforce
    note b = sock_recv_bytes[OF r "1.prems"]
    show ?thesis
    proof (cases "c = []")
      case True
      with b False have "concat s = []" "concat s1 = []" by simp_all
      with True False r b(2) show ?thesis by (simp add: recv_loop.simps[of n] del: concat_eq_Nil_conv)
    next
      case nonempty: False
      with "1.IH"[OF False r[symmetric]] False b obtain s' where
        s': "recv_loop (n - length c) (chunks @ [c]) s1 =
          ((if n - length c \<le> length (concat s1) then Some (concat (chunks @ [c]) @ take (n - length c) (concat s1)) else None), s')"
        "proper s'" "concat s' = drop (n - length c) (concat s1)" by auto
      have "recv_loop n chunks s = recv_loop (n - length c) (chunks @ [c]) s1"
        using False nonempty r by (simp add: recv_loop.simps[of n])
      with s' b False show ?thesis by auto
    qed
  qed
qed

lemma recv_exact_bytes:
  assumes "proper s"
  obtains s' where "recv_exact n s = ((if n \<le> length (concat s) then Some (take n (concat s)) else None), s')"
    "proper s'" "concat s' = drop n (concat s)"
  using recv_loop_bytes[OF assms, of n "[]"] unfolding recv_exact_def by auto

section \<open>Lengths\<close>

lemma unpack_pack:
  assumes "pack_length n = Inr header"
  shows "unpack_length header = n" "length header = 4"
proof -
  have n: "n < 2 ^ 32" and h: "header = [word_of_nat (n div 2 ^ 24), word_of_nat (n div 2 ^ 16), word_of_nat (n div 2 ^ 8), word_of_nat n]"
    using assms by (auto simp: pack_length_def split: if_splits)
  show "length header = 4" by (simp add: h)
  have u: "unat (word_of_nat k :: byte) = k mod 256" for k by (simp add: unat_of_nat)
  have d: "n div 65536 = n div 256 div 256" "n div 16777216 = n div 256 div 256 div 256"
    by (simp_all add: div_mult2_eq[symmetric])
  have "n div 16777216 < 256" using n by (simp add: div_less_iff_less_mult)
  then show "unpack_length header = n"
    using div_mult_mod_eq[of n 256] div_mult_mod_eq[of "n div 256" 256] div_mult_mod_eq[of "n div 256 div 256" 256]
    by (simp add: unpack_length_def h u d)
qed

lemma frame_InrD:
  assumes "frame data = Inr bytes"
  obtains header where "bytes = header @ data" "pack_length (length data) = Inr header" "length header = 4"
    "unpack_length header = length data"
  using assms unpack_pack by (auto simp: frame_def split: sum.splits)

text \<open>What \<open>recv_msg\<close> makes of a stream that starts with a whole frame, or ends before one is complete.\<close>

lemma recv_msg_frame:
  assumes "proper s" "frame data = Inr bytes" "concat s = bytes @ rest"
  obtains s' where "recv_msg s = (Some data, s')" "proper s'" "concat s' = rest"
proof -
  obtain header where h: "bytes = header @ data" "length header = 4" "unpack_length header = length data"
    using frame_InrD[OF assms(2)] by blast
  obtain s1 where s1: "recv_exact 4 s = (Some header, s1)" "proper s1" "concat s1 = data @ rest"
    using recv_exact_bytes[OF assms(1), of 4] assms(3) h by auto
  obtain s2 where "recv_exact (length data) s1 = (Some data, s2)" "proper s2" "concat s2 = rest"
    using recv_exact_bytes[OF s1(2), of "length data"] s1(3) by auto
  with s1(1) h(3) show ?thesis by (intro that) (simp_all add: recv_msg_def)
qed

lemma recv_msg_truncated:
  assumes "proper s" "frame data = Inr bytes" "strict_prefix (concat s) bytes"
  shows "fst (recv_msg s) = None"
proof -
  obtain header where h: "bytes = header @ data" "length header = 4" "unpack_length header = length data"
    using frame_InrD[OF assms(2)] by blast
  obtain zs where zs: "bytes = concat s @ zs" "zs \<noteq> []" using assms(3) by (auto elim: strict_prefixE')
  obtain s1 where s1: "recv_exact 4 s = ((if 4 \<le> length (concat s) then Some (take 4 (concat s)) else None), s1)" "proper s1"
    "concat s1 = drop 4 (concat s)" using recv_exact_bytes[OF assms(1)] by blast
  show ?thesis
  proof (cases "4 \<le> length (concat s)")
    case True
    have "take 4 (concat s) = take 4 bytes" using zs(1) True by simp
    also have "\<dots> = header" using h(1,2) by simp
    finally have hd: "recv_exact 4 s = (Some header, s1)" using s1(1) True by simp
    have "length bytes = length (concat s) + length zs" "length bytes = 4 + length data" "0 < length zs"
      using arg_cong[OF zs(1), of length] arg_cong[OF h(1), of length] zs(2) h(2) by simp_all
    moreover have "length (concat s1) = length (concat s) - 4" by (simp add: s1(3))
    ultimately have "length (concat s1) < length data" using True by linarith
    moreover obtain s2 where
      "recv_exact (length data) s1 = ((if length data \<le> length (concat s1) then Some (take (length data) (concat s1)) else None), s2)"
      using recv_exact_bytes[OF s1(2)] by blast
    ultimately have "recv_exact (length data) s1 = (None, s2)" by simp
    with hd h(3) show ?thesis by (simp add: recv_msg_def)
  qed (simp add: recv_msg_def s1(1))
qed

section \<open>A stream of messages\<close>

text \<open>Reading messages until the peer is gone, at most \<open>n\<close> of them.\<close>

fun recv_msgs :: "nat \<Rightarrow> socket \<Rightarrow> byte list list" where
  "recv_msgs 0 s = []"
| "recv_msgs (Suc n) s = (case recv_msg s of (None, s') \<Rightarrow> [] | (Some d, s') \<Rightarrow> d # recv_msgs n s')"

text \<open>The end of a stream: nothing is left, or a frame that was cut off.\<close>

definition cut_off :: "byte list \<Rightarrow> bool" where
  "cut_off rest \<longleftrightarrow> rest = [] \<or> (\<exists>d b. frame d = Inr b \<and> strict_prefix rest b)"

lemma recv_msg_end:
  assumes "proper s" "cut_off (concat s)"
  shows "fst (recv_msg s) = None"
proof (cases "concat s = []")
  case True
  have "frame [] = Inr [0, 0, 0, 0]" by (simp add: frame_def pack_length_def)
  then show ?thesis using recv_msg_truncated[OF assms(1), of "[]"] True by (simp add: strict_prefix_def)
next
  case False
  with assms(2) obtain d b where "frame d = Inr b" "strict_prefix (concat s) b" unfolding cut_off_def by blast
  then show ?thesis using recv_msg_truncated[OF assms(1)] by simp
qed

lemma recv_msgs_frames:
  assumes "list_all2 (\<lambda>d b. frame d = Inr b) datas frames" "proper s" "concat s = concat frames @ rest"
    and "cut_off rest"
  shows "recv_msgs (length datas + n) s = datas"
  using assms(1-3)
proof (induction arbitrary: s rule: list_all2_induct)
  case Nil
  have "fst (recv_msg s) = None" using recv_msg_end[OF Nil(1)] Nil(2) assms(4) by simp
  then show ?case by (cases n; cases "recv_msg s") auto
next
  case (Cons d datas b frames)
  have "concat s = b @ concat frames @ rest" using Cons.prems(2) by simp
  from recv_msg_frame[OF Cons.prems(1) Cons.hyps(1) this] obtain s' where
    "recv_msg s = (Some d, s')" "proper s'" "concat s' = concat frames @ rest" by blast
  with Cons.IH show ?case by simp
qed

text \<open>
  C9. Framing. Payloads of less than four gibibytes each, sent one frame after the other, are read back
  one by one, unchanged and in order, however the network cuts the stream into chunks; a stream that ends
  inside a frame gives exactly the payloads before it, and the reader then sees a disconnect.
\<close>

theorem framing_round_trip:
  assumes "list_all (\<lambda>d. length d < 2 ^ 32) datas" and "proper s"
    and "concat s = concat (map (\<lambda>d. case frame d of Inr b \<Rightarrow> b | Inl _ \<Rightarrow> []) datas) @ rest"
    and "cut_off rest"
  shows "recv_msgs (length datas + n) s = datas"
proof (rule recv_msgs_frames[OF _ assms(2-4)])
  show "list_all2 (\<lambda>d b. frame d = Inr b) datas (map (\<lambda>d. case frame d of Inr b \<Rightarrow> b | Inl _ \<Rightarrow> []) datas)"
    using assms(1) by (auto simp: list_all2_conv_all_nth list_all_iff frame_def pack_length_def)
qed

theorem framing_round_trip_witness:
  "recv_msgs 5 [[0], [0, 0, 2, 7], [8, 0, 0, 0], [0, 0, 0, 0, 2], [9]] = [[7, 8], []]"
proof -
  have f: "frame [7, 8] = Inr [0, 0, 0, 2, 7, 8]" "frame [] = Inr [0, 0, 0, 0]" "frame [9, 9] = Inr [0, 0, 0, 2, 9, 9]"
    by (simp_all add: frame_def pack_length_def)
  have "strict_prefix [0, 0, 0, 2, 9] [0, 0, 0, 2, 9, 9 :: byte]" by (simp add: strict_prefix_def)
  then have "cut_off [0, 0, 0, 2, 9]" using f(3) unfolding cut_off_def by blast
  from framing_round_trip[of "[[7, 8], []]" "[[0], [0, 0, 2, 7], [8, 0, 0, 0], [0, 0, 0, 0, 2], [9]]" "[0, 0, 0, 2, 9]" 3] this
  show ?thesis by (simp add: f(1,2))
qed

end
