(* ===== verification/Tcp_Transport.thy ===== *)
theory Tcp_Transport
  imports Tcp_Framing Memory_Transport
begin

text \<open>
  \<open>TCPServerTransport\<close> and \<open>TCPClientTransport\<close> of \<open>src/eventforge/transports/tcp.py\<close>. Both keep the same
  tables of subscribers and queues and have the same code for them; the record below is extended by the
  fields of each. Sockets are names of type \<open>'k\<close>: what arrives on one is the list of chunks of
  \<open>Tcp_Framing\<close>, and \<open>sendall\<close> is a parameter, as is the JSON codec (\<open>model_dump\<close> with \<open>json\<close>).
\<close>

section \<open>The tables\<close>

record 'cb tcp_tables =
  tt_subscribers :: "(string, 'cb) dict"
  tt_topic_subs :: "(string, string list) dict"
  tt_queues :: "(string, message list) dict"

record ('cb, 'k) tcp_server = "'cb tcp_tables" +
  srv_clients :: "'k list"
  srv_running :: bool
  srv_listening :: bool

record ('cb, 'k) tcp_client = "'cb tcp_tables" +
  tcl_socket :: "'k option"
  tcl_running :: bool

text \<open>The search for a subscription's topic through the per-topic lists.\<close>

fun find_topic :: "string \<Rightarrow> (string, string list) dict \<Rightarrow> string option" where
  "find_topic sub_id [] = None"
| "find_topic sub_id ((t, subs) # rest) = (if sub_id \<in> set subs then Some t else find_topic sub_id rest)"

text \<open>\<open>if sub_topic and _topic_matches(topic, sub_topic)\<close>: the empty topic is false.\<close>

definition tcp_sub_matches :: "string \<Rightarrow> string \<Rightarrow> bool" where
  "tcp_sub_matches topic sub_topic \<longleftrightarrow> sub_topic \<noteq> [] \<and> tcp_topic_matches topic sub_topic"

definition tcp_pattern :: "('cb, 'm) tcp_tables_scheme \<Rightarrow> string \<Rightarrow> string option" where
  "tcp_pattern t sub_id = find_topic sub_id (tt_topic_subs t)"

definition tcp_queue :: "('cb, 'm) tcp_tables_scheme \<Rightarrow> string \<Rightarrow> message list" where
  "tcp_queue t topic = dict_get_default (tt_queues t) topic []"

definition tcp_put :: "message \<Rightarrow> ('cb, 'm) tcp_tables_scheme \<Rightarrow> ('cb, 'm) tcp_tables_scheme" where
  "tcp_put msg t = t\<lparr>tt_queues := dict_set (m_topic msg) (tcp_queue t (m_topic msg) @ [msg]) (tt_queues t)\<rparr>"

definition tcp_dispatch ::
  "('cb \<Rightarrow> message \<Rightarrow> (('cb, 'm) tcp_tables_scheme \<times> 'w, unit) py) \<Rightarrow> message \<Rightarrow> (('cb, 'm) tcp_tables_scheme \<times> 'w, unit) py" where
  "tcp_dispatch run_cb msg = (\<lambda>(t, w).
     py_seq (py_for (notify_with tcp_pattern tcp_sub_matches run_cb msg) (tt_subscribers t))
       (py_modify (\<lambda>(t, w). (tcp_put msg t, w))) (t, w))"

text \<open>\<open>receive\<close> with no other thread putting meanwhile; reading a topic makes its queue.\<close>

definition tcp_receive :: "string \<Rightarrow> real option \<Rightarrow> (('cb, 'm) tcp_tables_scheme \<times> 'w, message option waiting) py" where
  "tcp_receive topic timeout = (\<lambda>(t, w).
     let took = (case tcp_queue t topic of
           [] \<Rightarrow> (None, t\<lparr>tt_queues := dict_set topic [] (tt_queues t)\<rparr>)
         | m # q \<Rightarrow> (Some m, t\<lparr>tt_queues := dict_set topic q (tt_queues t)\<rparr>)) in
     case timeout of
       Some x \<Rightarrow>
         if x < 0 then (Inl negative_timeout, (t\<lparr>tt_queues := dict_set topic (tcp_queue t topic) (tt_queues t)\<rparr>, w))
         else (Inr (Got (fst took)), (snd took, w))
     | None \<Rightarrow> (Inr (case fst took of Some m \<Rightarrow> Got (Some m) | None \<Rightarrow> Blocked), (snd took, w)))"

definition tcp_subscribe :: "string \<Rightarrow> string \<Rightarrow> 'cb \<Rightarrow> ('cb, 'm) tcp_tables_scheme \<Rightarrow> ('cb, 'm) tcp_tables_scheme" where
  "tcp_subscribe sub_id topic callback t =
     t\<lparr>tt_subscribers := dict_set sub_id callback (tt_subscribers t),
       tt_topic_subs := dict_set topic (dict_get_default (tt_topic_subs t) topic [] @ [sub_id]) (tt_topic_subs t)\<rparr>"

fun remove_id :: "string \<Rightarrow> (string, string list) dict \<Rightarrow> (string, string list) dict" where
  "remove_id sub_id [] = []"
| "remove_id sub_id ((t, subs) # rest) =
     (if sub_id \<in> set subs then (t, remove1 sub_id subs) # rest else (t, subs) # remove_id sub_id rest)"

definition tcp_remove :: "string \<Rightarrow> ('cb, 'm) tcp_tables_scheme \<Rightarrow> ('cb, 'm) tcp_tables_scheme" where
  "tcp_remove sub_id t =
     (if dict_get (tt_subscribers t) sub_id = None then t
      else t\<lparr>tt_subscribers := dict_del sub_id (tt_subscribers t), tt_topic_subs := remove_id sub_id (tt_topic_subs t)\<rparr>)"

definition tcp_unsubscribe :: "string \<Rightarrow> (('cb, 'm) tcp_tables_scheme \<times> 'w, bool) py" where
  "tcp_unsubscribe sub_id = (\<lambda>(t, w). (Inr (dict_get (tt_subscribers t) sub_id \<noteq> None), (tcp_remove sub_id t, w)))"

section \<open>Reading a connection\<close>

text \<open>
  The loop both sides run over a socket: while the node is alive, read a message (a disconnect ends the
  loop), decode it and dispatch it. Each round takes at least the four bytes of a header.
\<close>

lemma sock_recv_concat: "sock_recv n s = (chunk, s') \<Longrightarrow> concat s = chunk @ concat s'"
  by (cases s) (auto split: if_splits)

lemma recv_loop_consumes:
  "recv_loop n chunks s = (Some d, s') \<Longrightarrow> length (concat s) = n + length (concat s')"
proof (induction n chunks s rule: recv_loop.induct)
  case (1 n chunks s)
  show ?case
  proof (cases "n = 0")
    case True
    with "1.prems" show ?thesis by (simp add: recv_loop.simps)
  next
    case False
    obtain c s1 where r: "sock_recv n s = (c, s1)" by fastforce
    have c: "c \<noteq> []" and rec: "recv_loop (n - length c) (chunks @ [c]) s1 = (Some d, s')"
      using "1.prems" False r by (auto simp: recv_loop.simps[of n] split: if_splits)
    have "length c \<le> n" using r by (cases s) auto
    with "1.IH"[OF False r[symmetric] c rec] sock_recv_concat[OF r] show ?thesis by simp
  qed
qed

lemma recv_msg_consumes: "recv_msg s = (Some d, s') \<Longrightarrow> length (concat s') < length (concat s)"
  by (auto simp: recv_msg_def recv_exact_def split: prod.splits option.splits dest!: recv_loop_consumes)

function read_loop ::
  "('st \<Rightarrow> bool) \<Rightarrow> (byte list \<Rightarrow> pyexn + message) \<Rightarrow> (message \<Rightarrow> ('st, unit) py) \<Rightarrow> socket \<Rightarrow> ('st, unit) py" where
  "read_loop alive dec disp s st =
     (if \<not> alive st then (Inr (), st)
      else case recv_msg s of
        (None, s') \<Rightarrow> (Inr (), st)
      | (Some raw, s') \<Rightarrow>
          (case dec raw of
             Inl e \<Rightarrow> (Inl e, st)
           | Inr msg \<Rightarrow> (case disp msg st of (Inl e, st') \<Rightarrow> (Inl e, st') | (Inr _, st') \<Rightarrow> read_loop alive dec disp s' st')))"
  by pat_completeness auto
termination
  by (relation "measure (\<lambda>(alive, dec, disp, s, st). length (concat s))") (auto dest!: recv_msg_consumes[OF sym] simp: recv_msg_consumes)

declare read_loop.simps [simp del]

text \<open>What every dispatch keeps, the loop keeps.\<close>

lemma read_loop_inv:
  assumes "\<And>m st. I st \<Longrightarrow> I (snd (disp m st))" "I st"
  shows "I (snd (read_loop alive dec disp s st))"
  using assms(2)
proof (induction "length (concat s)" arbitrary: s st rule: less_induct)
  case less
  show ?case
  proof (cases "\<exists>raw s' m st'. alive st \<and> recv_msg s = (Some raw, s') \<and> dec raw = Inr m \<and> disp m st = (Inr (), st')")
    case True
    then obtain raw s' m st' where a: "alive st" "recv_msg s = (Some raw, s')" "dec raw = Inr m" "disp m st = (Inr (), st')" by blast
    have "I st'" using assms(1)[OF less.prems, of m] a(4) by simp
    with less.hyps[OF recv_msg_consumes[OF a(2)]] a show ?thesis by (subst read_loop.simps) simp
  next
    case False
    then show ?thesis
      using assms(1)[OF less.prems] less.prems
      by (subst read_loop.simps) (auto split: prod.split option.split sum.split, (metis snd_conv)+)
  qed
qed

section \<open>The server\<close>

definition srv_init :: "('cb, 'k) tcp_server" where
  "srv_init = \<lparr>tt_subscribers = [], tt_topic_subs = [], tt_queues = [], srv_clients = [], srv_running = False, srv_listening = False\<rparr>"

text \<open>\<open>start\<close>: \<open>bind\<close> is what the operating system says to \<open>bind\<close> and \<open>listen\<close>.\<close>

definition srv_start :: "(pyexn + unit) \<Rightarrow> (('cb, 'k) tcp_server \<times> 'w, unit) py" where
  "srv_start bind = (\<lambda>(t, w). case bind of
       Inl e \<Rightarrow> (Inl e, (t\<lparr>srv_listening := True\<rparr>, w))
     | Inr _ \<Rightarrow> (Inr (), (t\<lparr>srv_listening := True, srv_running := True\<rparr>, w)))"

text \<open>One round of \<open>_accept_loop\<close> that accepts the client \<open>k\<close>, and the end of a client's loop.\<close>

definition srv_accept :: "'k \<Rightarrow> ('cb, 'k) tcp_server \<Rightarrow> ('cb, 'k) tcp_server" where
  "srv_accept k t = (if srv_running t then t\<lparr>srv_clients := srv_clients t @ [k]\<rparr> else t)"

definition srv_drop :: "'k \<Rightarrow> ('cb, 'k) tcp_server \<Rightarrow> ('cb, 'k) tcp_server" where
  "srv_drop k t = (if k \<in> set (srv_clients t) then t\<lparr>srv_clients := remove1 k (srv_clients t)\<rparr> else t)"

definition srv_client_loop ::
  "(byte list \<Rightarrow> pyexn + message) \<Rightarrow> ('cb \<Rightarrow> message \<Rightarrow> (('cb, 'k) tcp_server \<times> 'w, unit) py) \<Rightarrow> 'k \<Rightarrow> socket \<Rightarrow>
   (('cb, 'k) tcp_server \<times> 'w, unit) py" where
  "srv_client_loop dec run_cb k s =
     py_finally (py_suppress (read_loop (\<lambda>(t, w). srv_running t) dec (tcp_dispatch run_cb) s))
       (py_modify (\<lambda>(t, w). (srv_drop k t, w)))"

definition srv_close :: "('cb, 'k) tcp_server \<Rightarrow> ('cb, 'k) tcp_server" where
  "srv_close t = t\<lparr>srv_running := False, srv_clients := [], tt_subscribers := [], tt_topic_subs := [], srv_listening := False\<rparr>"

text \<open>\<open>_send_msg\<close> on a socket.\<close>

definition send_msg :: "('k \<Rightarrow> byte list \<Rightarrow> ('w, unit) py) \<Rightarrow> 'k \<Rightarrow> byte list \<Rightarrow> ('w, unit) py" where
  "send_msg sendall k data = (case frame data of Inl e \<Rightarrow> py_raise e | Inr bytes \<Rightarrow> sendall k bytes)"

definition srv_send_one :: "('k \<Rightarrow> byte list \<Rightarrow> ('w, unit) py) \<Rightarrow> byte list \<Rightarrow> 'k \<Rightarrow> (('cb, 'k) tcp_server \<times> 'w, unit) py" where
  "srv_send_one sendall data k = (\<lambda>(t, w).
     case send_msg sendall k data w of
       (Inr _, w') \<Rightarrow> (Inr (), (t, w'))
     | (Inl e, w') \<Rightarrow> if is_Exc e then (Inr (), (t\<lparr>srv_clients := remove1 k (srv_clients t)\<rparr>, w')) else (Inl e, (t, w')))"

definition srv_send ::
  "(message \<Rightarrow> pyexn + byte list) \<Rightarrow> ('k \<Rightarrow> byte list \<Rightarrow> ('w, unit) py) \<Rightarrow> message \<Rightarrow> (('cb, 'k) tcp_server \<times> 'w, unit) py" where
  "srv_send enc sendall message = (\<lambda>(t, w). case enc message of
       Inl e \<Rightarrow> (Inl e, (t, w))
     | Inr data \<Rightarrow> py_for (srv_send_one sendall data) (srv_clients t) (t, w))"

section \<open>The client\<close>

definition tcl_init :: "('cb, 'k) tcp_client" where
  "tcl_init = \<lparr>tt_subscribers = [], tt_topic_subs = [], tt_queues = [], tcl_socket = None, tcl_running = False\<rparr>"

text \<open>\<open>connect\<close> keeps the new socket before it is connected.\<close>

definition tcl_connect :: "'k \<Rightarrow> (pyexn + unit) \<Rightarrow> (('cb, 'k) tcp_client \<times> 'w, unit) py" where
  "tcl_connect k conn = (\<lambda>(t, w). case conn of
       Inl e \<Rightarrow> (Inl e, (t\<lparr>tcl_socket := Some k\<rparr>, w))
     | Inr _ \<Rightarrow> (Inr (), (t\<lparr>tcl_socket := Some k, tcl_running := True\<rparr>, w)))"

definition tcl_close :: "('cb, 'k) tcp_client \<Rightarrow> ('cb, 'k) tcp_client" where
  "tcl_close t = t\<lparr>tcl_running := False, tt_subscribers := [], tt_topic_subs := []\<rparr>"

text \<open>The client has its own copies of the operations on the tables.\<close>

definition tcl_dispatch ::
  "('cb \<Rightarrow> message \<Rightarrow> (('cb, 'k) tcp_client \<times> 'w, unit) py) \<Rightarrow> message \<Rightarrow> (('cb, 'k) tcp_client \<times> 'w, unit) py" where
  "tcl_dispatch run_cb msg = (\<lambda>(t, w).
     py_seq (py_for (notify_with tcp_pattern tcp_sub_matches run_cb msg) (tt_subscribers t))
       (py_modify (\<lambda>(t, w). (tcp_put msg t, w))) (t, w))"

definition tcl_receive :: "string \<Rightarrow> real option \<Rightarrow> (('cb, 'k) tcp_client \<times> 'w, message option waiting) py" where
  "tcl_receive topic timeout = (\<lambda>(t, w).
     let q = tcp_queue t topic; rest = (\<lambda>q'. (t\<lparr>tt_queues := dict_set topic q' (tt_queues t)\<rparr>, w)) in
     if (case timeout of Some x \<Rightarrow> x < 0 | None \<Rightarrow> False) then (Inl negative_timeout, rest q)
     else case q of
        m # q' \<Rightarrow> (Inr (Got (Some m)), rest q')
      | [] \<Rightarrow> (Inr (if timeout = None then Blocked else Got None), rest []))"

definition tcl_subscribe :: "string \<Rightarrow> string \<Rightarrow> 'cb \<Rightarrow> ('cb, 'k) tcp_client \<Rightarrow> ('cb, 'k) tcp_client" where
  "tcl_subscribe sub_id topic callback t =
     t\<lparr>tt_subscribers := dict_set sub_id callback (tt_subscribers t),
       tt_topic_subs := dict_set topic (dict_get_default (tt_topic_subs t) topic [] @ [sub_id]) (tt_topic_subs t)\<rparr>"

definition tcl_unsubscribe :: "string \<Rightarrow> (('cb, 'k) tcp_client \<times> 'w, bool) py" where
  "tcl_unsubscribe sub_id = (\<lambda>(t, w).
     if dict_get (tt_subscribers t) sub_id = None then (Inr False, (t, w))
     else (Inr True, (t\<lparr>tt_subscribers := dict_del sub_id (tt_subscribers t), tt_topic_subs := remove_id sub_id (tt_topic_subs t)\<rparr>, w)))"

lemma tcl_table_ops:
  "tcl_dispatch = tcp_dispatch" "tcl_receive = tcp_receive" "tcl_subscribe = tcp_subscribe" "tcl_unsubscribe = tcp_unsubscribe"
  by (auto simp: fun_eq_iff tcl_dispatch_def tcp_dispatch_def tcl_receive_def tcp_receive_def tcl_subscribe_def tcp_subscribe_def
      tcl_unsubscribe_def tcp_unsubscribe_def tcp_remove_def Let_def split: option.split list.split)

declare tcl_table_ops [simp]

definition tcl_recv_loop ::
  "(byte list \<Rightarrow> pyexn + message) \<Rightarrow> ('cb \<Rightarrow> message \<Rightarrow> (('cb, 'k) tcp_client \<times> 'w, unit) py) \<Rightarrow> socket \<Rightarrow>
   (('cb, 'k) tcp_client \<times> 'w, unit) py" where
  "tcl_recv_loop dec run_cb s =
     py_suppress (read_loop (\<lambda>(t, w). tcl_running t \<and> tcl_socket t \<noteq> None) dec (tcl_dispatch run_cb) s)"

text \<open>(The dash of the message is a hyphen here.)\<close>

definition tcl_send ::
  "(message \<Rightarrow> pyexn + byte list) \<Rightarrow> ('k \<Rightarrow> byte list \<Rightarrow> ('w, unit) py) \<Rightarrow> message \<Rightarrow> (('cb, 'k) tcp_client \<times> 'w, unit) py" where
  "tcl_send enc sendall message = (\<lambda>(t, w). case tcl_socket t of
       None \<Rightarrow> (Inl (Exception ''ConnectionError'' ''Not connected - call connect() first''), (t, w))
     | Some k \<Rightarrow>
         (case enc message of
            Inl e \<Rightarrow> (Inl e, (t, w))
          | Inr data \<Rightarrow> (case send_msg sendall k data w of (r, w') \<Rightarrow> (r, (t, w')))))"

text \<open>The bytes of a message on the wire, and that its encoding fits a frame.\<close>

definition wire_frame :: "(message \<Rightarrow> pyexn + byte list) \<Rightarrow> message \<Rightarrow> byte list" where
  "wire_frame enc m = (case enc m of Inl _ \<Rightarrow> [] | Inr d \<Rightarrow> (case frame d of Inl _ \<Rightarrow> [] | Inr b \<Rightarrow> b))"

definition fits :: "(message \<Rightarrow> pyexn + byte list) \<Rightarrow> message \<Rightarrow> bool" where
  "fits enc m \<longleftrightarrow> (\<exists>d. enc m = Inr d \<and> length d < 2 ^ 32)"

lemma fits_frame: "fits enc m \<Longrightarrow> \<exists>d. enc m = Inr d \<and> frame d = Inr (wire_frame enc m)"
  by (auto simp: fits_def wire_frame_def frame_def pack_length_def)

section \<open>The subscription table\<close>

text \<open>
  Well-formedness: subscription ids and topics are distinct keys, and every subscriber is listed exactly
  once over all topics, and nobody else is.
\<close>

definition tcp_ok :: "('cb, 'm) tcp_tables_scheme \<Rightarrow> bool" where
  "tcp_ok t \<longleftrightarrow> dict_ok (tt_subscribers t) \<and> dict_ok (tt_topic_subs t) \<and>
     distinct (concat (map snd (tt_topic_subs t))) \<and>
     set (concat (map snd (tt_topic_subs t))) = fst ` set (tt_subscribers t)"

lemma find_topic_None: "find_topic i d = None \<longleftrightarrow> i \<notin> set (concat (map snd d))"
  by (induction d) (auto split: if_splits)

lemma list_id:
  fixes p :: string
  assumes "dict_ok d" "i \<notin> set (concat (map snd d))"
  defines "d' \<equiv> dict_set p (dict_get_default d p [] @ [i]) d"
  shows "set (concat (map snd d')) = insert i (set (concat (map snd d)))"
    and "distinct (concat (map snd d)) \<Longrightarrow> distinct (concat (map snd d'))"
    and "find_topic j d' = (if j = i then Some p else find_topic j d)"
proof -
  have "set (concat (map snd d')) = insert i (set (concat (map snd d))) \<and>
      (distinct (concat (map snd d)) \<longrightarrow> distinct (concat (map snd d'))) \<and>
      find_topic j d' = (if j = i then Some p else find_topic j d)"
    unfolding d'_def using assms(1,2)
  proof (induction d)
    case (Cons x d)
    obtain t ss where x: "x = (t, ss)" by fastforce
    show ?case
    proof (cases "t = p")
      case True
      with x Cons.prems show ?thesis by (auto simp: dict_get_default_def find_topic_None)
    next
      case False
      then have "dict_get_default (x # d) p [] = dict_get_default d p []" by (simp add: x dict_get_default_def)
      with x False Cons show ?thesis by auto
    qed
  qed simp
  then show "set (concat (map snd d')) = insert i (set (concat (map snd d)))"
    "distinct (concat (map snd d)) \<Longrightarrow> distinct (concat (map snd d'))"
    "find_topic j d' = (if j = i then Some p else find_topic j d)" by blast+
qed

lemma remove_id_keys: "map fst (remove_id i d) = map fst d"
  by (induction d) auto

lemma unlist_id:
  assumes "distinct (concat (map snd d))"
  shows "set (concat (map snd (remove_id i d))) = set (concat (map snd d)) - {i}"
    and "distinct (concat (map snd (remove_id i d)))"
    and "find_topic j (remove_id i d) = (if j = i then None else find_topic j d)"
proof -
  have "set (concat (map snd (remove_id i d))) = set (concat (map snd d)) - {i} \<and>
      distinct (concat (map snd (remove_id i d))) \<and>
      find_topic j (remove_id i d) = (if j = i then None else find_topic j d)"
    using assms
  proof (induction d)
    case (Cons x d)
    obtain t ss where x: "x = (t, ss)" by fastforce
    show ?case
    proof (cases "i \<in> set ss")
      case True
      with x Cons.prems show ?thesis by (auto simp: set_remove1_eq find_topic_None dest: in_set_takeD)
    next
      case False
      with x Cons show ?thesis by auto
    qed
  qed simp
  then show "set (concat (map snd (remove_id i d))) = set (concat (map snd d)) - {i}"
    "distinct (concat (map snd (remove_id i d)))"
    "find_topic j (remove_id i d) = (if j = i then None else find_topic j d)" by blast+
qed

lemma tcp_remove_tables:
  assumes "tcp_ok t"
  shows "tt_subscribers (tcp_remove i t) = dict_del i (tt_subscribers t)"
    and "tcp_pattern (tcp_remove i t) j = (if j = i then None else tcp_pattern t j)"
    and "tcp_ok (tcp_remove i t)"
proof -
  have "i \<notin> set (concat (map snd (tt_topic_subs t)))" if "dict_get (tt_subscribers t) i = None"
    using assms that by (auto simp: tcp_ok_def map_of_eq_None_iff)
  moreover have "distinct (concat (map snd (tt_topic_subs t)))" using assms by (simp add: tcp_ok_def)
  moreover have "fst ` set (dict_del i (tt_subscribers t)) = fst ` set (tt_subscribers t) - {i}"
    by (auto simp: dict_del_filter)
  ultimately show "tt_subscribers (tcp_remove i t) = dict_del i (tt_subscribers t)"
    "tcp_pattern (tcp_remove i t) j = (if j = i then None else tcp_pattern t j)" "tcp_ok (tcp_remove i t)"
    using assms
    by (auto simp: tcp_remove_def tcp_pattern_def tcp_ok_def dict_del_absent unlist_id remove_id_keys find_topic_None
        simp del: set_concat distinct_concat_iff)
qed

lemma tcp_subscribe_tables:
  assumes "tcp_ok t" "dict_get (tt_subscribers t) i = None"
  shows "tt_subscribers (tcp_subscribe i p cb t) = tt_subscribers t @ [(i, cb)]"
    and "tcp_pattern (tcp_subscribe i p cb t) j = (if j = i then Some p else tcp_pattern t j)"
    and "tcp_ok (tcp_subscribe i p cb t)"
proof -
  have "i \<notin> set (concat (map snd (tt_topic_subs t)))" using assms by (auto simp: tcp_ok_def map_of_eq_None_iff)
  note l = list_id[OF _ this]
  show "tt_subscribers (tcp_subscribe i p cb t) = tt_subscribers t @ [(i, cb)]"
    using assms(2) by (simp add: tcp_subscribe_def dict_set_fresh)
  show "tcp_pattern (tcp_subscribe i p cb t) j = (if j = i then Some p else tcp_pattern t j)" "tcp_ok (tcp_subscribe i p cb t)"
    using assms l by (auto simp: tcp_subscribe_def tcp_pattern_def tcp_ok_def dict_set_fresh simp del: set_concat)
qed

interpretation tcp_table: subscription_table tcp_subscribe tcp_remove tt_subscribers tcp_pattern tcp_ok
proof unfold_locales
  fix t :: "('cb, 'm) tcp_tables_scheme" and i
  assume ok: "tcp_ok t"
  show "distinct (map fst (tt_subscribers t))" using ok by (simp add: tcp_ok_def)
  show "tcp_ok (tcp_remove i t)" by (rule tcp_remove_tables[OF ok])
  show "tt_subscribers (tcp_remove i t) = filter (\<lambda>(j, _). j \<noteq> i) (tt_subscribers t)"
    by (simp add: tcp_remove_tables[OF ok] dict_del_filter)
  show "tcp_pattern (tcp_remove i t) j = tcp_pattern t j" if "j \<noteq> i" for j
    using that by (simp add: tcp_remove_tables[OF ok])
  assume "i \<notin> fst ` set (tt_subscribers t)"
  then have new: "dict_get (tt_subscribers t) i = None" by (simp add: map_of_eq_None_iff)
  show "tcp_ok (tcp_subscribe i p cb t)" "tt_subscribers (tcp_subscribe i p cb t) = tt_subscribers t @ [(i, cb)]"
    "tcp_pattern (tcp_subscribe i p cb t) j = (if j = i then Some p else tcp_pattern t j)" for p cb j
    by (simp_all add: tcp_subscribe_tables[OF ok new])
qed

section \<open>Delivery\<close>

abbreviation tcp_targets :: "('cb, 'm) tcp_tables_scheme \<Rightarrow> string \<Rightarrow> 'cb list" where
  "tcp_targets t topic \<equiv> targets tcp_sub_matches (tt_subscribers t) (tcp_pattern t) topic"

lemma tcp_dispatch_quiet:
  assumes "catchable h"
  shows "tcp_dispatch (lift_rest h) m (t, w) = (Inr (), (tcp_put m t, run_quietly h m (tcp_targets t (m_topic m)) w))"
  by (simp add: tcp_dispatch_def py_simps notify_quiet[OF assms])

lemma tcp_put_fields [simp]:
  "tt_subscribers (tcp_put m t) = tt_subscribers t" "tcp_pattern (tcp_put m t) = tcp_pattern t"
  "tcp_queue (tcp_put m t) topic = tcp_queue t topic @ (if m_topic m = topic then [m] else [])"
  by (auto simp: tcp_put_def tcp_pattern_def tcp_queue_def)

text \<open>The tables and the rest of the program after a sequence of messages.\<close>

definition deliver_all :: "('cb \<Rightarrow> message \<Rightarrow> ('w, unit) py) \<Rightarrow> message list \<Rightarrow> ('cb, 'm) tcp_tables_scheme \<times> 'w \<Rightarrow> ('cb, 'm) tcp_tables_scheme \<times> 'w" where
  "deliver_all h ms = fold (\<lambda>m (t, w). (tcp_put m t, run_quietly h m (tcp_targets t (m_topic m)) w)) ms"

lemma deliver_all_spec:
  "\<exists>q. deliver_all h ms (t, w) = (t\<lparr>tt_queues := q\<rparr>, fold (\<lambda>m. run_quietly h m (tcp_targets t (m_topic m))) ms w) \<and>
     (\<forall>topic. tcp_queue (t\<lparr>tt_queues := q\<rparr>) topic = tcp_queue t topic @ filter (\<lambda>m. m_topic m = topic) ms)"
proof (induction ms arbitrary: t w)
  case Nil
  show ?case by (intro exI[of _ "tt_queues t"]) (simp add: deliver_all_def)
next
  case (Cons m ms)
  let ?t1 = "tcp_put m t" and ?w1 = "run_quietly h m (tcp_targets t (m_topic m)) w"
  obtain q where q: "deliver_all h ms (?t1, ?w1) = (?t1\<lparr>tt_queues := q\<rparr>, fold (\<lambda>m. run_quietly h m (tcp_targets ?t1 (m_topic m))) ms ?w1)"
    "\<forall>topic. tcp_queue (?t1\<lparr>tt_queues := q\<rparr>) topic = tcp_queue ?t1 topic @ filter (\<lambda>m. m_topic m = topic) ms"
    using Cons by blast
  have "?t1\<lparr>tt_queues := q\<rparr> = t\<lparr>tt_queues := q\<rparr>" by (simp add: tcp_put_def)
  with q show ?case by (intro exI[of _ q]) (simp add: deliver_all_def)
qed

text \<open>
  Frames on a connection, in any chunks, are dispatched one after the other until the stream ends, for
  any dispatch that does not raise in the states \<open>I\<close> it is run in.
\<close>

lemma read_loop_fold:
  assumes "list_all2 (\<lambda>m b. \<exists>d. dec d = Inr m \<and> frame d = Inr b) ms frames" "proper s" "concat s = concat frames @ rest"
    and "cut_off rest" "I st" "\<And>st. I st \<Longrightarrow> alive st"
    and "\<And>m st. m \<in> set ms \<Longrightarrow> I st \<Longrightarrow> disp m st = (Inr (), g m st) \<and> I (g m st)"
  shows "read_loop alive dec disp s st = (Inr (), fold g ms st)"
  using assms(1-3,5,7)
proof (induction arbitrary: s st rule: list_all2_induct)
  case Nil
  have "recv_msg s = (None, snd (recv_msg s))" using recv_msg_end[OF Nil(1)] Nil(2) assms(4) by (simp add: prod_eq_iff)
  then show ?case by (subst read_loop.simps) (auto split: prod.split)
next
  case (Cons m ms b frames)
  obtain d where d: "dec d = Inr m" "frame d = Inr b" using Cons.hyps(1) by blast
  have "concat s = b @ concat frames @ rest" using Cons.prems(2) by simp
  from recv_msg_frame[OF Cons.prems(1) d(2) this] obtain s' where
    s': "recv_msg s = (Some d, s')" "proper s'" "concat s' = concat frames @ rest" by blast
  have step: "disp m st = (Inr (), g m st)" "I (g m st)" using Cons.prems(4)[of m st] Cons.prems(3) by simp_all
  have "read_loop alive dec disp s' (g m st) = (Inr (), fold g ms (g m st))"
    by (rule Cons.IH[OF s'(2,3) step(2)]) (simp add: Cons.prems(4))
  then show ?case using assms(6)[OF Cons.prems(3)] by (subst read_loop.simps) (simp add: s'(1) d(1) step(1))
qed

lemma read_loop_frames:
  assumes "catchable h" "list_all2 (\<lambda>m b. \<exists>d. dec d = Inr m \<and> frame d = Inr b) ms frames" "proper s" "concat s = concat frames @ rest"
    and "cut_off rest" "\<And>q w. alive (t\<lparr>tt_queues := q\<rparr>, w)"
  shows "read_loop alive dec (tcp_dispatch (lift_rest h)) s (t, w) = (Inr (), deliver_all h ms (t, w))"
  unfolding deliver_all_def
proof (rule read_loop_fold[where I = "\<lambda>(t', _). \<exists>q. t' = t\<lparr>tt_queues := q\<rparr>", OF assms(2-5)])
  show "case (t, w) of (t', _) \<Rightarrow> \<exists>q. t' = t\<lparr>tt_queues := q\<rparr>" by (auto intro: exI[of _ "tt_queues t"])
qed (auto simp: assms(6) tcp_dispatch_quiet[OF assms(1)] tcp_put_def)

text \<open>
  From a client to the server's subscribers. Messages a connected client sends (that encode to less
  than four gibibytes and decode back) reach the server over the socket in whatever chunks; the server
  then has called, for each message in turn, the callbacks of all matching subscriptions in subscription
  order, whatever \<open>Exception\<close>s they raised, has queued every message under its topic, in order, and has
  forgotten the client once the connection ended.
\<close>

theorem tcp_client_to_server:
  assumes "tcl_socket c = Some k" and "list_all (\<lambda>m. \<exists>d. enc m = Inr d \<and> length d < 2 ^ 32 \<and> dec d = Inr m) ms"
    and "catchable h" and "srv_running t"
  shows "\<exists>wire. py_for (tcl_send enc (\<lambda>_ bytes wire. (Inr (), wire @ bytes))) ms (c, []) = (Inr (), (c, wire)) \<and>
    (\<forall>s. proper s \<and> concat s = wire \<longrightarrow>
      (\<exists>t'. srv_client_loop dec (lift_rest h) k s (t, w) =
          (Inr (), (t', fold (\<lambda>m. run_quietly h m (tcp_targets t (m_topic m))) ms w)) \<and>
        tt_subscribers t' = tt_subscribers t \<and> srv_clients t' = remove1 k (srv_clients t) \<and>
        (\<forall>topic. tcp_queue t' topic = tcp_queue t topic @ filter (\<lambda>m. m_topic m = topic) ms)))"
proof -
  have send: "\<exists>frames. list_all2 (\<lambda>m b. \<exists>d. dec d = Inr m \<and> frame d = Inr b) ms frames \<and>
      py_for (tcl_send enc (\<lambda>_ bytes wire. (Inr (), wire @ bytes))) ms (c, wire) = (Inr (), (c, wire @ concat frames))" for wire
    using assms(2)
  proof (induction ms arbitrary: wire)
    case (Cons m ms)
    then obtain d where d: "enc m = Inr d" "length d < 2 ^ 32" "dec d = Inr m" by auto
    then obtain b where b: "frame d = Inr b" by (simp add: frame_def pack_length_def)
    from Cons.IH[of "wire @ b"] Cons.prems obtain frames where
      "list_all2 (\<lambda>m b. \<exists>d. dec d = Inr m \<and> frame d = Inr b) ms frames"
      "py_for (tcl_send enc (\<lambda>_ bytes wire. (Inr (), wire @ bytes))) ms (c, wire @ b) = (Inr (), (c, (wire @ b) @ concat frames))"
      by auto
    moreover have "tcl_send enc (\<lambda>_ bytes wire. (Inr (), wire @ bytes)) m (c, wire) = (Inr (), (c, wire @ b))"
      using d b assms(1) by (simp add: tcl_send_def send_msg_def)
    ultimately show ?case using d b by (intro exI[of _ "b # frames"]) auto
  qed simp
  from send[of "[]"] obtain frames where f: "list_all2 (\<lambda>m b. \<exists>d. dec d = Inr m \<and> frame d = Inr b) ms frames"
    "py_for (tcl_send enc (\<lambda>_ bytes wire. (Inr (), wire @ bytes))) ms (c, []) = (Inr (), (c, concat frames))" by auto
  have "\<exists>t'. srv_client_loop dec (lift_rest h) k s (t, w) =
          (Inr (), (t', fold (\<lambda>m. run_quietly h m (tcp_targets t (m_topic m))) ms w)) \<and>
        tt_subscribers t' = tt_subscribers t \<and> srv_clients t' = remove1 k (srv_clients t) \<and>
        (\<forall>topic. tcp_queue t' topic = tcp_queue t topic @ filter (\<lambda>m. m_topic m = topic) ms)"
    if s: "proper s" "concat s = concat frames" for s
  proof -
    have "concat s = concat frames @ []" "cut_off []" using s(2) by (simp_all add: cut_off_def)
    from read_loop_frames[where alive = "\<lambda>(t, w). srv_running t" and t = t and w = w, OF assms(3) f(1) s(1) this] assms(4)
    have "read_loop (\<lambda>(t, w). srv_running t) dec (tcp_dispatch (lift_rest h)) s (t, w) = (Inr (), deliver_all h ms (t, w))" by simp
    moreover from deliver_all_spec[of h ms t w] obtain q where
      "deliver_all h ms (t, w) = (t\<lparr>tt_queues := q\<rparr>, fold (\<lambda>m. run_quietly h m (tcp_targets t (m_topic m))) ms w)"
      "\<forall>topic. tcp_queue (t\<lparr>tt_queues := q\<rparr>) topic = tcp_queue t topic @ filter (\<lambda>m. m_topic m = topic) ms" by blast
    ultimately show ?thesis
      by (auto simp: srv_client_loop_def py_simps srv_drop_def tcp_queue_def remove1_idem)
  qed
  with f(2) show ?thesis by blast
qed

definition demo_tcp_server :: "(nat, nat) tcp_server" where
  "demo_tcp_server = tcp_subscribe ''s2'' ''b'' 2 (tcp_subscribe ''s1'' ''a'' 1 (srv_init\<lparr>srv_running := True, srv_clients := [7]\<rparr>))"

theorem tcp_client_to_server_witness:
  "\<exists>t'. srv_client_loop (\<lambda>_. Inr (demo_message ''m1'' ''a'')) (lift_rest (\<lambda>cb m w. (Inl (Exception ''E'' []), w @ [cb]))) 7
      [[0, 0], [0], [1, 5]] (demo_tcp_server, []) = (Inr (), (t', [1])) \<and>
    srv_clients t' = [] \<and> tcp_queue t' ''a'' = [demo_message ''m1'' ''a'']"
proof -
  let ?m = "demo_message ''m1'' ''a''" and ?h = "\<lambda>cb m w. (Inl (Exception ''E'' []), w @ [cb])"
  have ok: "list_all (\<lambda>m. \<exists>d. Inr [5] = Inr d \<and> length d < 2 ^ 32 \<and> Inr ?m = Inr m) [?m]" "catchable ?h" "srv_running demo_tcp_server"
    by (simp_all add: catchable_def demo_tcp_server_def tcp_subscribe_def srv_init_def)
  have tg: "tcp_targets demo_tcp_server ''a'' = [1]" "srv_clients demo_tcp_server = [7]" "tcp_queue demo_tcp_server ''a'' = []"
    by (simp_all add: demo_tcp_server_def tcp_subscribe_def srv_init_def targets_def tcp_pattern_def tcp_sub_matches_def
        tcp_queue_def dict_get_default_def tcp_topic_matches_def fnmatch_def glob_tokens.simps Let_def)
  have sent: "py_for (tcl_send (\<lambda>_. Inr [5]) (\<lambda>_ bytes wire. (Inr (), wire @ bytes))) [?m] (tcl_init\<lparr>tcl_socket := Some 7\<rparr>, []) =
      (Inr (), (tcl_init\<lparr>tcl_socket := Some 7\<rparr>, [0, 0, 0, 1, 5]))"
    by (simp add: tcl_send_def send_msg_def frame_def pack_length_def)
  have "tcl_socket (tcl_init\<lparr>tcl_socket := Some 7\<rparr>) = Some 7" by simp
  from tcp_client_to_server[where enc = "\<lambda>_. Inr [5]" and dec = "\<lambda>_. Inr ?m", OF this ok, of "[]", unfolded sent]
  obtain wire where wire: "wire = [0, 0, 0, 1, 5]" and del: "\<forall>s. proper s \<and> concat s = wire \<longrightarrow>
      (\<exists>t'. srv_client_loop (\<lambda>_. Inr ?m) (lift_rest ?h) 7 s (demo_tcp_server, []) =
        (Inr (), (t', fold (\<lambda>m. run_quietly ?h m (tcp_targets demo_tcp_server (m_topic m))) [?m] [])) \<and>
        tt_subscribers t' = tt_subscribers demo_tcp_server \<and> srv_clients t' = remove1 7 (srv_clients demo_tcp_server) \<and>
        (\<forall>topic. tcp_queue t' topic = tcp_queue demo_tcp_server topic @ filter (\<lambda>m. m_topic m = topic) [?m]))"
    by (elim exE conjE) simp
  from del[rule_format, of "[[0, 0], [0], [1, 5]]"] wire show ?thesis
    using tg by (auto simp: demo_message_def run_quietly_def)
qed

text \<open>
  C10. The TCP tables refine the subscription list. Seen as the list of subscriptions with their patterns, the
  two tables of a TCP transport behave like it: \<open>subscribe\<close> under a new id appends an entry, \<open>unsubscribe\<close>
  removes the entry of its id, both keep the tables consistent, and a dispatched message reaches the
  callbacks of the matching entries in order, before it is queued.
\<close>

theorem tcp_refines_subscription_list:
  fixes t :: "('cb, 'm) tcp_tables_scheme"
  assumes "tcp_ok t" and "dict_get (tt_subscribers t) i = None" and "catchable h"
  defines "table \<equiv> \<lambda>t :: ('cb, 'm) tcp_tables_scheme. sub_list (tt_subscribers t) (tcp_pattern t)"
  shows "tcp_ok (tcp_subscribe i p cb t) \<and> table (tcp_subscribe i p cb t) = table t @ [(i, Some p, cb)] \<and>
    tcp_ok (tcp_remove j t) \<and> table (tcp_remove j t) = filter (\<lambda>(x, _). x \<noteq> j) (table t) \<and>
    tcp_dispatch (lift_rest h) m (t, w) =
      (Inr (), (tcp_put m t, run_quietly h m (recipients tcp_sub_matches (table t) (m_topic m)) w))"
proof -
  have new: "i \<notin> fst ` set (tt_subscribers t)" using assms(2) by (simp add: map_of_eq_None_iff)
  show ?thesis
    using tcp_table.ok_subscribe[OF assms(1) new] tcp_table.ok_unsubscribe[OF assms(1)]
      tcp_table.refines_list[OF assms(1)] new tcp_dispatch_quiet[OF assms(3)]
    by (simp add: table_def targets_recipients)
qed

theorem tcp_refines_subscription_list_witness:
  "sub_list (tt_subscribers demo_tcp_server) (tcp_pattern demo_tcp_server) = [(''s1'', Some ''a'', 1), (''s2'', Some ''b'', 2)] \<and>
   sub_list (tt_subscribers (tcp_remove ''s1'' demo_tcp_server)) (tcp_pattern (tcp_remove ''s1'' demo_tcp_server)) = [(''s2'', Some ''b'', 2)]"
proof -
  let ?t = "srv_init\<lparr>srv_running := True, srv_clients := [7]\<rparr> :: (nat, nat) tcp_server"
  have ok: "tcp_ok ?t" "catchable (\<lambda>(cb :: nat) m (w :: unit). (Inr (), w))" by (simp_all add: tcp_ok_def srv_init_def catchable_def)
  note step = tcp_refines_subscription_list[OF _ _ ok(2)]
  from step[OF ok(1), of "''s1''" "''a''" 1] have 1: "tcp_ok (tcp_subscribe ''s1'' ''a'' 1 ?t)"
    "sub_list (tt_subscribers (tcp_subscribe ''s1'' ''a'' 1 ?t)) (tcp_pattern (tcp_subscribe ''s1'' ''a'' 1 ?t)) = [(''s1'', Some ''a'', 1)]"
    by (simp_all add: srv_init_def sub_list_def)
  from step[OF 1(1), of "''s2''" "''b''" 2] 1(2) have 2: "tcp_ok demo_tcp_server"
    "sub_list (tt_subscribers demo_tcp_server) (tcp_pattern demo_tcp_server) = [(''s1'', Some ''a'', 1), (''s2'', Some ''b'', 2)]"
    by (simp_all add: demo_tcp_server_def tcp_subscribe_def srv_init_def)
  with step[OF 2(1), of "''s3''" "[]" 3 "''s1''"] show ?thesis
    by (simp add: demo_tcp_server_def tcp_subscribe_def srv_init_def)
qed

text \<open>
  A message too long for its frame loses the clients. When the encoded message has four gibibytes or
  more, the server's \<open>send\<close> writes nothing, raises nothing, and leaves the server with no clients: the
  error of packing the length counts as a failure of every connection.
\<close>

theorem tcp_oversize_send:
  assumes "enc m = Inr data" and "2 ^ 32 \<le> length data"
  shows "srv_send enc sendall m (t, w) = (Inr (), (t\<lparr>srv_clients := []\<rparr>, w))"
proof -
  have one: "srv_send_one sendall data k (t, w) = (Inr (), (t\<lparr>srv_clients := remove1 k (srv_clients t)\<rparr>, w))" for t k
    using assms(2) by (simp add: srv_send_one_def send_msg_def frame_def pack_length_def py_simps)
  have "py_for (srv_send_one sendall data) ks (t\<lparr>srv_clients := ks\<rparr>, w) = (Inr (), (t\<lparr>srv_clients := []\<rparr>, w))" for ks
    by (induction ks) (simp_all add: one)
  from this[of "srv_clients t"] show ?thesis using assms(1) by (simp add: srv_send_def)
qed

theorem tcp_oversize_send_witness:
  "srv_send (\<lambda>_. Inr (replicate (2 ^ 32) 0)) (\<lambda>_ _. py_ret ()) (demo_message ''m1'' ''a'') (demo_tcp_server, ()) =
     (Inr (), (demo_tcp_server\<lparr>srv_clients := []\<rparr>, ()))"
  by (rule tcp_oversize_send[where data = "replicate (2 ^ 32) 0"]) (simp_all only: length_replicate order_refl)

end
