(* ===== verification/Tcp_Queue.thy ===== *)
theory Tcp_Queue
  imports Message_Queue Tcp_Transport
begin

text \<open>
  A \<open>MessageQueue\<close> on a \<open>TCPServerTransport\<close>, as a server process of
  \<open>src/eventforge/worker.py\<close> has it: the transport's operations in the form the queue calls them, and the
  queue's contract discharged for this state. Callbacks of the transport are channels of the queue.
\<close>

type_synonym ('h, 'k, 'w) tcp_state = "(nat, 'k) tcp_server \<times> ('h, 'w) mq_rest"

text \<open>What acts on the rest of the program only, such as a write to a socket.\<close>

definition on_user :: "('w, 'a) py \<Rightarrow> (('h, 'w) mq_rest, 'a) py" where
  "on_user m = (\<lambda>r. case m (r_user r) of (x, w) \<Rightarrow> (x, r\<lparr>r_user := w\<rparr>))"

definition tcp_ops ::
  "(nat \<Rightarrow> string) \<Rightarrow> (message \<Rightarrow> pyexn + byte list) \<Rightarrow> ('k \<Rightarrow> byte list \<Rightarrow> ('w, unit) py) \<Rightarrow> (nat, ('h, 'k, 'w) tcp_state) transport_ops" where
  "tcp_ops uuid4 enc sendall =
     \<lparr>t_send = srv_send enc (\<lambda>k bytes. on_user (sendall k bytes)), t_receive = tcp_receive,
      t_subscribe = (\<lambda>topic cb (t, r). (Inr (uuid4 (r_drawn r)), (tcp_subscribe (uuid4 (r_drawn r)) topic cb t, r\<lparr>r_drawn := Suc (r_drawn r)\<rparr>))),
      t_unsubscribe = tcp_unsubscribe, t_close = py_modify (\<lambda>(t, r). (srv_close t, r))\<rparr>"

definition tcp_ctx ::
  "(nat \<Rightarrow> string) \<Rightarrow> (message \<Rightarrow> pyexn + byte list) \<Rightarrow> ('k \<Rightarrow> byte list \<Rightarrow> ('w, unit) py) \<Rightarrow> ('w \<Rightarrow> int) \<Rightarrow>
   ('h, message, ('h, 'k, 'w) tcp_state) env \<Rightarrow> ('h, ('h, 'k, 'w) tcp_state) mq_ctx" where
  "tcp_ctx uuid4 enc sendall clock env =
     \<lparr>c_env = env, c_ops = tcp_ops uuid4 enc sendall, c_mq = (\<lambda>(t, r). r_mq r),
      c_upd_mq = (\<lambda>f (t, r). (t, r\<lparr>r_mq := f (r_mq r)\<rparr>)), c_drawn = (\<lambda>(t, r). r_drawn r),
      c_tick = (\<lambda>(t, r). (t, r\<lparr>r_drawn := Suc (r_drawn r)\<rparr>)), c_uuid = uuid4, c_clock = (\<lambda>(t, r). clock (r_user r))\<rparr>"

lemma tcp_ctx_simps [simp]:
  "t_send (tcp_ops uuid4 enc sendall) = srv_send enc (\<lambda>k bytes. on_user (sendall k bytes))"
  "t_subscribe (tcp_ops uuid4 enc sendall) = (\<lambda>topic cb (t, r).
     (Inr (uuid4 (r_drawn r)), (tcp_subscribe (uuid4 (r_drawn r)) topic cb t, r\<lparr>r_drawn := Suc (r_drawn r)\<rparr>)))"
  "t_close (tcp_ops uuid4 enc sendall) = py_modify (\<lambda>(t, r). (srv_close t, r))"
  "c_env (tcp_ctx uuid4 enc sendall clock env) = env" "c_ops (tcp_ctx uuid4 enc sendall clock env) = tcp_ops uuid4 enc sendall"
  "c_mq (tcp_ctx uuid4 enc sendall clock env) = (\<lambda>(t, r). r_mq r)"
  "c_upd_mq (tcp_ctx uuid4 enc sendall clock env) = (\<lambda>f (t, r). (t, r\<lparr>r_mq := f (r_mq r)\<rparr>))"
  "c_drawn (tcp_ctx uuid4 enc sendall clock env) = (\<lambda>(t, r). r_drawn r)"
  "c_tick (tcp_ctx uuid4 enc sendall clock env) = (\<lambda>(t, r). (t, r\<lparr>r_drawn := Suc (r_drawn r)\<rparr>))"
  "c_uuid (tcp_ctx uuid4 enc sendall clock env) = uuid4" "c_clock (tcp_ctx uuid4 enc sendall clock env) = (\<lambda>(t, r). clock (r_user r))"
  by (simp_all add: tcp_ops_def tcp_ctx_def)

interpretation srv_queue: queue_state "tcp_ctx uuid4 enc sendall clock (rest_env cl sb ld)" for uuid4 enc sendall clock cl sb ld
  by unfold_locales (auto split: prod.split)

section \<open>What a send writes\<close>

text \<open>
  On sockets of which some are broken: every client that is not gets the frame, in the order of the
  connections, and the broken ones are forgotten.
\<close>

lemma send_each:
  assumes "distinct (srv_clients t)" "frame data = Inr bytes"
    and "\<And>k w. sendall k bytes w = (if broken k then (Inl (Exception ty tx), w) else (Inr (), wr k w))"
  shows "py_for (srv_send_one sendall data) ks (t, w) =
    (Inr (), (t\<lparr>srv_clients := filter (\<lambda>k. k \<in> set ks \<longrightarrow> \<not> broken k) (srv_clients t)\<rparr>,
      fold wr (filter (\<lambda>k. \<not> broken k) ks) w))"
  using assms(1)
proof (induction ks arbitrary: t w)
  case (Cons k ks)
  let ?t1 = "if broken k then t\<lparr>srv_clients := remove1 k (srv_clients t)\<rparr> else t" and ?w1 = "if broken k then w else wr k w"
  have "srv_send_one sendall data k (t, w) = (Inr (), (?t1, ?w1))"
    by (simp add: srv_send_one_def send_msg_def assms(2,3))
  moreover have "distinct (srv_clients ?t1)" using Cons.prems by simp
  moreover have "filter (\<lambda>k'. k' \<in> set ks \<longrightarrow> \<not> broken k') (srv_clients ?t1) =
      filter (\<lambda>k'. k' \<in> set (k # ks) \<longrightarrow> \<not> broken k') (srv_clients t)"
    using Cons.prems by (auto simp: distinct_remove1_removeAll removeAll_filter_not_eq intro!: filter_cong)
  ultimately show ?case using Cons.IH[of ?t1 ?w1] by (auto split: if_splits)
qed simp

lemma srv_send_writes:
  assumes "distinct (srv_clients t)" "fits enc m"
    and "\<And>k w. sendall k (wire_frame enc m) w = (if broken k then (Inl (Exception ty tx), w) else (Inr (), wr k w))"
  shows "srv_send enc sendall m (t, w) =
    (Inr (), (t\<lparr>srv_clients := filter (\<lambda>k. \<not> broken k) (srv_clients t)\<rparr>, fold wr (filter (\<lambda>k. \<not> broken k) (srv_clients t)) w))"
proof -
  obtain d where d: "enc m = Inr d" "frame d = Inr (wire_frame enc m)" using fits_frame[OF assms(2)] by blast
  have "filter (\<lambda>k. k \<in> set (srv_clients t) \<longrightarrow> \<not> broken k) (srv_clients t) = filter (\<lambda>k. \<not> broken k) (srv_clients t)"
    by (rule filter_cong) simp_all
  with send_each[where sendall = sendall and wr = wr and broken = broken, OF assms(1) d(2) assms(3), of "srv_clients t" w] d(1)
  show ?thesis by (simp add: srv_send_def)
qed

end
