(* ===== verification/Worker.thy ===== *)
theory Worker
  imports Rpc Tcp_Queue
begin

text \<open>
  \<open>src/eventforge/worker.py\<close>: the process that serves the \<open>HANDLERS\<close> of a module as an RPC server on a
  TCP port until it is told to stop. Importing the module is a parameter. The last part puts the worker on
  its TCP transport and shows what the connected clients get and how the process ends.
\<close>

section \<open>Loading the handlers\<close>

text \<open>
  What \<open>getattr(module, "HANDLERS", None)\<close> may find: nothing, a value of another type (named), or a
  dictionary, whose entries are callable (\<open>Some\<close>) or not.
\<close>

datatype 'f handlers_attr = NoHandlers | NotDict string | Table "(string, 'f option) dict"

record 'f handler_module =
  hm_handlers :: "'f handlers_attr"
  hm_service_name :: "string option"

definition import_error :: "pyexn \<Rightarrow> bool" where
  "import_error e \<longleftrightarrow> is_Exc e \<and> exn_type e \<in> {''ImportError'', ''ModuleNotFoundError''}"

definition system_exit :: "string \<Rightarrow> pyexn" where
  "system_exit msg = BaseException ''SystemExit'' (''eventforge.worker: '' @ msg)"

definition no_table :: "string \<Rightarrow> string \<Rightarrow> pyexn" where
  "no_table module_path found = system_exit (''module '' @ py_repr module_path @
     '' must define a non-empty HANDLERS dict of {name: callable}; found '' @ found @ ''.'')"

definition bad_entries :: "(string, 'f option) dict \<Rightarrow> string list" where
  "bad_entries handlers = map fst (filter (\<lambda>(_, v). v = None) handlers)"

definition callables :: "(string, 'f option) dict \<Rightarrow> (string, 'f) dict" where
  "callables handlers = List.map_filter (\<lambda>(k, v). map_option (Pair k) v) handlers"

definition check_handlers :: "string \<Rightarrow> 'f handlers_attr \<Rightarrow> pyexn + (string, 'f) dict" where
  "check_handlers module_path handlers = (case handlers of
       NoHandlers \<Rightarrow> Inl (no_table module_path ''NoneType'')
     | NotDict type_name \<Rightarrow> Inl (no_table module_path type_name)
     | Table [] \<Rightarrow> Inl (no_table module_path ''dict'')
     | Table d \<Rightarrow>
         (let bad = bad_entries d in
          if bad \<noteq> [] then Inl (system_exit (''HANDLERS entries are not callable: ['' @ str_join '', '' (map py_repr bad) @ '']''))
          else Inr (callables d)))"

definition load_handlers ::
  "(string \<Rightarrow> ('s, 'f handler_module) py) \<Rightarrow> string \<Rightarrow> ('s, (string, 'f) dict \<times> string option) py" where
  "load_handlers import_module module_path = (\<lambda>s. case import_module module_path s of
       (Inl e, s') \<Rightarrow>
         (Inl (if import_error e
               then system_exit (''cannot import handler module '' @ py_repr module_path @ '': '' @ exn_str e @ [char_of (10 :: nat)] @
                 ''  (is it on PYTHONPATH? inside a container, bind-mount or COPY it in)'')
               else e), s')
     | (Inr md, s') \<Rightarrow>
         (case check_handlers module_path (hm_handlers md) of
            Inl e \<Rightarrow> (Inl e, s')
          | Inr handlers \<Rightarrow> (Inr (handlers, hm_service_name md), s')))"

text \<open>\<open>service_name or module_service or "rpc"\<close>.\<close>

definition resolve_service :: "string option \<Rightarrow> string option \<Rightarrow> string" where
  "resolve_service service_name module_service = (case (service_name, module_service) of
       (Some (c # cs), _) \<Rightarrow> c # cs | (_, Some (c # cs)) \<Rightarrow> c # cs | _ \<Rightarrow> ''rpc'')"

section \<open>Serving\<close>

text \<open>
  What happens while the main thread waits for the stop event: a signal, which Python handles in the main
  thread, or an event \<open>'e\<close> of another thread, whose exceptions stay there.
\<close>

datatype 'e worker_event = Sigterm | Sigint | Elsewhere 'e

record ('h, 'f, 's, 'e) worker_ctx =
  wk_import :: "string \<Rightarrow> ('s, 'f handler_module) py"
  wk_start :: "string \<Rightarrow> int \<Rightarrow> ('s, unit) py"
  wk_rpc :: "('h, 'f, 's) rpc_ctx"
  wk_elsewhere :: "'e \<Rightarrow> ('s, unit) py"

definition keyboard_interrupt :: pyexn where
  "keyboard_interrupt = BaseException ''KeyboardInterrupt'' []"

definition worker_event_step :: "('h, 'f, 's, 'e) worker_ctx \<Rightarrow> 'e worker_event \<Rightarrow> ('s, unit) py" where
  "worker_event_step W ev = (case ev of
       Sigterm \<Rightarrow> rpc_stop (wk_rpc W)
     | Sigint \<Rightarrow> py_raise keyboard_interrupt
     | Elsewhere e \<Rightarrow> (\<lambda>s. (Inr (), snd (wk_elsewhere W e s))))"

text \<open>\<open>while not self._stop_event.is_set(): wait\<close>, over the events that come; \<open>Blocked\<close> if it still waits after them.\<close>

fun wait_stop :: "('s \<Rightarrow> bool) \<Rightarrow> ('e \<Rightarrow> ('s, unit) py) \<Rightarrow> 'e list \<Rightarrow> ('s, unit waiting) py" where
  "wait_stop stopped step [] s = (Inr (if stopped s then Got () else Blocked), s)"
| "wait_stop stopped step (ev # evs) s =
     (if stopped s then (Inr (Got ()), s)
      else case step ev s of (Inl e, s') \<Rightarrow> (Inl e, s') | (Inr _, s') \<Rightarrow> wait_stop stopped step evs s')"

definition until_interrupt :: "('s, unit waiting) py \<Rightarrow> ('s, unit waiting) py" where
  "until_interrupt m = (\<lambda>s. case m s of
       (Inl e, s') \<Rightarrow> if e = keyboard_interrupt then (Inr (Got ()), s') else (Inl e, s')
     | (Inr x, s') \<Rightarrow> (Inr x, s'))"

definition serve_blocking :: "('h, 'f, 's, 'e) worker_ctx \<Rightarrow> 'e worker_event list \<Rightarrow> ('s, unit waiting) py" where
  "serve_blocking W evs =
     py_bind (py_gets (\<lambda>s. sv_running (rc_server (wk_rpc W) s))) (\<lambda>running.
       if running then py_ret (Got ())
       else py_seq (subscribe_handler (wk_rpc W))
         (until_interrupt (wait_stop (\<lambda>s. sv_stopped (rc_server (wk_rpc W) s)) (worker_event_step W) evs)))"

definition shut_down :: "('h, 'f, 's, 'e) worker_ctx \<Rightarrow> ('s, unit) py" where
  "shut_down W = py_seq (rpc_stop (wk_rpc W)) (t_close (c_ops (rc_queue (wk_rpc W))))"

text \<open>\<open>try: ... except KeyboardInterrupt: pass finally: ...\<close> around a call that may still be blocked.\<close>

definition then_shut_down :: "('h, 'f, 's, 'e) worker_ctx \<Rightarrow> ('s, unit waiting) py \<Rightarrow> ('s, unit waiting) py" where
  "then_shut_down W m = (\<lambda>s. case until_interrupt m s of
       (Inr Blocked, s') \<Rightarrow> (Inr Blocked, s')
     | (r, s') \<Rightarrow> (case shut_down W s' of (Inl e, s'') \<Rightarrow> (Inl e, s'') | (Inr _, s'') \<Rightarrow> (r, s'')))"

definition worker_setup :: "('h, 'f, 's, 'e) worker_ctx \<Rightarrow> string \<Rightarrow> string \<Rightarrow> int \<Rightarrow> string option \<Rightarrow> ('s, unit) py" where
  "worker_setup W module_path host port service_name =
     py_bind (load_handlers (wk_import W) module_path) (\<lambda>(handlers, module_service).
     py_seq (wk_start W host port)
     (py_seq (py_modify (c_upd_mq (rc_queue (wk_rpc W)) (\<lambda>_. mq_init)))
     (py_seq (py_modify (rc_upd (wk_rpc W) (\<lambda>_. rpc_server_init (resolve_service service_name module_service))))
       (py_for (\<lambda>(name, func). py_modify (rc_upd (wk_rpc W) (add_method name func))) handlers))))"

definition worker_serve ::
  "('h, 'f, 's, 'e) worker_ctx \<Rightarrow> string \<Rightarrow> string \<Rightarrow> int \<Rightarrow> string option \<Rightarrow> 'e worker_event list \<Rightarrow> ('s, unit waiting) py" where
  "worker_serve W module_path host port service_name evs =
     py_seq (worker_setup W module_path host port service_name) (then_shut_down W (serve_blocking W evs))"

text \<open>The command line after parsing: absent options take their defaults.\<close>

record worker_args =
  wa_module :: string
  wa_service :: "string option"
  wa_host :: "string option"
  wa_port :: "int option"

definition worker_main :: "('h, 'f, 's, 'e) worker_ctx \<Rightarrow> worker_args \<Rightarrow> 'e worker_event list \<Rightarrow> ('s, unit waiting) py" where
  "worker_main W args evs = worker_serve W (wa_module args)
     (case wa_host args of Some h \<Rightarrow> h | None \<Rightarrow> ''0.0.0.0'') (case wa_port args of Some n \<Rightarrow> n | None \<Rightarrow> 9090) (wa_service args) evs"

section \<open>What is served\<close>

lemma callables_all: "bad_entries d = [] \<Longrightarrow> d = map (\<lambda>(k, f). (k, Some f)) (callables d)"
  by (induction d) (auto simp: bad_entries_def callables_def map_filter_simps split: if_splits option.splits)

lemma callables_map [simp]: "callables (map (\<lambda>(k, f). (k, Some f)) hs) = hs" "bad_entries (map (\<lambda>(k, f). (k, Some f)) hs) = []"
  by (induction hs) (auto simp: bad_entries_def callables_def map_filter_simps)

lemma check_handlers_Inr:
  "check_handlers p a = Inr hs \<longleftrightarrow> hs \<noteq> [] \<and> a = Table (map (\<lambda>(k, f). (k, Some f)) hs)"
proof (cases a)
  case (Table d)
  have "check_handlers p (Table d) = Inr hs \<longleftrightarrow> d \<noteq> [] \<and> bad_entries d = [] \<and> hs = callables d"
    by (cases d) (auto simp: check_handlers_def Let_def)
  moreover have "d = map (\<lambda>(k, f). (k, Some f)) (callables d)" if "bad_entries d = []" using callables_all[OF that] .
  ultimately show ?thesis using Table by (auto intro: sym)
qed (auto simp: check_handlers_def)

lemma check_handlers_table: "hs \<noteq> [] \<Longrightarrow> check_handlers p (Table (map (\<lambda>(k, f). (k, Some f)) hs)) = Inr hs"
  by (simp add: check_handlers_Inr)

text \<open>
  C34. Only a proper table is served. Loading a module succeeds exactly when it imports and its \<open>HANDLERS\<close>
  is a non-empty dictionary all of whose entries are callable, and then gives that table and the module's
  \<open>SERVICE_NAME\<close>. It fails with \<open>SystemExit\<close>, or with the exception the import itself raised.
\<close>

theorem worker_load_handlers:
  "((\<exists>s'. load_handlers imp p s = (Inr (hs, sn), s')) \<longleftrightarrow>
     (\<exists>md s'. imp p s = (Inr md, s') \<and> hs \<noteq> [] \<and> hm_handlers md = Table (map (\<lambda>(k, f). (k, Some f)) hs) \<and> hm_service_name md = sn)) \<and>
   (\<forall>e s'. load_handlers imp p s = (Inl e, s') \<longrightarrow> (\<exists>msg. e = BaseException ''SystemExit'' msg) \<or> imp p s = (Inl e, s'))"
proof (intro conjI allI impI)
  show "(\<exists>s'. load_handlers imp p s = (Inr (hs, sn), s')) \<longleftrightarrow>
     (\<exists>md s'. imp p s = (Inr md, s') \<and> hs \<noteq> [] \<and> hm_handlers md = Table (map (\<lambda>(k, f). (k, Some f)) hs) \<and> hm_service_name md = sn)"
    by (cases "imp p s"; cases "fst (imp p s)")
      (auto simp: load_handlers_def check_handlers_table split: sum.splits dest: check_handlers_Inr[THEN iffD1])
  show "(\<exists>msg. e = BaseException ''SystemExit'' msg) \<or> imp p s = (Inl e, s')" if "load_handlers imp p s = (Inl e, s')" for e s'
    using that
    by (auto simp: load_handlers_def check_handlers_def system_exit_def no_table_def Let_def
        split: prod.splits sum.splits if_splits handlers_attr.splits list.splits)
qed

section \<open>The worker on its TCP transport\<close>

text \<open>
  What the process runs in: identifiers, clock, the codecs of messages, requests and responses, the
  modules that can be imported, the answer of the operating system to \<open>bind\<close>, which connections are broken
  for writing, and the handler functions, which act on the program's own state \<open>'u\<close>. The bytes written to
  every connection are kept in the state.
\<close>

record ('f, 'k, 'u) tcp_world =
  tw_uuid :: "nat \<Rightarrow> string"
  tw_clock :: "'u \<Rightarrow> int"
  tw_enc :: "message \<Rightarrow> pyexn + byte list"
  tw_dec :: "byte list \<Rightarrow> pyexn + message"
  tw_codec :: rpc_codec
  tw_modules :: "string \<Rightarrow> pyexn + 'f handler_module"
  tw_bind :: "string \<Rightarrow> int \<Rightarrow> pyexn + unit"
  tw_broken :: "'k \<Rightarrow> bool"
  tw_method :: "'f \<Rightarrow> pyval list \<Rightarrow> kwargs \<Rightarrow> 'u \<Rightarrow> (pyexn + pyval) \<times> 'u"

type_synonym ('f, 'k, 'u) worker_state = "(unit, 'k, 'f rpc_server \<times> ('k \<Rightarrow> byte list) \<times> 'u) tcp_state"

definition wire_sendall :: "('k \<Rightarrow> bool) \<Rightarrow> 'k \<Rightarrow> byte list \<Rightarrow> ('f rpc_server \<times> ('k \<Rightarrow> byte list) \<times> 'u, unit) py" where
  "wire_sendall broken k bytes = (\<lambda>(sv, wires, u).
     if broken k then (Inl (Exception ''BrokenPipeError'' ''[Errno 32] Broken pipe''), (sv, wires, u))
     else (Inr (), (sv, wires(k := wires k @ bytes), u)))"

definition method_call ::
  "('f \<Rightarrow> pyval list \<Rightarrow> kwargs \<Rightarrow> 'u \<Rightarrow> (pyexn + pyval) \<times> 'u) \<Rightarrow> 'f \<Rightarrow> pyval list \<Rightarrow> kwargs \<Rightarrow>
   ('k \<Rightarrow> byte list) \<times> 'u \<Rightarrow> (pyexn + pyval) \<times> ('k \<Rightarrow> byte list) \<times> 'u" where
  "method_call F f args kw = (\<lambda>(wires, u). case F f args kw u of (out, u') \<Rightarrow> (out, (wires, u')))"

text \<open>
  The one handler is the bound method \<open>_handle_request\<close>. The server's \<open>send\<close> runs no callback, so the calls
  of the store the handler's queue has are never made.
\<close>

definition tw_queue :: "('f, 'k, 'u) tcp_world \<Rightarrow> (unit, ('f, 'k, 'u) worker_state) mq_ctx" where
  "tw_queue P = tcp_ctx (tw_uuid P) (tw_enc P) (wire_sendall (tw_broken P)) (\<lambda>(sv, wires, u). tw_clock P u)
     (rest_env (\<lambda>_ _. py_ret PNone) (\<lambda>_ _. py_ret ()) (\<lambda>_. py_ret 0))"

definition tw_rpc :: "('f, 'k, 'u) tcp_world \<Rightarrow> (unit, 'f, ('f, 'k, 'u) worker_state) rpc_ctx" where
  "tw_rpc P = rest_rpc (tw_codec P) (method_call (tw_method P)) () (tw_queue P)"

definition tw_env :: "('f, 'k, 'u) tcp_world \<Rightarrow> (unit, message, ('f, 'k, 'u) worker_state) env" where
  "tw_env P = rest_env (\<lambda>_ m. py_seq (handle_request (tw_rpc P) m) (py_ret PNone)) (\<lambda>_ _. py_ret ()) (\<lambda>_. py_ret 0)"

text \<open>The threads of the transport: a client is accepted; a connection is read until it ends.\<close>

datatype 'k net_event = Accept 'k | Client 'k socket

definition tcp_worker :: "('f, 'k, 'u) tcp_world \<Rightarrow> (unit, 'f, ('f, 'k, 'u) worker_state, 'k net_event) worker_ctx" where
  "tcp_worker P =
     \<lparr>wk_import = (\<lambda>p s. (tw_modules P p, s)), wk_start = (\<lambda>host port (t, r). srv_start (tw_bind P host port) (srv_init, r)),
      wk_rpc = tw_rpc P,
      wk_elsewhere = (\<lambda>ev. case ev of
          Accept k \<Rightarrow> py_modify (\<lambda>(t, r). (srv_accept k t, r))
        | Client k sock \<Rightarrow> srv_client_loop (tw_dec P) (ev_fire (tw_env P)) k sock)\<rparr>"

lemma tcp_worker_simps [simp]:
  "wk_import (tcp_worker P) = (\<lambda>p s. (tw_modules P p, s))" "wk_rpc (tcp_worker P) = tw_rpc P"
  "wk_start (tcp_worker P) = (\<lambda>host port (t, r). srv_start (tw_bind P host port) (srv_init, r))"
  "wk_elsewhere (tcp_worker P) (Accept k) = py_modify (\<lambda>(t, r). (srv_accept k t, r))"
  "wk_elsewhere (tcp_worker P) (Client k sock) = srv_client_loop (tw_dec P) (ev_fire (tw_env P)) k sock"
  "rc_queue (tw_rpc P) = tw_queue P" "rc_codec (tw_rpc P) = tw_codec P" "rc_handler (tw_rpc P) = ()"
  "rc_server (tw_rpc P) = (\<lambda>(t, r). fst (r_user r))"
  "rc_upd (tw_rpc P) = (\<lambda>g (t, r). (t, r\<lparr>r_user := (g (fst (r_user r)), snd (r_user r))\<rparr>))"
  by (simp_all add: tcp_worker_def tw_rpc_def) (simp add: rest_rpc_def)

text \<open>The state of a worker that serves the methods \<open>ms\<close> under a name.\<close>

definition serving :: "string \<Rightarrow> (string, 'f) dict \<Rightarrow> ('f, 'k, 'u) worker_state \<Rightarrow> bool" where
  "serving name ms = (\<lambda>(t, r). srv_running t \<and>
     (\<exists>i. tt_subscribers t = [(i, 0)] \<and> tt_topic_subs t = [(request_topic name, [i])]) \<and>
     mq_topics (r_mq r) = [(request_topic name, 0)] \<and> plain_channel 0 (r_objects r) \<and>
     ev_subscribers (o_eventfuls (r_objects r) 0) = [()] \<and> o_nodes (r_objects r) = (\<lambda>_. None) \<and>
     (\<exists>hid. mq_sub_ids (r_mq r) = [(hid, (request_topic name, ()))] \<and>
       fst (r_user r) = \<lparr>sv_service_name = name, sv_methods = ms, sv_running = True, sv_sub_id = Some hid, sv_stopped = False\<rparr>))"

text \<open>What handling requests never changes.\<close>

definition worker_part :: "('f, 'k, 'u) worker_state \<Rightarrow> bool \<times> (string, nat) dict \<times> (string, string list) dict \<times> unit mqueue \<times> unit objects \<times> 'f rpc_server" where
  "worker_part = (\<lambda>(t, r). (srv_running t, tt_subscribers t, tt_topic_subs t, r_mq r, r_objects r, fst (r_user r)))"

lemma serving_part: "worker_part s' = worker_part s \<Longrightarrow> serving name ms s' = serving name ms s"
  by (cases s; cases s') (simp add: worker_part_def serving_def)

lemma tw_send_keeps [keeps]: "py_keeps worker_part (t_send (c_ops (tw_queue P)) m)"
proof -
  have one: "py_keeps worker_part (srv_send_one (\<lambda>k bytes. on_user (wire_sendall (tw_broken P) k bytes)) data k)" for data k
    by (auto simp: py_keeps_def srv_send_one_def send_msg_def on_user_def wire_sendall_def worker_part_def py_simps split: sum.split prod.split)
  then have "py_keeps worker_part (py_for (srv_send_one (\<lambda>k bytes. on_user (wire_sendall (tw_broken P) k bytes)) data) ks)" for data ks
    by (rule keeps)
  then show ?thesis
    by (auto simp: py_keeps_def tw_queue_def srv_send_def split: sum.split)
qed

lemma tw_uuid_keeps [keeps]: "py_keeps worker_part (mq_uuid (tw_queue P))"
  by (auto simp: mq_uuid_def tw_queue_def worker_part_def intro!: keeps)

lemma tw_publish_keeps [keeps]: "py_keeps worker_part (mq_publish (tw_queue P) topic payload headers)"
  unfolding mq_publish_def mq_message_def by (intro keeps)

lemma handle_keeps: "py_keeps worker_part (handle_request (tw_rpc P) m)"
proof -
  have "py_keeps worker_part (rc_call (tw_rpc P) f args kw)" for f args kw
    by (auto simp: py_keeps_def tw_rpc_def worker_part_def split: prod.split)
  then show ?thesis
    unfolding handle_request_def respond_invalid_def respond_not_found_def respond_def run_method_def
    by (auto intro!: keeps split: sum.split option.split list.split)
qed

text \<open>A served request topic has one channel and one handler, so firing it handles the request.\<close>

lemma serving_fire: "serving name ms (t, r) \<Longrightarrow> ev_fire (tw_env P) 0 m (t, r) = handle_request (tw_rpc P) m (t, r)"
  by (simp add: serving_def ev_fire_def tw_env_def dispatch_def plain_channel_def broadcast_dispatch_def invoke_def py_simps
      split: prod.split sum.split)

lemma serving_dispatch: "serving name ms s \<Longrightarrow> serving name ms (snd (tcp_dispatch (ev_fire (tw_env P)) m s))"
proof -
  assume s: "serving name ms s"
  obtain t r where tr: "s = (t, r)" by fastforce
  have notify: "serving name ms (snd (notify_with tcp_pattern tcp_sub_matches (ev_fire (tw_env P)) m (i, 0) s'))"
    if s': "serving name ms s'" for i s'
  proof -
    obtain t1 r1 where tr1: "s' = (t1, r1)" by fastforce
    have "worker_part (snd (handle_request (tw_rpc P) m (t1, r1))) = worker_part (t1, r1)"
      using handle_keeps[of P m] unfolding py_keeps_def by blast
    from serving_part[OF this] have "serving name ms (snd (py_suppress (ev_fire (tw_env P) 0 m) (t1, r1)))"
      using s' serving_fire[OF s'[unfolded tr1]] tr1
      by (auto simp: py_simps split: prod.split sum.split)
    then show ?thesis using s' tr1 by (auto simp: notify_with_def split: option.split)
  qed
  obtain i where "tt_subscribers t = [(i, 0)]" using s tr by (auto simp: serving_def)
  then have "serving name ms (snd (py_for (notify_with tcp_pattern tcp_sub_matches (ev_fire (tw_env P)) m) (tt_subscribers t) s))"
    using notify[OF s, of i] by (auto split: prod.split sum.split)
  then show ?thesis
    by (auto simp: tr tcp_dispatch_def py_simps serving_def tcp_put_def plain_channel_def split: prod.split sum.split)
qed

lemma elsewhere_serving: "serving name ms s \<Longrightarrow> serving name ms (snd (wk_elsewhere (tcp_worker P) ev s))"
proof (cases ev)
  case (Client k sock)
  assume s: "serving name ms s"
  have "serving name ms (snd (read_loop (\<lambda>(t, w). srv_running t) (tw_dec P) (tcp_dispatch (ev_fire (tw_env P))) sock s))"
    by (rule read_loop_inv[where I = "serving name ms", OF _ s]) (rule serving_dispatch)
  then show ?thesis
    by (auto simp: Client srv_client_loop_def py_simps serving_def srv_drop_def split: prod.split sum.split)
qed (auto simp: py_simps serving_def srv_accept_def split: prod.split)

section \<open>From start to stop\<close>

text \<open>A module whose table can be served.\<close>

definition servable :: "('f, 'k, 'u) tcp_world \<Rightarrow> string \<Rightarrow> string \<Rightarrow> int \<Rightarrow> (string, 'f) dict \<Rightarrow> string option \<Rightarrow> bool" where
  "servable P p host port hs sn \<longleftrightarrow> hs \<noteq> [] \<and> dict_ok hs \<and> tw_bind P host port = Inr () \<and>
     tw_modules P p = Inr \<lparr>hm_handlers = Table (map (\<lambda>(k, f). (k, Some f)) hs), hm_service_name = sn\<rparr>"

lemma add_methods:
  "dict_ok (sv_methods sv @ hs) \<Longrightarrow> fold (\<lambda>(name, func). add_method name func) hs sv = sv\<lparr>sv_methods := sv_methods sv @ hs\<rparr>"
proof (induction hs arbitrary: sv)
  case (Cons h hs)
  obtain n f where h: "h = (n, f)" by fastforce
  have "dict_get (sv_methods sv) n = None" using Cons.prems h by (auto simp: map_of_eq_None_iff)
  then have "add_method n f sv = sv\<lparr>sv_methods := sv_methods sv @ [(n, f)]\<rparr>" by (simp add: add_method_def dict_set_fresh)
  with Cons h show ?case by simp
qed simp

lemma setup_runs:
  assumes "servable P p host port hs sn"
  shows "worker_setup (tcp_worker P) p host port service_name (t, r) =
    (Inr (), (srv_init\<lparr>srv_listening := True, srv_running := True\<rparr>,
      r\<lparr>r_mq := mq_init, r_user := ((rpc_server_init (resolve_service service_name sn))\<lparr>sv_methods := hs\<rparr>, snd (r_user r))\<rparr>))"
proof -
  have load: "load_handlers (wk_import (tcp_worker P)) p (t, r) = (Inr (hs, sn), (t, r))"
    using assms by (simp add: load_handlers_def servable_def check_handlers_table)
  let ?f = "\<lambda>(name, func) (t, r). (t, r\<lparr>r_user := (add_method name func (fst (r_user r)), snd (r_user r))\<rparr>)"
  have each: "fold ?f xs (t1, r1) = (t1, r1\<lparr>r_user := (fold (\<lambda>(name, func). add_method name func) xs (fst (r_user r1)), snd (r_user r1))\<rparr>)"
    for xs and t1 :: "(nat, 'b) tcp_server" and r1 :: "(unit, 'a rpc_server \<times> ('b \<Rightarrow> byte list) \<times> 'c) mq_rest"
    by (induction xs arbitrary: r1) auto
  have "py_for (\<lambda>(name, func). py_modify (rc_upd (wk_rpc (tcp_worker P)) (add_method name func))) hs s = (Inr (), fold ?f hs s)" for s
    by (rule py_for_total) (auto simp: py_simps split: prod.split)
  with assms load each show ?thesis
    by (simp add: worker_setup_def py_simps servable_def srv_start_def tw_queue_def add_methods rpc_server_init_def)
qed

lemma subscribe_serves:
  assumes "o_nodes (r_objects r) = (\<lambda>_. None)" "r_mq r = mq_init" "fst (r_user r) = (rpc_server_init name)\<lparr>sv_methods := hs\<rparr>"
    and "tt_subscribers t = []" "tt_topic_subs t = []" "srv_running t"
  shows "\<exists>r'. subscribe_handler (tw_rpc P) (t, r) = (Inr (), (tcp_subscribe (tw_uuid P (r_drawn r)) (request_topic name) 0 t, r')) \<and>
    serving name hs (tcp_subscribe (tw_uuid P (r_drawn r)) (request_topic name) 0 t, r') \<and>
    snd (r_user r') = snd (r_user r) \<and> r_drawn r' = r_drawn r + 2"
  using assms
  by (simp add: subscribe_handler_def py_simps mq_on_def mq_subscribe_def mq_topic_def tw_queue_def mq_init_def Let_def
      upd_eventful_def ev_subscribe_def mq_uuid_def serving_def tcp_subscribe_def plain_channel_def eventful_new_def
      rpc_server_init_def rest_env_def)

lemma until_interrupt_twice: "until_interrupt (until_interrupt m) s = until_interrupt m s"
  by (simp add: until_interrupt_def split: prod.split sum.split)

text \<open>Events of other threads, one after the other.\<close>

definition elsewhere_all :: "('f, 'k, 'u) tcp_world \<Rightarrow> 'k net_event list \<Rightarrow> ('f, 'k, 'u) worker_state \<Rightarrow> ('f, 'k, 'u) worker_state" where
  "elsewhere_all P = fold (\<lambda>e s. snd (wk_elsewhere (tcp_worker P) e s))"

abbreviation tw_wait :: "('f, 'k, 'u) tcp_world \<Rightarrow> 'k net_event worker_event list \<Rightarrow> (('f, 'k, 'u) worker_state, unit waiting) py" where
  "tw_wait P \<equiv> wait_stop (\<lambda>s. sv_stopped (rc_server (tw_rpc P) s)) (worker_event_step (tcp_worker P))"

lemma event_steps [simp]:
  "worker_event_step (tcp_worker P) (Elsewhere e) s = (Inr (), snd (wk_elsewhere (tcp_worker P) e s))"
  "worker_event_step (tcp_worker P) Sigterm s = rpc_stop (tw_rpc P) s"
  "worker_event_step (tcp_worker P) Sigint s = (Inl keyboard_interrupt, s)"
  by (simp_all add: worker_event_step_def py_simps)

lemma elsewhere_all_serving: "serving name ms s \<Longrightarrow> serving name ms (elsewhere_all P es s)"
  by (induction es arbitrary: s) (simp_all add: elsewhere_all_def elsewhere_serving)

lemma serving_not_stopped: "serving name ms s \<Longrightarrow> \<not> sv_stopped (rc_server (tw_rpc P) s)"
  by (auto simp: serving_def)

lemma wait_elsewhere:
  assumes "serving name ms s"
  shows "tw_wait P (map Elsewhere es @ evs) s =
    tw_wait P evs (elsewhere_all P es s)"
  using assms
proof (induction es arbitrary: s)
  case (Cons e es)
  then show ?case
    using serving_not_stopped[OF Cons.prems, of P] elsewhere_serving[OF Cons.prems, of P e]
    by (simp add: elsewhere_all_def)
qed (simp add: elsewhere_all_def)

lemma events_split:
  "(Sigterm \<notin> set evs \<and> Sigint \<notin> set evs \<and> (\<exists>es. evs = map Elsewhere es)) \<or>
   ((Sigterm \<in> set evs \<or> Sigint \<in> set evs) \<and> (\<exists>es ev post. evs = map Elsewhere es @ ev # post \<and> (ev = Sigterm \<or> ev = Sigint)))"
proof (induction evs)
  case (Cons ev evs)
  show ?case
  proof (cases ev)
    case (Elsewhere e)
    from Cons consider es where "Sigterm \<notin> set evs" "Sigint \<notin> set evs" "evs = map Elsewhere es"
      | es ev' post where "Sigterm \<in> set evs \<or> Sigint \<in> set evs" "evs = map Elsewhere es @ ev' # post" "ev' = Sigterm \<or> ev' = Sigint"
      by blast
    then show ?thesis
    proof cases
      case 1
      with Elsewhere show ?thesis by (auto intro: exI[of _ "e # es"])
    next
      case 2
      with Elsewhere show ?thesis
        by - (rule disjI2, intro conjI exI[of _ "e # es"] exI[of _ ev'] exI[of _ post], auto)
    qed
  qed (auto intro: exI[of _ "[]"])
qed simp

text \<open>A stopped worker: the server does not run and its handler is not subscribed.\<close>

definition stopped :: "string \<Rightarrow> ('f, 'k, 'u) worker_state \<Rightarrow> bool" where
  "stopped name = (\<lambda>(t, r). \<not> sv_running (fst (r_user r)) \<and> sv_stopped (fst (r_user r)) \<and> sv_sub_id (fst (r_user r)) = None \<and>
     mq_topics (r_mq r) = [(request_topic name, 0)] \<and> ev_subscribers (o_eventfuls (r_objects r) 0) = [] \<and> mq_sub_ids (r_mq r) = [])"

lemma stop_serving: "serving name ms (t, r) \<Longrightarrow> \<exists>r'. rpc_stop (tw_rpc P) (t, r) = (Inr (), (t, r')) \<and> stopped name (t, r')"
  by (auto simp: serving_def rpc_stop_def py_simps mq_unsubscribe_def tw_queue_def ev_unsubscribe_def upd_eventful_def stopped_def
      rest_env_def)

lemma stop_stopped: "stopped name (t, r) \<Longrightarrow> \<exists>r'. rpc_stop (tw_rpc P) (t, r) = (Inr (), (t, r')) \<and> stopped name (t, r')"
  by (auto simp: rpc_stop_def py_simps stopped_def)

lemma shut_down_closes:
  assumes "serving name ms (t, r) \<or> stopped name (t, r)"
  shows "\<exists>r'. shut_down (tcp_worker P) (t, r) = (Inr (), (srv_close t, r')) \<and> stopped name (srv_close t, r')"
proof -
  obtain r' where r': "rpc_stop (tw_rpc P) (t, r) = (Inr (), (t, r'))" "stopped name (t, r')"
    using assms stop_serving stop_stopped by metis
  moreover from r'(2) have "stopped name (srv_close t, r')" by (simp add: stopped_def)
  ultimately show ?thesis by (simp add: shut_down_def py_simps tw_queue_def)
qed

lemma serve_blocking_ends:
  assumes "serving name ms (t, r)" "ev = Sigterm \<or> ev = Sigint"
  shows "\<exists>r'. until_interrupt (tw_wait P (ev # post)) (t, r) =
      (Inr (Got ()), (t, r')) \<and> (serving name ms (t, r') \<or> stopped name (t, r'))"
  using assms(2)
proof
  assume ev: "ev = Sigint"
  then show ?thesis
    using assms(1) serving_not_stopped[OF assms(1), of P]
    by (simp add: until_interrupt_def keyboard_interrupt_def)
next
  assume ev: "ev = Sigterm"
  obtain r' where r': "rpc_stop (tw_rpc P) (t, r) = (Inr (), (t, r'))" "stopped name (t, r')" using stop_serving[OF assms(1)] by blast
  then have "tw_wait P post (t, r') = (Inr (Got ()), (t, r'))"
    by (cases post) (simp_all add: stopped_def)
  with r' ev show ?thesis
    using serving_not_stopped[OF assms(1), of P] by (simp add: until_interrupt_def)
qed

text \<open>The wait ends with a signal, in a state that serves or is already stopped, and only then.\<close>

lemma wait_outcome:
  assumes "serving name ms s"
  shows "\<exists>s'. until_interrupt (tw_wait P evs) s = (Inr (if Sigterm \<in> set evs \<or> Sigint \<in> set evs then Got () else Blocked), s') \<and>
    (serving name ms s' \<or> (Sigterm \<in> set evs \<or> Sigint \<in> set evs) \<and> stopped name s')"
proof -
  from events_split[of evs] consider es where "Sigterm \<notin> set evs" "Sigint \<notin> set evs" "evs = map Elsewhere es"
    | es ev post where "Sigterm \<in> set evs \<or> Sigint \<in> set evs" "evs = map Elsewhere es @ ev # post" "ev = Sigterm \<or> ev = Sigint"
    by blast
  then show ?thesis
  proof cases
    case 1
    have sv: "serving name ms (elsewhere_all P es s)" by (rule elsewhere_all_serving[OF assms])
    have "tw_wait P evs s = (Inr Blocked, elsewhere_all P es s)"
      using wait_elsewhere[OF assms, of P es "[]"] serving_not_stopped[OF sv, of P] by (simp add: 1(3))
    with 1(1,2) sv show ?thesis by (simp add: until_interrupt_def)
  next
    case 2
    obtain t2 r2 where s2: "elsewhere_all P es s = (t2, r2)" by fastforce
    have sv: "serving name ms (t2, r2)" using elsewhere_all_serving[OF assms, of P es] by (simp only: s2)
    have "tw_wait P evs s = tw_wait P (ev # post) (t2, r2)"
      using wait_elsewhere[OF assms, of P es "ev # post"] by (simp only: 2(2) s2)
    then have "until_interrupt (tw_wait P evs) s = until_interrupt (tw_wait P (ev # post)) (t2, r2)"
      by (simp only: until_interrupt_def)
    with serve_blocking_ends[OF sv 2(3), of P post] 2(1) show ?thesis by auto
  qed
qed

text \<open>A served module: setting up and subscribing, then waiting for a signal, then the cleanup.\<close>

lemma worker_serve_runs:
  assumes "servable P p host port hs sn" "o_nodes (r_objects r) = (\<lambda>_. None)"
    and "name = resolve_service service_name sn"
  obtains r1 where
    "serving name hs (tcp_subscribe (tw_uuid P (r_drawn r)) (request_topic name) 0 (srv_init\<lparr>srv_listening := True, srv_running := True\<rparr>), r1)"
    "snd (r_user r1) = snd (r_user r)" "r_drawn r1 = r_drawn r + 2"
    "\<And>evs. worker_serve (tcp_worker P) p host port service_name evs (t, r) = then_shut_down (tcp_worker P) (until_interrupt (tw_wait P evs))
      (tcp_subscribe (tw_uuid P (r_drawn r)) (request_topic name) 0 (srv_init\<lparr>srv_listening := True, srv_running := True\<rparr>), r1)"
proof -
  let ?t0 = "srv_init\<lparr>srv_listening := True, srv_running := True\<rparr>"
  let ?r0 = "r\<lparr>r_mq := mq_init, r_user := ((rpc_server_init name)\<lparr>sv_methods := hs\<rparr>, snd (r_user r))\<rparr>"
  have init: "tt_subscribers ?t0 = []" "tt_topic_subs ?t0 = []" "srv_running ?t0" by (simp_all add: srv_init_def)
  obtain r1 where r1: "subscribe_handler (tw_rpc P) (?t0, ?r0) =
      (Inr (), (tcp_subscribe (tw_uuid P (r_drawn ?r0)) (request_topic name) 0 ?t0, r1))"
    "serving name hs (tcp_subscribe (tw_uuid P (r_drawn ?r0)) (request_topic name) 0 ?t0, r1)"
    "snd (r_user r1) = snd (r_user ?r0)" "r_drawn r1 = r_drawn ?r0 + 2"
    using subscribe_serves[where P = P and name = name and hs = hs and r = ?r0, OF _ _ _ init] assms(2) by auto
  show thesis
    by (rule that[of r1]) (use r1 in \<open>simp_all add: worker_serve_def py_simps setup_runs[OF assms(1)] then_shut_down_def until_interrupt_def
        serve_blocking_def rpc_server_init_def assms(3)\<close>)
qed

text \<open>
  C26. A worker serves until it is told to stop, and then leaves nothing behind. For a module with a proper
  table and a free port, whatever clients connect and send, whatever the handlers do and whichever
  connections break: without a signal the worker keeps serving all its handlers. With a \<open>SIGTERM\<close> or a
  \<open>SIGINT\<close> it returns, the request handler is unsubscribed, the server is stopped, and the transport is
  closed, listens no more and has no clients or subscriptions.
\<close>

theorem worker_shuts_down:
  assumes "servable P p host port hs sn" and "o_nodes (r_objects r) = (\<lambda>_. None)"
  shows "\<exists>t' r'. worker_serve (tcp_worker P) p host port service_name evs (t, r) =
      (Inr (if Sigterm \<in> set evs \<or> Sigint \<in> set evs then Got () else Blocked), (t', r')) \<and>
    (if Sigterm \<in> set evs \<or> Sigint \<in> set evs
     then \<not> srv_running t' \<and> \<not> srv_listening t' \<and> srv_clients t' = [] \<and> tt_subscribers t' = [] \<and>
       \<not> sv_running (fst (r_user r')) \<and> sv_sub_id (fst (r_user r')) = None \<and>
       mq_subs (tw_queue P) (request_topic (resolve_service service_name sn)) (t', r') = []
     else srv_running t' \<and> sv_running (fst (r_user r')) \<and> sv_methods (fst (r_user r')) = hs \<and>
       mq_subs (tw_queue P) (request_topic (resolve_service service_name sn)) (t', r') = [()])"
proof -
  let ?name = "resolve_service service_name sn" and ?sig = "Sigterm \<in> set evs \<or> Sigint \<in> set evs"
  obtain s1 where s1: "serving ?name hs s1"
    "worker_serve (tcp_worker P) p host port service_name evs (t, r) = then_shut_down (tcp_worker P) (until_interrupt (tw_wait P evs)) s1"
    by (rule worker_serve_runs[OF assms refl]) blast
  obtain t2 r2 where s2: "until_interrupt (tw_wait P evs) s1 = (Inr (if ?sig then Got () else Blocked), (t2, r2))"
    "serving ?name hs (t2, r2) \<or> ?sig \<and> stopped ?name (t2, r2)"
    using wait_outcome[OF s1(1), of P evs] by auto
  have subs: "serving ?name hs s \<Longrightarrow> mq_subs (tw_queue P) (request_topic ?name) s = [()]"
    "stopped ?name s \<Longrightarrow> mq_subs (tw_queue P) (request_topic ?name) s = []" for s
    by (auto simp: serving_def stopped_def mq_subs_def tw_queue_def rest_env_def)
  show ?thesis
  proof (cases ?sig)
    case True
    obtain r3 where r3: "shut_down (tcp_worker P) (t2, r2) = (Inr (), (srv_close t2, r3))" "stopped ?name (srv_close t2, r3)"
      using shut_down_closes s2(2) by blast
    have "then_shut_down (tcp_worker P) (until_interrupt (tw_wait P evs)) s1 = (Inr (Got ()), (srv_close t2, r3))"
      unfolding then_shut_down_def until_interrupt_twice s2(1) using True r3(1) by simp
    with s1(2) True r3(2) subs(2)[OF r3(2)] show ?thesis
      by (intro exI[of _ "srv_close t2"] exI[of _ r3]) (simp add: srv_close_def stopped_def)
  next
    case False
    then have "then_shut_down (tcp_worker P) (until_interrupt (tw_wait P evs)) s1 = (Inr Blocked, (t2, r2))"
      unfolding then_shut_down_def until_interrupt_twice s2(1) by simp
    moreover have "serving ?name hs (t2, r2)" using s2(2) False by blast
    ultimately show ?thesis
      using s1(2) False subs(1)[of "(t2, r2)"] by (intro exI[of _ t2] exI[of _ r2]) (auto simp: serving_def)
  qed
qed

section \<open>What the clients get\<close>

text \<open>The request a message carries, the reply to it (in the state \<open>u\<close>, with \<open>n\<close> identifiers drawn), and the replies to a sequence.\<close>

definition request_of :: "('f, 'k, 'u) tcp_world \<Rightarrow> message \<Rightarrow> rpc_request" where
  "request_of P m = projr (load_request (tw_codec P) (m_payload m))"

definition reply_message :: "('f, 'k, 'u) tcp_world \<Rightarrow> (string, 'f) dict \<Rightarrow> nat \<Rightarrow> message \<Rightarrow> 'u \<Rightarrow> message" where
  "reply_message P hs n m u =
     \<lparr>m_id = tw_uuid P (Suc n), m_topic = the (m_reply_to m),
      m_payload = dump_response (tw_codec P) (response_to (tw_method P) hs (request_of P m) u (tw_uuid P n)), m_headers = [],
      m_timestamp = tw_clock P (state_after (tw_method P) hs (request_of P m) u), m_reply_to = None, m_correlation_id = None\<rparr>"

fun replies :: "('f, 'k, 'u) tcp_world \<Rightarrow> (string, 'f) dict \<Rightarrow> nat \<Rightarrow> message list \<Rightarrow> 'u \<Rightarrow> message list" where
  "replies P hs n [] u = []"
| "replies P hs n (m # ms) u = reply_message P hs n m u # replies P hs (n + 2) ms (state_after (tw_method P) hs (request_of P m) u)"

text \<open>
  A message that asks for an answer: it carries a request and a reply topic, the methods it may reach raise
  only \<open>Exception\<close>s, and the replies to it fit a frame.
\<close>

definition answerable :: "('f, 'k, 'u) tcp_world \<Rightarrow> (string, 'f) dict \<Rightarrow> message \<Rightarrow> bool" where
  "answerable P hs m \<longleftrightarrow> (\<exists>c cs. m_reply_to m = Some (c # cs)) \<and> (\<exists>q. load_request (tw_codec P) (m_payload m) = Inr q) \<and>
     (\<forall>n u. fits (tw_enc P) (reply_message P hs n m u)) \<and>
     (\<forall>f u e. dict_get hs (rq_method (request_of P m)) = Some f \<longrightarrow>
        fst (tw_method P f (rq_args (request_of P m)) (rq_kwargs (request_of P m)) u) = Inl e \<longrightarrow> is_Exc e)"

definition write_all :: "'k list \<Rightarrow> byte list \<Rightarrow> ('k \<Rightarrow> byte list) \<Rightarrow> 'k \<Rightarrow> byte list" where
  "write_all ks bytes wires = (\<lambda>k. if k \<in> set ks then wires k @ bytes else wires k)"

lemma fold_writes:
  assumes "distinct ks"
  shows "fold (\<lambda>k r. r\<lparr>r_user := (fst (r_user r), (fst (snd (r_user r)))(k := fst (snd (r_user r)) k @ bytes), snd (snd (r_user r)))\<rparr>) ks r =
    r\<lparr>r_user := (fst (r_user r), write_all ks bytes (fst (snd (r_user r))), snd (snd (r_user r)))\<rparr>"
  using assms
proof (induction ks arbitrary: r)
  case (Cons k ks)
  have "write_all ks bytes (\<lambda>a. if a = k then w k @ bytes else w a) = write_all (k # ks) bytes w" for w
    using Cons.prems by (auto simp: write_all_def fun_eq_iff)
  with Cons show ?case by simp
qed (simp add: write_all_def)

lemma tw_publish:
  assumes "distinct (srv_clients t)" "r_user r = (sv, wires, u)"
    and "m = \<lparr>m_id = tw_uuid P (r_drawn r), m_topic = topic, m_payload = payload, m_headers = [], m_timestamp = tw_clock P u,
      m_reply_to = None, m_correlation_id = None\<rparr>" "fits (tw_enc P) m"
  shows "mq_publish (tw_queue P) topic payload [] (t, r) =
    (Inr (m_id m), (t\<lparr>srv_clients := filter (\<lambda>k. \<not> tw_broken P k) (srv_clients t)\<rparr>,
      r\<lparr>r_drawn := Suc (r_drawn r), r_user := (sv, write_all (filter (\<lambda>k. \<not> tw_broken P k) (srv_clients t)) (wire_frame (tw_enc P) m) wires, u)\<rparr>))"
proof -
  let ?wr = "\<lambda>k r. r\<lparr>r_user := (fst (r_user r), (fst (snd (r_user r)))(k := fst (snd (r_user r)) k @ wire_frame (tw_enc P) m), snd (snd (r_user r)))\<rparr>"
  let ?r1 = "r\<lparr>r_drawn := Suc (r_drawn r)\<rparr>"
  have "t_send (c_ops (tw_queue P)) m (t, ?r1) =
      (Inr (), (t\<lparr>srv_clients := filter (\<lambda>k. \<not> tw_broken P k) (srv_clients t)\<rparr>, fold ?wr (filter (\<lambda>k. \<not> tw_broken P k) (srv_clients t)) ?r1))"
    unfolding tw_queue_def tcp_ctx_simps
    by (rule srv_send_writes[where ty = "''BrokenPipeError''" and tx = "''[Errno 32] Broken pipe''", OF assms(1,4)])
      (simp add: on_user_def wire_sendall_def split: prod.split)
  then show ?thesis
    using assms(2,3) by (simp add: mq_publish_def mq_message_def mq_uuid_def py_simps fold_writes assms(1))
      (simp add: tw_queue_def py_simps fold_writes assms(1))
qed

lemma tw_handle:
  assumes "answerable P (sv_methods sv) m" "distinct (srv_clients t)" "r_user r = (sv, wires, u)"
  defines "live \<equiv> filter (\<lambda>k. \<not> tw_broken P k) (srv_clients t)"
  shows "handle_request (tw_rpc P) m (t, r) =
    (Inr (), (t\<lparr>srv_clients := live\<rparr>, r\<lparr>r_drawn := r_drawn r + 2,
      r_user := (sv, write_all live (wire_frame (tw_enc P) (reply_message P (sv_methods sv) (r_drawn r) m u)) wires,
        state_after (tw_method P) (sv_methods sv) (request_of P m) u)\<rparr>))"
proof -
  let ?q = "request_of P m" and ?u' = "state_after (tw_method P) (sv_methods sv) (request_of P m) u"
  let ?resp = "response_to (tw_method P) (sv_methods sv) ?q u (tw_uuid P (r_drawn r))"
  obtain c cs where rt: "m_reply_to m = Some (c # cs)" using assms(1) by (auto simp: answerable_def)
  have load: "load_request (tw_codec P) (m_payload m) = Inr ?q" using assms(1) by (auto simp: answerable_def request_of_def)
  let ?r1 = "r\<lparr>r_drawn := Suc (r_drawn r), r_user := (sv, wires, ?u')\<rparr>"
  have pub: "mq_publish (tw_queue P) (c # cs) (dump_response (tw_codec P) ?resp) [] (t, ?r1) =
      (Inr (tw_uuid P (Suc (r_drawn r))), (t\<lparr>srv_clients := live\<rparr>, ?r1\<lparr>r_drawn := Suc (Suc (r_drawn r)),
        r_user := (sv, write_all live (wire_frame (tw_enc P) (reply_message P (sv_methods sv) (r_drawn r) m u)) wires, ?u')\<rparr>))"
    using tw_publish[OF assms(2), of ?r1 sv wires ?u' "reply_message P (sv_methods sv) (r_drawn r) m u" P "c # cs"] rt assms(1)
    by (simp add: reply_message_def answerable_def live_def)
  have uuid: "mq_uuid (tw_queue P) (t, r') = (Inr (tw_uuid P (r_drawn r')), (t, r'\<lparr>r_drawn := Suc (r_drawn r')\<rparr>))" for r'
    by (simp add: mq_uuid_def tw_queue_def py_simps)
  show ?thesis
  proof (cases "dict_get (sv_methods sv) (rq_method ?q)")
    case None
    then have r1: "?r1 = r\<lparr>r_drawn := Suc (r_drawn r)\<rparr>" using assms(3) by (cases r) (simp add: state_after_def)
    from None pub[unfolded r1] show ?thesis
      by (simp add: handle_request_def load py_simps assms(3) respond_not_found_def respond_def rt uuid response_to_def
          state_after_def numeral_2_eq_2)
  next
    case (Some f)
    obtain out u' where F: "tw_method P f (rq_args ?q) (rq_kwargs ?q) u = (out, u')" by fastforce
    have call: "rc_call (tw_rpc P) f (rq_args ?q) (rq_kwargs ?q) (t, r) = (out, (t, r\<lparr>r_user := (sv, wires, u')\<rparr>))"
      by (simp add: tw_rpc_def method_call_def assms(3) F)
    have "fst (tw_method P f (rq_args ?q) (rq_kwargs ?q) u) = Inl e \<Longrightarrow> is_Exc e" for e
      using assms(1) Some unfolding answerable_def by blast
    then have "out = Inl e \<Longrightarrow> is_Exc e" for e using F by simp
    then have "run_method (tw_rpc P) f ?q (t, r) = (Inr ?resp, (t, ?r1))"
      using Some F by (cases out) (simp_all add: run_method_def py_simps call uuid response_to_def state_after_def)
    then show ?thesis
      using pub Some by (simp add: handle_request_def load py_simps assms(3) respond_def rt numeral_2_eq_2)
  qed
qed

text \<open>One request through the dispatcher of a serving worker, and a sequence of them.\<close>

definition answer_step :: "('f, 'k, 'u) tcp_world \<Rightarrow> message \<Rightarrow> ('f, 'k, 'u) worker_state \<Rightarrow> ('f, 'k, 'u) worker_state" where
  "answer_step P m = (\<lambda>(t, r). case r_user r of (sv, wires, u) \<Rightarrow>
     let live = filter (\<lambda>k. \<not> tw_broken P k) (srv_clients t) in
     (tcp_put m (t\<lparr>srv_clients := live\<rparr>), r\<lparr>r_drawn := r_drawn r + 2,
        r_user := (sv, write_all live (wire_frame (tw_enc P) (reply_message P (sv_methods sv) (r_drawn r) m u)) wires,
          state_after (tw_method P) (sv_methods sv) (request_of P m) u)\<rparr>))"

lemma dispatch_answers:
  assumes "serving name hs (t, r)" "distinct (srv_clients t)" "answerable P hs m" "m_topic m = request_topic name"
  shows "tcp_dispatch (ev_fire (tw_env P)) m (t, r) = (Inr (), answer_step P m (t, r)) \<and>
    serving name hs (answer_step P m (t, r)) \<and> distinct (srv_clients (fst (answer_step P m (t, r))))"
proof -
  obtain sv wires u where u: "r_user r = (sv, wires, u)" by (cases "r_user r") auto
  have hs: "sv_methods sv = hs" using assms(1) u by (auto simp: serving_def)
  obtain i where i: "tt_subscribers t = [(i, 0)]" "tt_topic_subs t = [(request_topic name, [i])]" using assms(1) by (auto simp: serving_def)
  have "tcp_pattern t i = Some (m_topic m)" "tcp_sub_matches (m_topic m) (m_topic m)"
    using i assms(4) by (auto simp: tcp_pattern_def tcp_sub_matches_def tcp_topic_matches_def request_topic_def)
  then have run: "tcp_dispatch (ev_fire (tw_env P)) m (t, r) = (Inr (), answer_step P m (t, r))"
    using tw_handle[of P sv m t r wires u] assms(2,3) u
    by (simp add: tcp_dispatch_def i(1) notify_with_def py_simps serving_fire[OF assms(1)] hs answer_step_def Let_def)
  moreover have "serving name hs (answer_step P m (t, r))" using serving_dispatch[OF assms(1), of P m] run by simp
  ultimately show ?thesis using assms(2) by (simp add: answer_step_def u Let_def tcp_put_def)
qed

lemma answers_fold:
  assumes "sv_methods sv = hs" "r_user r = (sv, wires, u)"
  shows "\<exists>q live. fold (answer_step P) ms (t, r) = (t\<lparr>tt_queues := q, srv_clients := live\<rparr>, r\<lparr>r_drawn := r_drawn r + 2 * length ms,
      r_user := (sv, write_all (filter (\<lambda>k. \<not> tw_broken P k) (srv_clients t)) (concat (map (wire_frame (tw_enc P)) (replies P hs (r_drawn r) ms u))) wires,
        fold (\<lambda>m. state_after (tw_method P) hs (request_of P m)) ms u)\<rparr>) \<and>
    (\<forall>topic. tcp_queue (t\<lparr>tt_queues := q, srv_clients := live\<rparr>) topic = tcp_queue t topic @ filter (\<lambda>m. m_topic m = topic) ms)"
  using assms
proof (induction ms arbitrary: t r wires u)
  case Nil
  then have "r\<lparr>r_user := (sv, wires, u)\<rparr> = r" by (cases r) simp
  moreover have "write_all ks [] wires = wires" for ks by (auto simp: write_all_def)
  ultimately show ?case by (intro exI[of _ "tt_queues t"] exI[of _ "srv_clients t"]) (simp add: tcp_queue_def)
next
  case (Cons m ms)
  let ?live = "filter (\<lambda>k. \<not> tw_broken P k) (srv_clients t)" and ?u1 = "state_after (tw_method P) hs (request_of P m) u"
  let ?w1 = "write_all ?live (wire_frame (tw_enc P) (reply_message P hs (r_drawn r) m u)) wires"
  let ?t1 = "tcp_put m (t\<lparr>srv_clients := ?live\<rparr>)" and ?r1 = "r\<lparr>r_drawn := r_drawn r + 2, r_user := (sv, ?w1, ?u1)\<rparr>"
  have step: "answer_step P m (t, r) = (?t1, ?r1)" using Cons.prems by (simp add: answer_step_def Let_def)
  have live: "filter (\<lambda>k. \<not> tw_broken P k) (srv_clients ?t1) = ?live" by (simp add: tcp_put_def)
  have twice: "write_all ks b (write_all ks a w) = write_all ks (a @ b) w" for ks :: "'b list" and a b w
    by (auto simp: write_all_def fun_eq_iff)
  obtain q l where q: "fold (answer_step P) ms (?t1, ?r1) = (?t1\<lparr>tt_queues := q, srv_clients := l\<rparr>, ?r1\<lparr>r_drawn := r_drawn ?r1 + 2 * length ms,
      r_user := (sv, write_all ?live (concat (map (wire_frame (tw_enc P)) (replies P hs (r_drawn ?r1) ms ?u1))) ?w1,
        fold (\<lambda>m. state_after (tw_method P) hs (request_of P m)) ms ?u1)\<rparr>)"
    "\<forall>topic. tcp_queue (?t1\<lparr>tt_queues := q, srv_clients := l\<rparr>) topic = tcp_queue ?t1 topic @ filter (\<lambda>m. m_topic m = topic) ms"
    using Cons.IH[of ?r1 ?w1 ?u1 ?t1] Cons.prems(1) unfolding live by auto
  have "?t1\<lparr>tt_queues := q, srv_clients := l\<rparr> = t\<lparr>tt_queues := q, srv_clients := l\<rparr>" by (simp add: tcp_put_def)
  moreover have "tcp_queue ?t1 topic = tcp_queue t topic @ (if m_topic m = topic then [m] else [])" for topic
    unfolding tcp_put_fields by (simp add: tcp_queue_def)
  ultimately show ?case
    using q step by (intro exI[of _ q] exI[of _ l]) (simp add: twice)
qed

lemma client_loop_answers:
  assumes "serving name hs (t, r)" "distinct (srv_clients t)" "\<forall>m \<in> set ms. answerable P hs m \<and> m_topic m = request_topic name"
    and "list_all2 (\<lambda>m b. \<exists>d. tw_dec P d = Inr m \<and> frame d = Inr b) ms frames" "proper sock" "concat sock = concat frames"
    and "snd (r_user r) = (wires, u)"
  shows "\<exists>t' r'. srv_client_loop (tw_dec P) (ev_fire (tw_env P)) k sock (t, r) = (Inr (), (t', r')) \<and>
    snd (r_user r') = (write_all (filter (\<lambda>k. \<not> tw_broken P k) (srv_clients t)) (concat (map (wire_frame (tw_enc P)) (replies P hs (r_drawn r) ms u))) wires,
      fold (\<lambda>m. state_after (tw_method P) hs (request_of P m)) ms u) \<and>
    tcp_queue t' (request_topic name) = tcp_queue t (request_topic name) @ ms"
proof -
  let ?I = "\<lambda>s. serving name hs s \<and> distinct (srv_clients (fst s))"
  have read: "read_loop (\<lambda>(t, w). srv_running t) (tw_dec P) (tcp_dispatch (ev_fire (tw_env P))) sock (t, r) =
      (Inr (), fold (answer_step P) ms (t, r))"
  proof (rule read_loop_fold[where I = ?I and rest = "[]", OF assms(4,5)])
    show "tcp_dispatch (ev_fire (tw_env P)) m st = (Inr (), answer_step P m st) \<and> ?I (answer_step P m st)"
      if "m \<in> set ms" "?I st" for m st
      using dispatch_answers[of name hs "fst st" "snd st" P m] that assms(3) by simp
  qed (use assms(1,2,6) in \<open>auto simp: cut_off_def serving_def\<close>)
  obtain sv where sv: "r_user r = (sv, wires, u)" "sv_methods sv = hs"
    using assms(1,7) by (cases "r_user r") (auto simp: serving_def)
  have "filter (\<lambda>m. m_topic m = request_topic name) ms = ms" using assms(3) by (simp add: filter_id_conv)
  with answers_fold[OF sv(2,1), of P ms t] read show ?thesis
    by (auto simp: srv_client_loop_def py_simps srv_drop_def tcp_queue_def)
qed

lemma accept_all:
  "srv_running t \<Longrightarrow> elsewhere_all P (map Accept ks) (t, r) = (t\<lparr>srv_clients := srv_clients t @ ks\<rparr>, r)"
  by (induction ks arbitrary: t) (simp_all add: elsewhere_all_def py_simps srv_accept_def)

text \<open>
  C3. Requests are answered. Clients connect to a worker; one of them sends, in whatever chunks, frames of
  requests on the service's topic. While the connection is read, each request runs its method once, in
  order, and the framed reply to each (the result, the error, or that the method is unknown) is written,
  in order, to every connected client whose connection works: also to those that did not ask. Nothing
  else is written. Every request also stays in the transport's queue of the request topic, which nobody
  reads.
\<close>

theorem worker_answers_requests:
  fixes P :: "('f, 'k, 'u) tcp_world"
  assumes "servable P p host port hs sn" and "o_nodes (r_objects r) = (\<lambda>_. None)" and "distinct ks"
    and "name = resolve_service service_name sn" and "\<forall>m \<in> set ms. answerable P hs m \<and> m_topic m = request_topic name"
    and "list_all2 (\<lambda>m b. \<exists>d. tw_dec P d = Inr m \<and> frame d = Inr b) ms frames" and "proper sock" and "concat sock = concat frames"
    and "snd (r_user r) = (wires, u)"
  shows "\<exists>t' r'. worker_serve (tcp_worker P) p host port service_name (map Elsewhere (map Accept ks @ [Client k sock])) (t, r) =
      (Inr Blocked, (t', r')) \<and>
    (\<forall>j. fst (snd (r_user r')) j = wires j @
       (if j \<in> set ks \<and> \<not> tw_broken P j then concat (map (wire_frame (tw_enc P)) (replies P hs (r_drawn r + 2) ms u)) else [])) \<and>
    snd (snd (r_user r')) = fold (\<lambda>m. state_after (tw_method P) hs (request_of P m)) ms u \<and>
    tcp_queue t' (request_topic name) = ms"
proof -
  define t1 :: "(nat, 'k) tcp_server" where
    "t1 = tcp_subscribe (tw_uuid P (r_drawn r)) (request_topic name) 0 (srv_init\<lparr>srv_listening := True, srv_running := True\<rparr>)"
  define t2 where "t2 = t1\<lparr>srv_clients := ks\<rparr>"
  obtain r1 where r1: "serving name hs (t1, r1)" "snd (r_user r1) = snd (r_user r)" "r_drawn r1 = r_drawn r + 2"
    "\<And>evs. worker_serve (tcp_worker P) p host port service_name evs (t, r) = then_shut_down (tcp_worker P) (until_interrupt (tw_wait P evs)) (t1, r1)"
    by (rule worker_serve_runs[OF assms(1,2,4), of t, folded t1_def]) (rule that)
  have t1: "srv_running t1" "srv_clients t1 = []" "tcp_queue t1 (request_topic name) = []"
    by (simp_all add: t1_def tcp_subscribe_def srv_init_def tcp_queue_def)
  have t2: "serving name hs (t2, r1)" "distinct (srv_clients t2)" using r1(1) assms(3) by (simp_all add: serving_def t2_def)
  have user: "snd (r_user r1) = (wires, u)" using r1(2) assms(9) by simp
  obtain t3 r3 where loop: "srv_client_loop (tw_dec P) (ev_fire (tw_env P)) k sock (t2, r1) = (Inr (), (t3, r3))"
    "snd (r_user r3) = (write_all (filter (\<lambda>k. \<not> tw_broken P k) ks) (concat (map (wire_frame (tw_enc P)) (replies P hs (r_drawn r1) ms u))) wires,
      fold (\<lambda>m. state_after (tw_method P) hs (request_of P m)) ms u)"
    "tcp_queue t3 (request_topic name) = tcp_queue t2 (request_topic name) @ ms"
    using client_loop_answers[OF t2 assms(5-8) user, of k] by (auto simp: t2_def)
  have "elsewhere_all P (map Accept ks @ [Client k sock]) (t1, r1) = (t3, r3)"
    using accept_all[OF t1(1), of P ks r1] loop(1) t1(2) by (simp add: elsewhere_all_def t2_def)
  then have "tw_wait P (map Elsewhere (map Accept ks @ [Client k sock])) (t1, r1) = (Inr Blocked, (t3, r3))"
    using wait_elsewhere[OF r1(1), of P "map Accept ks @ [Client k sock]" "[]"]
      serving_not_stopped[OF elsewhere_all_serving[OF r1(1), of P "map Accept ks @ [Client k sock]"], of P] by simp
  then have "worker_serve (tcp_worker P) p host port service_name (map Elsewhere (map Accept ks @ [Client k sock])) (t, r) = (Inr Blocked, (t3, r3))"
    unfolding r1(4) then_shut_down_def until_interrupt_twice by (simp add: until_interrupt_def)
  moreover have "tcp_queue t2 (request_topic name) = []" using t1(3) by (simp add: t2_def tcp_queue_def)
  ultimately show ?thesis using loop(2,3) r1(3) by (auto simp: write_all_def)
qed

section \<open>A small worker\<close>

definition demo_request :: message where
  "demo_request = \<lparr>m_id = ''m'', m_topic = request_topic ''rpc'',
     m_payload = dump_request demo_codec \<lparr>rq_id = ''7'', rq_method = ''double'', rq_args = [PInt 4], rq_kwargs = [], rq_timeout = Some 30\<rparr>,
     m_headers = [], m_timestamp = 0, m_reply_to = Some ''_rpc_reply.7'', m_correlation_id = Some ''7''\<rparr>"

definition demo_world :: "(nat, nat, nat) tcp_world" where
  "demo_world = \<lparr>tw_uuid = demo_ids, tw_clock = (\<lambda>_. 0), tw_enc = (\<lambda>m. Inr [word_of_nat (length (m_topic m))]), tw_dec = (\<lambda>_. Inr demo_request),
     tw_codec = demo_codec,
     tw_modules = (\<lambda>p. if p = ''handlers'' then Inr \<lparr>hm_handlers = Table [(''double'', Some 0), (''fail'', Some 1)], hm_service_name = None\<rparr>
       else Inl (Exception ''ModuleNotFoundError'' p)),
     tw_bind = (\<lambda>_ _. Inr ()), tw_broken = (\<lambda>k. k = 9), tw_method = demo_method\<rparr>"

lemma demo_servable: "servable demo_world ''handlers'' ''0.0.0.0'' 9090 [(''double'', 0), (''fail'', 1)] None"
  by (simp add: servable_def demo_world_def)

lemma demo_method_Exc: "fst (demo_method f args kw u) = Inl e \<Longrightarrow> is_Exc e"
  by (auto simp: demo_method_def split: if_splits list.splits pyval.splits)

lemma demo_answerable: "answerable demo_world hs demo_request"
  by (simp add: answerable_def demo_world_def demo_request_def demo_codec_request fits_def demo_method_Exc)

theorem worker_load_handlers_witness:
  "(\<exists>s'. load_handlers (wk_import (tcp_worker demo_world)) ''handlers'' (srv_init, fresh_rest (rpc_server_init [], \<lambda>_. [], 0)) =
      (Inr ([(''double'', 0), (''fail'', 1)], None), s')) \<and>
    (\<exists>msg. fst (load_handlers (wk_import (tcp_worker demo_world)) ''nowhere'' (srv_init, fresh_rest (rpc_server_init [], \<lambda>_. [], 0))) =
      Inl (BaseException ''SystemExit'' msg))"
proof
  let ?s = "(srv_init, fresh_rest (rpc_server_init [], \<lambda>_. [], 0))"
  show "\<exists>s'. load_handlers (wk_import (tcp_worker demo_world)) ''handlers'' ?s = (Inr ([(''double'', 0), (''fail'', 1)], None), s')"
    using worker_load_handlers[of "wk_import (tcp_worker demo_world)" "''handlers''" ?s "[(''double'', 0), (''fail'', 1)]" None]
    by (simp add: demo_world_def)
  obtain e where raised: "load_handlers (wk_import (tcp_worker demo_world)) ''nowhere'' ?s = (Inl e, ?s)"
    and "e \<noteq> Exception ''ModuleNotFoundError'' ''nowhere''"
    by (auto simp: load_handlers_def demo_world_def import_error_def system_exit_def)
  then have "wk_import (tcp_worker demo_world) ''nowhere'' ?s \<noteq> (Inl e, ?s)" by (auto simp: demo_world_def)
  with worker_load_handlers[of "wk_import (tcp_worker demo_world)" "''nowhere''" ?s "[]" None] raised
  show "\<exists>msg. fst (load_handlers (wk_import (tcp_worker demo_world)) ''nowhere'' ?s) = Inl (BaseException ''SystemExit'' msg)" by auto
qed

theorem worker_shuts_down_witness:
  "\<exists>t' r'. worker_serve (tcp_worker demo_world) ''handlers'' ''0.0.0.0'' 9090 None
      [Elsewhere (Accept 7), Elsewhere (Client 7 [[0, 0], [0, 1, 5]]), Sigterm] (srv_init, fresh_rest (rpc_server_init [], \<lambda>_. [], 0)) =
      (Inr (Got ()), (t', r')) \<and> \<not> srv_running t' \<and> srv_clients t' = [] \<and> tt_subscribers t' = [] \<and> \<not> sv_running (fst (r_user r'))"
  using worker_shuts_down[OF demo_servable, of "fresh_rest (rpc_server_init [], \<lambda>_. [], 0)" None
      "[Elsewhere (Accept 7), Elsewhere (Client 7 [[0, 0], [0, 1, 5]]), Sigterm]" srv_init]
  by (auto simp: fresh_rest_def)

theorem worker_answers_requests_witness:
  "\<exists>t' r'. worker_serve (tcp_worker demo_world) ''handlers'' ''0.0.0.0'' 9090 None
      (map Elsewhere (map Accept [7, 8, 9] @ [Client 7 [[0, 0], [0, 1, 5]]])) (srv_init, fresh_rest (rpc_server_init [], \<lambda>_. [], 0)) =
      (Inr Blocked, (t', r')) \<and> fst (snd (r_user r')) 7 = [0, 0, 0, 1, 12] \<and> fst (snd (r_user r')) 8 = [0, 0, 0, 1, 12] \<and>
    fst (snd (r_user r')) 9 = [] \<and> snd (snd (r_user r')) = 1 \<and> tcp_queue t' (request_topic ''rpc'') = [demo_request]"
proof -
  let ?r = "fresh_rest (rpc_server_init [], \<lambda>_. [], 0) :: (unit, nat rpc_server \<times> (nat \<Rightarrow> byte list) \<times> nat) mq_rest"
  have q: "request_of demo_world demo_request = \<lparr>rq_id = ''7'', rq_method = ''double'', rq_args = [PInt 4], rq_kwargs = [], rq_timeout = Some 30\<rparr>"
    by (simp add: request_of_def demo_world_def demo_request_def demo_codec_request)
  have topic: "m_topic demo_request = request_topic ''rpc''" by (simp add: demo_request_def)
  have "list_all2 (\<lambda>m b. \<exists>d. tw_dec demo_world d = Inr m \<and> frame d = Inr b) [demo_request] [[0, 0, 0, 1, 5]]"
    by (simp add: demo_world_def) (rule exI[of _ "[5]"], simp add: frame_def pack_length_def)
  from worker_answers_requests[OF demo_servable, of ?r "[7, 8, 9]" "''rpc''" None "[demo_request]" "[[0, 0, 0, 1, 5]]" "[[0, 0], [0, 1, 5]]", OF _ _ _ _ this]
  obtain t' r' where w: "worker_serve (tcp_worker demo_world) ''handlers'' ''0.0.0.0'' 9090 None
      (map Elsewhere (map Accept [7, 8, 9] @ [Client 7 [[0, 0], [0, 1, 5]]])) (srv_init, ?r) = (Inr Blocked, (t', r'))"
    "\<forall>j. fst (snd (r_user r')) j = [] @ (if j \<in> set [7, 8, 9] \<and> \<not> tw_broken demo_world j
      then concat (map (wire_frame (tw_enc demo_world)) (replies demo_world [(''double'', 0), (''fail'', 1)] (r_drawn ?r + 2) [demo_request] 0)) else [])"
    "snd (snd (r_user r')) = fold (\<lambda>m. state_after (tw_method demo_world) [(''double'', 0), (''fail'', 1)] (request_of demo_world m)) [demo_request] 0"
    "tcp_queue t' (request_topic ''rpc'') = [demo_request]"
    using demo_answerable by (fastforce simp: resolve_service_def fresh_rest_def topic)
  have "wire_frame (tw_enc demo_world) (reply_message demo_world hs n demo_request u) = [0, 0, 0, 1, 12]" for hs n u
    by (simp add: wire_frame_def demo_world_def reply_message_def demo_request_def frame_def pack_length_def)
  moreover have "state_after (tw_method demo_world) [(''double'', 0), (''fail'', 1)] (request_of demo_world demo_request) 0 = 1"
    by (simp add: state_after_def q) (simp add: demo_world_def demo_method_def)
  ultimately show ?thesis
    using w by (intro exI[of _ t'] exI[of _ r'] conjI) (simp_all add: demo_world_def)
qed

end
