(* ===== verification/Rpc_Over_Tcp.thy ===== *)
theory Rpc_Over_Tcp
  imports Worker
begin

text \<open>
  An RPC client on a \<open>TCPClientTransport\<close> (\<open>src/eventforge/transports/tcp.py\<close>) calling a worker: \<open>RPCClient.call\<close>
  of \<open>src/eventforge/rpc.py\<close>, the framing in both directions, the worker's transport, queue and server, and the
  client's receiver thread, put together.
\<close>

section \<open>A message queue on a TCP client\<close>

text \<open>
  The bytes the client wrote are the last part of the state. \<open>net\<close> tells what arrives in answer to them;
  while \<open>receive\<close> waits, the receiver thread reads it.
\<close>

type_synonym 'h client_state = "(nat, unit) tcp_client \<times> ('h, byte list) mq_rest"

definition client_sendall :: "unit \<Rightarrow> byte list \<Rightarrow> (('h, byte list) mq_rest, unit) py" where
  "client_sendall _ bytes = (\<lambda>r. (Inr (), r\<lparr>r_user := r_user r @ bytes\<rparr>))"

definition client_env :: "('h, message, 'h client_state) env" where
  "client_env = rest_env (\<lambda>_ _. py_ret PNone) (\<lambda>_ _. py_ret ()) (\<lambda>_. py_ret 0)"

definition client_ops ::
  "(nat \<Rightarrow> string) \<Rightarrow> (message \<Rightarrow> pyexn + byte list) \<Rightarrow> (byte list \<Rightarrow> pyexn + message) \<Rightarrow> (byte list \<Rightarrow> socket) \<Rightarrow> (nat, 'h client_state) transport_ops" where
  "client_ops uuid4 enc dec net =
     \<lparr>t_send = tcl_send enc client_sendall,
      t_receive = (\<lambda>topic timeout (t, r).
        py_seq (tcl_recv_loop dec (ev_fire client_env) (net (r_user r))) (tcl_receive topic timeout) (t, r)),
      t_subscribe = (\<lambda>topic cb (t, r). (Inr (uuid4 (r_drawn r)), (tcl_subscribe (uuid4 (r_drawn r)) topic cb t, r\<lparr>r_drawn := Suc (r_drawn r)\<rparr>))),
      t_unsubscribe = tcl_unsubscribe, t_close = py_modify (\<lambda>(t, r). (tcl_close t, r))\<rparr>"

definition client_ctx ::
  "(nat \<Rightarrow> string) \<Rightarrow> int \<Rightarrow> (message \<Rightarrow> pyexn + byte list) \<Rightarrow> (byte list \<Rightarrow> pyexn + message) \<Rightarrow> (byte list \<Rightarrow> socket) \<Rightarrow> ('h, 'h client_state) mq_ctx" where
  "client_ctx uuid4 now enc dec net =
     \<lparr>c_env = client_env, c_ops = client_ops uuid4 enc dec net, c_mq = (\<lambda>(t, r). r_mq r),
      c_upd_mq = (\<lambda>f (t, r). (t, r\<lparr>r_mq := f (r_mq r)\<rparr>)), c_drawn = (\<lambda>(t, r). r_drawn r),
      c_tick = (\<lambda>(t, r). (t, r\<lparr>r_drawn := Suc (r_drawn r)\<rparr>)), c_uuid = uuid4, c_clock = (\<lambda>_. now)\<rparr>"

interpretation client_queue: queue_state "client_ctx uuid4 now enc dec net" for uuid4 now enc dec net
  by unfold_locales (auto simp: client_ctx_def client_ops_def client_env_def split: prod.split)

section \<open>What the worker writes\<close>

text \<open>
  The bytes a serving worker adds to the connection of a client for what it reads from it. (The thread that
  reads the connection then waits for more.)
\<close>

definition worker_output :: "('f, 'k, 'u) tcp_world \<Rightarrow> 'k \<Rightarrow> ('f, 'k, 'u) worker_state \<Rightarrow> socket \<Rightarrow> byte list" where
  "worker_output P k s sock =
     (case snd (read_loop (\<lambda>(t, w). srv_running t) (tw_dec P) (tcp_dispatch (ev_fire (tw_env P))) sock s) of
        (t', r') \<Rightarrow> drop (length (fst (snd (r_user (snd s))) k)) (fst (snd (r_user r')) k))"

text \<open>A stream: any chunks, none empty, of the bytes written.\<close>

definition stream :: "(byte list \<Rightarrow> socket) \<Rightarrow> bool" where
  "stream chop \<longleftrightarrow> (\<forall>b. proper (chop b) \<and> concat (chop b) = b)"

definition carried :: "(message \<Rightarrow> pyexn + byte list) \<Rightarrow> (byte list \<Rightarrow> pyexn + message) \<Rightarrow> message \<Rightarrow> bool" where
  "carried enc dec m \<longleftrightarrow> (\<exists>d. enc m = Inr d \<and> length d < 2 ^ 32 \<and> dec d = Inr m)"

lemma carried_frame: "carried enc dec m \<Longrightarrow> \<exists>d. enc m = Inr d \<and> dec d = Inr m \<and> frame d = Inr (wire_frame enc m)"
  by (auto simp: carried_def wire_frame_def frame_def pack_length_def)

lemma worker_output_reply:
  assumes "serving name hs (t, r)" "distinct (srv_clients t)" "k \<in> set (srv_clients t)" "\<not> tw_broken P k"
    and "answerable P hs m" "m_topic m = request_topic name" "carried enc (tw_dec P) m" "stream chop" "snd (r_user r) = (wires, u)"
  shows "worker_output P k (t, r) (chop (wire_frame enc m)) = wire_frame (tw_enc P) (reply_message P hs (r_drawn r) m u)"
proof -
  obtain d where d: "enc m = Inr d" "tw_dec P d = Inr m" "frame d = Inr (wire_frame enc m)" using carried_frame[OF assms(7)] by blast
  let ?I = "\<lambda>s. serving name hs s \<and> distinct (srv_clients (fst s))"
  have "list_all2 (\<lambda>m b. \<exists>d. tw_dec P d = Inr m \<and> frame d = Inr b) [m] [wire_frame enc m]" using d by auto
  then have "read_loop (\<lambda>(t, w). srv_running t) (tw_dec P) (tcp_dispatch (ev_fire (tw_env P))) (chop (wire_frame enc m)) (t, r) =
      (Inr (), fold (answer_step P) [m] (t, r))"
  proof (rule read_loop_fold[where I = ?I and rest = "[]"])
    show "tcp_dispatch (ev_fire (tw_env P)) m' st = (Inr (), answer_step P m' st) \<and> ?I (answer_step P m' st)"
      if "m' \<in> set [m]" "?I st" for m' st
      using dispatch_answers[of name hs "fst st" "snd st" P m'] that assms(5,6) by simp
  qed (use assms(1,2,8) in \<open>auto simp: cut_off_def serving_def stream_def\<close>)
  moreover obtain sv where "r_user r = (sv, wires, u)" "sv_methods sv = hs"
    using assms(1,9) by (cases "r_user r") (auto simp: serving_def)
  ultimately show ?thesis
    using assms(3,4) by (simp add: worker_output_def answer_step_def Let_def write_all_def)
qed

section \<open>The client's side\<close>

lemma client_reads:
  assumes "tcl_socket c = Some k" "tcl_running c" "tt_subscribers c = []" "carried enc dec m" "stream chop" "m_topic m = topic"
    "tcp_queue c topic = []" "0 \<le> x"
  shows "\<exists>c'. py_seq (tcl_recv_loop dec (ev_fire client_env) (chop (wire_frame enc m))) (tcp_receive topic (Some x)) (c, r) =
    (Inr (Got (Some m)), (c', r))"
proof -
  obtain d where d: "enc m = Inr d" "dec d = Inr m" "frame d = Inr (wire_frame enc m)" using carried_frame[OF assms(4)] by blast
  let ?I = "\<lambda>(t :: (nat, _) tcp_client, _). tcl_running t \<and> tcl_socket t \<noteq> None \<and> tt_subscribers t = []"
  have "list_all2 (\<lambda>m b. \<exists>d. dec d = Inr m \<and> frame d = Inr b) [m] [wire_frame enc m]" using d by auto
  then have "read_loop (\<lambda>(t, w). tcl_running t \<and> tcl_socket t \<noteq> None) dec (tcp_dispatch (ev_fire client_env)) (chop (wire_frame enc m)) (c, r) =
      (Inr (), fold (\<lambda>m (t, w). (tcp_put m t, w)) [m] (c, r))"
    by (rule read_loop_fold[where I = ?I and rest = "[]"])
      (use assms(1-3,5) in \<open>auto simp: cut_off_def stream_def tcp_dispatch_def py_simps tcp_put_def\<close>)
  then have "tcl_recv_loop dec (ev_fire client_env) (chop (wire_frame enc m)) (c, r) = (Inr (), (tcp_put m c, r))"
    by (simp add: tcl_recv_loop_def py_simps)
  moreover have "tcp_queue (tcp_put m c) topic = [m]" using assms(6,7) by simp
  ultimately show ?thesis using assms(8) by (simp add: py_simps tcp_receive_def)
qed

lemma client_call_exchange:
  assumes "i = uuid4 (r_drawn r)"
  shows "rpc_call (client_ctx uuid4 now enc dec net) cd kc meth args timeout kw (c, r) =
    py_bind (py_seq (t_send (client_ops uuid4 enc dec net)
        (sent_message (uuid4 (Suc (r_drawn r))) i now cd kc (sent_request i kc meth args timeout kw)))
      (t_receive (client_ops uuid4 enc dec net) (''_rpc_reply.'' @ i) (Some (effective_timeout timeout kc))))
    (rpc_conclude cd meth) (c, r\<lparr>r_drawn := Suc (Suc (r_drawn r))\<rparr>)"
  by (simp add: client_ctx_def rpc_call_def rpc_request_message_def mq_message_def mq_uuid_def mq_receive_def py_simps Let_def assms
      sent_message_def sent_request_def split: prod.split sum.split)


text \<open>A worker and a client whose encoding tells the two messages apart.\<close>

definition demo_caller :: rpc_client where
  "demo_caller = \<lparr>cl_service_name = ''rpc'', cl_timeout = 30\<rparr>"

definition demo_sent :: message where
  "demo_sent = sent_message (demo_ids 1) (demo_ids 0) 0 demo_codec demo_caller (sent_request (demo_ids 0) demo_caller ''double'' [PInt 4] None [])"

definition tcp_demo :: "(nat, nat, nat) tcp_world" where
  "tcp_demo = demo_world\<lparr>tw_enc := (\<lambda>m. Inr [if m_topic m = request_topic ''rpc'' then 1 else 2]),
     tw_dec := (\<lambda>d. Inr (if d = [1] then demo_sent else reply_message demo_world [(''double'', 0), (''fail'', 1)] 2 demo_sent 0))\<rparr>"

lemma tcp_demo_simps [simp]:
  "tw_uuid tcp_demo = demo_ids" "tw_codec tcp_demo = demo_codec" "tw_broken tcp_demo 7 = False" "tw_method tcp_demo = demo_method"
  "reply_message tcp_demo hs n m u = reply_message demo_world hs n m u" "tw_enc tcp_demo m = Inr [if m_topic m = request_topic ''rpc'' then 1 else 2]"
  by (simp_all add: tcp_demo_def demo_world_def reply_message_def request_of_def)

lemma tcp_demo_messages:
  "answerable tcp_demo hs demo_sent" "carried (tw_enc tcp_demo) (tw_dec tcp_demo) demo_sent"
  "carried (tw_enc tcp_demo) (tw_dec tcp_demo) (reply_message demo_world [(''double'', 0), (''fail'', 1)] 2 demo_sent 0)"
proof -
  have topic: "m_topic demo_sent = request_topic ''rpc''" by (simp add: demo_sent_def demo_caller_def)
  have reply_topic: "m_topic (reply_message demo_world hs 2 demo_sent 0) \<noteq> request_topic ''rpc''" for hs
    by (simp add: reply_message_def demo_sent_def request_topic_def)
  show "answerable tcp_demo hs demo_sent"
    by (simp add: answerable_def fits_def demo_sent_def demo_codec_request demo_method_Exc)
  show "carried (tw_enc tcp_demo) (tw_dec tcp_demo) demo_sent"
    by (simp add: carried_def topic) (simp add: tcp_demo_def)
  show "carried (tw_enc tcp_demo) (tw_dec tcp_demo) (reply_message demo_world [(''double'', 0), (''fail'', 1)] 2 demo_sent 0)"
    by (simp add: carried_def reply_topic) (simp add: tcp_demo_def)
qed


end
