(* ===== verification/Redis_Transport.thy ===== *)
theory Redis_Transport
  imports Tcp_Framing Memory_Transport
begin

text \<open>
  \<open>src/eventforge/transports/redis.py\<close>: the subscription tables with their reference counts of Redis
  patterns, dispatch, and the listener loop. The Redis client is not part of the program: its calls
  \<open>psubscribe\<close>, \<open>punsubscribe\<close> and \<open>publish\<close> are parameters that act on the rest of the state, and the
  messages it hands to the listener are arbitrary. Message conversion (\<open>model_dump_json\<close>,
  \<open>model_validate_json\<close>) and the decoding of bytes are parameters too.
\<close>

record 'cb redis_transport =
  rt_subscribers :: "(string, 'cb) dict"
  rt_sub_topic :: "(string, string) dict"
  rt_sub_pattern :: "(string, string) dict"
  rt_pattern_refs :: "(string, int) dict"
  rt_queues :: "(string, message list) dict"
  rt_queue_patterns :: "(string, string) dict"
  rt_running :: bool

definition rt_init :: "'cb redis_transport" where
  "rt_init = \<lparr>rt_subscribers = [], rt_sub_topic = [], rt_sub_pattern = [], rt_pattern_refs = [], rt_queues = [],
     rt_queue_patterns = [], rt_running = True\<rparr>"

section \<open>Reference counts of patterns\<close>

text \<open>\<open>_pattern_refs\<close> is a \<open>defaultdict(int)\<close>: reading a missing key makes an entry of zero.\<close>

definition rt_refs :: "'cb redis_transport \<Rightarrow> string \<Rightarrow> int" where
  "rt_refs t pattern = dict_get_default (rt_pattern_refs t) pattern 0"

definition rt_psubscribe :: "(string \<Rightarrow> ('w, unit) py) \<Rightarrow> string \<Rightarrow> ('cb redis_transport \<times> 'w, unit) py" where
  "rt_psubscribe psub pattern = (\<lambda>(t, w).
     let n = rt_refs t pattern; t1 = t\<lparr>rt_pattern_refs := dict_set pattern n (rt_pattern_refs t)\<rparr>;
         t2 = t\<lparr>rt_pattern_refs := dict_set pattern (n + 1) (rt_pattern_refs t)\<rparr>
     in if n = 0
        then (case psub pattern w of (Inl e, w') \<Rightarrow> (Inl e, (t1, w')) | (Inr _, w') \<Rightarrow> (Inr (), (t2, w')))
        else (Inr (), (t2, w)))"

definition rt_punsubscribe :: "(string \<Rightarrow> ('w, unit) py) \<Rightarrow> string \<Rightarrow> ('cb redis_transport \<times> 'w, unit) py" where
  "rt_punsubscribe punsub pattern = (\<lambda>(t, w).
     let n = rt_refs t pattern in
     if n = 0 then (Inr (), (t, w))
     else if n - 1 = 0
     then (case py_suppress (punsub pattern) w of
             (r, w') \<Rightarrow> (r, (t\<lparr>rt_pattern_refs := dict_del pattern (rt_pattern_refs t)\<rparr>, w')))
     else (Inr (), (t\<lparr>rt_pattern_refs := dict_set pattern (n - 1) (rt_pattern_refs t)\<rparr>, w)))"

definition rt_ensure_queue :: "(string \<Rightarrow> ('w, unit) py) \<Rightarrow> string \<Rightarrow> ('cb redis_transport \<times> 'w, unit) py" where
  "rt_ensure_queue psub topic = (\<lambda>(t, w).
     if dict_get (rt_queue_patterns t) topic \<noteq> None then (Inr (), (t, w))
     else rt_psubscribe psub (to_redis_pattern topic)
            (t\<lparr>rt_queue_patterns := dict_set topic (to_redis_pattern topic) (rt_queue_patterns t)\<rparr>, w))"

section \<open>Delivery\<close>

definition rt_queue :: "'cb redis_transport \<Rightarrow> string \<Rightarrow> message list" where
  "rt_queue t topic = dict_get_default (rt_queues t) topic []"

definition rt_put :: "message \<Rightarrow> 'cb redis_transport \<Rightarrow> 'cb redis_transport" where
  "rt_put msg t = t\<lparr>rt_queues := dict_set (m_topic msg) (rt_queue t (m_topic msg) @ [msg]) (rt_queues t)\<rparr>"

definition rt_dispatch ::
  "('cb \<Rightarrow> message \<Rightarrow> ('cb redis_transport \<times> 'w, unit) py) \<Rightarrow> message \<Rightarrow> ('cb redis_transport \<times> 'w, unit) py" where
  "rt_dispatch run_cb msg = (\<lambda>(t, w).
     py_seq (py_for (notify_with (\<lambda>t. dict_get (rt_sub_topic t)) redis_matches run_cb msg) (rt_subscribers t))
       (py_modify (\<lambda>(t, w). (rt_put msg t, w))) (t, w))"

text \<open>
  What \<open>get_message\<close> yields: nothing within its time, an exception, or a dictionary of which the
  listener looks at the type and the data.
\<close>

datatype redis_data = RBytes "byte list" | RText string | ROther

datatype redis_event = RNothing | RFailed pyexn | RRaw "string option" redis_data

record redis_codec =
  rx_decode :: "byte list \<Rightarrow> pyexn + string"
  rx_load :: "string \<Rightarrow> pyexn + message"
  rx_dump :: "message \<Rightarrow> string"

text \<open>A payload that does not parse is skipped; bytes that do not decode raise out of the listener.\<close>

definition rt_payload ::
  "redis_codec \<Rightarrow> ('cb \<Rightarrow> message \<Rightarrow> ('cb redis_transport \<times> 'w, unit) py) \<Rightarrow> string \<Rightarrow> ('cb redis_transport \<times> 'w, unit) py" where
  "rt_payload cx run_cb payload = (case rx_load cx payload of
       Inl e \<Rightarrow> if is_Exc e then py_ret () else py_raise e
     | Inr msg \<Rightarrow> rt_dispatch run_cb msg)"

definition rt_handle ::
  "redis_codec \<Rightarrow> ('cb \<Rightarrow> message \<Rightarrow> ('cb redis_transport \<times> 'w, unit) py) \<Rightarrow> redis_event \<Rightarrow> ('cb redis_transport \<times> 'w, unit) py" where
  "rt_handle cx run_cb ev = (case ev of
       RNothing \<Rightarrow> py_ret ()
     | RFailed e \<Rightarrow> if is_Exc e then py_ret () else py_raise e
     | RRaw typ data \<Rightarrow>
         if typ \<noteq> Some ''message'' \<and> typ \<noteq> Some ''pmessage'' then py_ret ()
         else (case data of
             RBytes bs \<Rightarrow> (case rx_decode cx bs of Inl e \<Rightarrow> py_raise e | Inr payload \<Rightarrow> rt_payload cx run_cb payload)
           | RText payload \<Rightarrow> rt_payload cx run_cb payload
           | ROther \<Rightarrow> py_ret ()))"

text \<open>\<open>_listen\<close> over the events of the client; the running flag is read before each one.\<close>

fun rt_listen ::
  "redis_codec \<Rightarrow> ('cb \<Rightarrow> message \<Rightarrow> ('cb redis_transport \<times> 'w, unit) py) \<Rightarrow> redis_event list \<Rightarrow> ('cb redis_transport \<times> 'w, unit) py" where
  "rt_listen cx run_cb [] s = (Inr (), s)"
| "rt_listen cx run_cb (ev # evs) s =
     (if \<not> rt_running (fst s) then (Inr (), s)
      else case rt_handle cx run_cb ev s of (Inl e, s') \<Rightarrow> (Inl e, s') | (Inr _, s') \<Rightarrow> rt_listen cx run_cb evs s')"

section \<open>The operations\<close>

definition rt_send :: "redis_codec \<Rightarrow> (string \<Rightarrow> string \<Rightarrow> ('w, unit) py) \<Rightarrow> message \<Rightarrow> ('cb redis_transport \<times> 'w, unit) py" where
  "rt_send cx publish message = (\<lambda>(t, w).
     if \<not> rt_running t then (Inl transport_closed, (t, w))
     else case publish (m_topic message) (rx_dump cx message) w of (r, w') \<Rightarrow> (r, (t, w')))"

definition rt_pop :: "string \<Rightarrow> 'cb redis_transport \<Rightarrow> message option \<times> 'cb redis_transport" where
  "rt_pop topic t = (case rt_queue t topic of
       [] \<Rightarrow> (None, t\<lparr>rt_queues := dict_set topic [] (rt_queues t)\<rparr>)
     | m # q \<Rightarrow> (Some m, t\<lparr>rt_queues := dict_set topic q (rt_queues t)\<rparr>))"

text \<open>\<open>receive\<close>, with no message arriving while it waits.\<close>

definition rt_get :: "string \<Rightarrow> real option \<Rightarrow> ('cb redis_transport \<times> 'w, message option waiting) py" where
  "rt_get topic timeout = (\<lambda>(t, w). case timeout of
       Some x \<Rightarrow> if x < 0 then (Inl negative_timeout, (t\<lparr>rt_queues := dict_set topic (rt_queue t topic) (rt_queues t)\<rparr>, w)) else (case rt_pop topic t of (m, t') \<Rightarrow> (Inr (Got m), (t', w)))
     | None \<Rightarrow> (case rt_pop topic t of (m, t') \<Rightarrow> (Inr (case m of None \<Rightarrow> Blocked | Some x \<Rightarrow> Got (Some x)), (t', w))))"

definition rt_receive :: "(string \<Rightarrow> ('w, unit) py) \<Rightarrow> string \<Rightarrow> real option \<Rightarrow> ('cb redis_transport \<times> 'w, message option waiting) py" where
  "rt_receive psub topic timeout = (\<lambda>(t, w).
     if \<not> rt_running t then (Inr (Got None), (t, w))
     else py_seq (rt_ensure_queue psub topic) (rt_get topic timeout) (t, w))"

definition rt_add :: "string \<Rightarrow> string \<Rightarrow> 'cb \<Rightarrow> 'cb redis_transport \<Rightarrow> 'cb redis_transport" where
  "rt_add sub_id topic callback t =
     t\<lparr>rt_subscribers := dict_set sub_id callback (rt_subscribers t),
       rt_sub_topic := dict_set sub_id topic (rt_sub_topic t),
       rt_sub_pattern := dict_set sub_id (to_redis_pattern topic) (rt_sub_pattern t)\<rparr>"

definition rt_subscribe ::
  "(string \<Rightarrow> ('w, unit) py) \<Rightarrow> string \<Rightarrow> string \<Rightarrow> 'cb \<Rightarrow> ('cb redis_transport \<times> 'w, string) py" where
  "rt_subscribe psub sub_id topic callback = (\<lambda>(t, w).
     if \<not> rt_running t then (Inl transport_closed, (t, w))
     else py_seq (rt_psubscribe psub (to_redis_pattern topic)) (py_ret sub_id) (rt_add sub_id topic callback t, w))"

definition rt_remove :: "string \<Rightarrow> 'cb redis_transport \<Rightarrow> 'cb redis_transport" where
  "rt_remove sub_id t =
     t\<lparr>rt_subscribers := dict_del sub_id (rt_subscribers t), rt_sub_topic := dict_del sub_id (rt_sub_topic t),
       rt_sub_pattern := dict_del sub_id (rt_sub_pattern t)\<rparr>"

definition rt_unsubscribe :: "(string \<Rightarrow> ('w, unit) py) \<Rightarrow> string \<Rightarrow> ('cb redis_transport \<times> 'w, bool) py" where
  "rt_unsubscribe punsub sub_id = (\<lambda>(t, w).
     if dict_get (rt_subscribers t) sub_id = None then (Inr False, (t, w))
     else py_seq (case dict_get (rt_sub_pattern t) sub_id of None \<Rightarrow> py_ret () | Some pattern \<Rightarrow> rt_punsubscribe punsub pattern)
            (py_ret True) (rt_remove sub_id t, w))"

text \<open>\<open>close\<close>: closing the subscription and then the client, each with its exceptions ignored.\<close>

definition rt_close :: "('w, unit) py \<Rightarrow> ('w, unit) py \<Rightarrow> ('cb redis_transport \<times> 'w, unit) py" where
  "rt_close close_pubsub close_client = (\<lambda>(t, w).
     case py_seq (py_suppress close_pubsub) (py_suppress close_client) w of (r, w') \<Rightarrow>
       (r, (t\<lparr>rt_running := False, rt_subscribers := [], rt_sub_topic := [], rt_sub_pattern := [], rt_pattern_refs := [],
              rt_queue_patterns := []\<rparr>, w')))"

section \<open>The subscription table\<close>

definition rt_ok :: "'cb redis_transport \<Rightarrow> bool" where
  "rt_ok t \<longleftrightarrow> dict_ok (rt_subscribers t) \<and> dict_ok (rt_sub_pattern t) \<and> dict_ok (rt_queue_patterns t) \<and>
     (\<forall>i. (dict_get (rt_sub_topic t) i = None) = (dict_get (rt_subscribers t) i = None)) \<and>
     (\<forall>i. dict_get (rt_sub_pattern t) i = map_option to_redis_pattern (dict_get (rt_sub_topic t) i))"

lemma rt_ok_add: "rt_ok t \<Longrightarrow> rt_ok (rt_add i p cb t)"
  by (simp add: rt_ok_def rt_add_def)

lemma rt_ok_remove: "rt_ok t \<Longrightarrow> rt_ok (rt_remove i t)"
  by (auto simp: rt_ok_def rt_remove_def)

lemma rt_ok_ids: "rt_ok t \<Longrightarrow> dict_ok (rt_subscribers t)"
  by (simp add: rt_ok_def)

interpretation redis_table: subscription_table rt_add rt_remove rt_subscribers "\<lambda>t. dict_get (rt_sub_topic t)" rt_ok
  by unfold_locales
    (simp_all add: rt_ok_add rt_ok_remove rt_ok_ids,
     simp_all add: rt_add_def rt_remove_def dict_set_fresh map_of_eq_None_iff dict_del_filter[symmetric])

section \<open>Exact reference counts\<close>

text \<open>How many subscriptions and receive queues use a pattern.\<close>

definition uses :: "('k, string) dict \<Rightarrow> string \<Rightarrow> nat" where
  "uses d p = length (filter (\<lambda>(k, q). q = p) d)"

definition rt_uses :: "'cb redis_transport \<Rightarrow> string \<Rightarrow> nat" where
  "rt_uses t p = uses (rt_sub_pattern t) p + uses (rt_queue_patterns t) p"

lemma uses_Nil [simp]: "uses [] p = 0"
  by (simp add: uses_def)

lemma uses_fresh: "dict_get d k = None \<Longrightarrow> uses (dict_set k p d) = (uses d)(p := Suc (uses d p))"
  by (auto simp: uses_def dict_set_fresh)

lemma uses_del:
  "dict_ok d \<Longrightarrow> dict_get d k = Some p \<Longrightarrow> uses d p = Suc (uses (dict_del k d) p) \<and> (\<forall>q. q \<noteq> p \<longrightarrow> uses (dict_del k d) q = uses d q)"
proof (induction d)
  case (Cons x d)
  show ?case
  proof (cases "fst x = k")
    case True
    with Cons.prems have "dict_get d k = None" by (auto simp: map_of_eq_None_iff)
    with True Cons.prems show ?thesis by (cases x) (auto simp: uses_def dict_del_absent)
  next
    case False
    with Cons show ?thesis by (cases x) (auto simp: uses_def)
  qed
qed simp

text \<open>
  The Redis client as the set of patterns it is subscribed to. Counts match when every pattern's count is
  its number of uses and the client is subscribed to exactly the patterns in use.
\<close>

definition psub_set :: "string \<Rightarrow> (string set, unit) py" where
  "psub_set p = py_modify (insert p)"

definition punsub_set :: "string \<Rightarrow> (string set, unit) py" where
  "punsub_set p = py_modify (\<lambda>W. W - {p})"

definition refs_match :: "(string, int) dict \<Rightarrow> string set \<Rightarrow> (string \<Rightarrow> nat) \<Rightarrow> bool" where
  "refs_match refs W u \<longleftrightarrow> (\<forall>p. dict_get_default refs p 0 = int (u p)) \<and> W = {p. 0 < u p}"

lemma psubscribe_match:
  assumes "refs_match (rt_pattern_refs t) W u"
  obtains refs W' where "rt_psubscribe psub_set p (t, W) = (Inr (), (t\<lparr>rt_pattern_refs := refs\<rparr>, W'))"
    "refs_match refs W' (u(p := Suc (u p)))"
proof
  let ?n = "rt_refs t p" and ?W = "if rt_refs t p = 0 then insert p W else W"
  have n: "?n = int (u p)" using assms by (simp add: refs_match_def rt_refs_def)
  show "rt_psubscribe psub_set p (t, W) = (Inr (), (t\<lparr>rt_pattern_refs := dict_set p (?n + 1) (rt_pattern_refs t)\<rparr>, ?W))"
    by (simp add: rt_psubscribe_def psub_set_def py_simps Let_def)
  show "refs_match (dict_set p (?n + 1) (rt_pattern_refs t)) ?W (u(p := Suc (u p)))"
    using assms n by (auto simp: refs_match_def)
qed

lemma punsubscribe_match:
  assumes "refs_match (rt_pattern_refs t) W u" "u p = Suc n"
  obtains refs W' where "rt_punsubscribe punsub_set p (t, W) = (Inr (), (t\<lparr>rt_pattern_refs := refs\<rparr>, W'))"
    "refs_match refs W' (u(p := n))"
proof
  let ?refs = "if n = 0 then dict_del p (rt_pattern_refs t) else dict_set p (int n) (rt_pattern_refs t)"
    and ?W = "if n = 0 then W - {p} else W"
  have "rt_refs t p = int (Suc n)" using assms by (simp add: refs_match_def rt_refs_def)
  then show "rt_punsubscribe punsub_set p (t, W) = (Inr (), (t\<lparr>rt_pattern_refs := ?refs\<rparr>, ?W))"
    by (simp add: rt_punsubscribe_def punsub_set_def py_simps Let_def)
  show "refs_match ?refs ?W (u(p := n))"
    using assms by (auto simp: refs_match_def dict_get_default_def)
qed

definition rt_counted :: "'cb redis_transport \<times> string set \<Rightarrow> bool" where
  "rt_counted = (\<lambda>(t, W). rt_ok t \<and> refs_match (rt_pattern_refs t) W (rt_uses t))"

lemma subscribe_counted:
  assumes "rt_counted (t, W)" "dict_get (rt_subscribers t) i = None"
  shows "rt_counted (snd (rt_subscribe psub_set i topic cb (t, W)))"
proof (cases "rt_running t")
  case True
  let ?p = "to_redis_pattern topic"
  have ok: "rt_ok t" "refs_match (rt_pattern_refs t) W (rt_uses t)" using assms(1) by (simp_all add: rt_counted_def)
  then have "dict_get (rt_sub_pattern t) i = None" using assms(2) by (simp add: rt_ok_def)
  then have u: "rt_uses (rt_add i topic cb t\<lparr>rt_pattern_refs := refs\<rparr>) = (rt_uses t)(?p := Suc (rt_uses t ?p))" for refs
    by (intro ext) (simp add: rt_uses_def rt_add_def uses_fresh)
  have m: "refs_match (rt_pattern_refs (rt_add i topic cb t)) W (rt_uses t)" using ok(2) by (simp add: rt_add_def)
  from psubscribe_match[OF m, of ?p] obtain refs W' where
    "rt_psubscribe psub_set ?p (rt_add i topic cb t, W) = (Inr (), (rt_add i topic cb t\<lparr>rt_pattern_refs := refs\<rparr>, W'))"
    "refs_match refs W' ((rt_uses t)(?p := Suc (rt_uses t ?p)))" by blast
  with True rt_ok_add[OF ok(1), of i topic cb] show ?thesis
    by (simp add: rt_subscribe_def py_simps rt_counted_def u) (simp add: rt_ok_def)
qed (use assms in \<open>simp add: rt_subscribe_def\<close>)

lemma unsubscribe_counted:
  assumes "rt_counted (t, W)"
  shows "rt_counted (snd (rt_unsubscribe punsub_set i (t, W)))"
proof (cases "dict_get (rt_subscribers t) i")
  case (Some cb)
  have ok: "rt_ok t" "refs_match (rt_pattern_refs t) W (rt_uses t)" using assms(1) by (simp_all add: rt_counted_def)
  with Some obtain p where p: "dict_get (rt_sub_pattern t) i = Some p" unfolding rt_ok_def by fastforce
  have "dict_ok (rt_sub_pattern t)" using ok(1) by (simp add: rt_ok_def)
  note d = uses_del[OF this p]
  let ?n = "uses (rt_sub_pattern (rt_remove i t)) p + uses (rt_queue_patterns t) p"
  have n: "rt_uses t p = Suc ?n" using d by (simp add: rt_uses_def rt_remove_def)
  have u: "rt_uses (rt_remove i t\<lparr>rt_pattern_refs := refs\<rparr>) = (rt_uses t)(p := ?n)" for refs
    using d by (intro ext) (simp add: rt_uses_def rt_remove_def)
  have m: "refs_match (rt_pattern_refs (rt_remove i t)) W (rt_uses t)" using ok(2) by (simp add: rt_remove_def)
  from punsubscribe_match[OF m n] obtain refs W' where
    "rt_punsubscribe punsub_set p (rt_remove i t, W) = (Inr (), (rt_remove i t\<lparr>rt_pattern_refs := refs\<rparr>, W'))"
    "refs_match refs W' ((rt_uses t)(p := ?n))" by blast
  with Some p rt_ok_remove[OF ok(1), of i] show ?thesis
    by (simp add: rt_unsubscribe_def py_simps rt_counted_def u) (simp add: rt_ok_def)
qed (use assms in \<open>simp add: rt_unsubscribe_def\<close>)

lemma ensure_queue_counted:
  assumes "rt_counted (t, W)"
  obtains t' W' where "rt_ensure_queue psub_set topic (t, W) = (Inr (), (t', W'))" "rt_counted (t', W')"
proof (cases "dict_get (rt_queue_patterns t) topic")
  case None
  let ?p = "to_redis_pattern topic" and ?t = "t\<lparr>rt_queue_patterns := dict_set topic (to_redis_pattern topic) (rt_queue_patterns t)\<rparr>"
  have ok: "rt_ok t" "refs_match (rt_pattern_refs ?t) W (rt_uses t)" using assms(1) by (simp_all add: rt_counted_def)
  have u: "rt_uses (?t\<lparr>rt_pattern_refs := refs\<rparr>) = (rt_uses t)(?p := Suc (rt_uses t ?p))" for refs
    using None by (intro ext) (simp add: rt_uses_def uses_fresh)
  from psubscribe_match[OF ok(2), of ?p] obtain refs W' where
    r: "rt_psubscribe psub_set ?p (?t, W) = (Inr (), (?t\<lparr>rt_pattern_refs := refs\<rparr>, W'))"
    "refs_match refs W' ((rt_uses t)(?p := Suc (rt_uses t ?p)))" by blast
  have "rt_ok (?t\<lparr>rt_pattern_refs := refs\<rparr>)" using ok(1) by (simp add: rt_ok_def)
  with r None u show ?thesis by (intro that[of "?t\<lparr>rt_pattern_refs := refs\<rparr>" W']) (simp_all add: rt_ensure_queue_def rt_counted_def)
qed (use assms that in \<open>simp add: rt_ensure_queue_def\<close>)

lemma rt_uses_queues [simp]: "rt_uses (t\<lparr>rt_queues := q\<rparr>) = rt_uses t"
  by (intro ext) (simp add: rt_uses_def)

lemma rt_counted_queues [simp]: "rt_counted (t\<lparr>rt_queues := q\<rparr>, W) = rt_counted (t, W)"
  by (simp add: rt_counted_def rt_ok_def)

lemma receive_counted:
  assumes "rt_counted (t, W)"
  shows "rt_counted (snd (rt_receive psub_set topic timeout (t, W)))"
proof (cases "rt_running t")
  case True
  obtain t' W' where "rt_ensure_queue psub_set topic (t, W) = (Inr (), (t', W'))" "rt_counted (t', W')"
    by (rule ensure_queue_counted[OF assms])
  with True show ?thesis
    by (auto simp: rt_receive_def py_simps rt_get_def rt_pop_def split: option.split list.split prod.split)
qed (use assms in \<open>simp add: rt_receive_def\<close>)

lemma dispatch_counted:
  assumes cb: "\<And>cb m s. rt_counted s \<Longrightarrow> rt_counted (snd (run_cb cb m s))" and "rt_counted s"
  shows "rt_counted (snd (rt_dispatch run_cb m s))"
proof -
  obtain t W where s: "s = (t, W)" by fastforce
  have step: "rt_counted (snd (notify_with (\<lambda>t. dict_get (rt_sub_topic t)) redis_matches run_cb m x s))" if "rt_counted s" for x s
    using that cb by (auto simp: notify_with_def py_suppress_state split: prod.splits option.splits)
  have loop: "rt_counted (snd (py_for (notify_with (\<lambda>t. dict_get (rt_sub_topic t)) redis_matches run_cb m) (rt_subscribers t) s))"
    by (rule py_for_inv[where I = rt_counted]) (simp_all add: step assms(2))
  obtain r t1 W1 where run: "py_for (notify_with (\<lambda>t. dict_get (rt_sub_topic t)) redis_matches run_cb m) (rt_subscribers t) s = (r, (t1, W1))"
    by (metis surj_pair)
  with loop have "rt_counted (t1, W1)" by simp
  with run s show ?thesis by (cases r) (simp_all add: rt_dispatch_def py_simps rt_put_def)
qed

lemma handle_counted:
  assumes "\<And>cb m s. rt_counted s \<Longrightarrow> rt_counted (snd (run_cb cb m s))" and "rt_counted s"
  shows "rt_counted (snd (rt_handle cx run_cb ev s))"
  using assms(2) dispatch_counted[where run_cb = run_cb, OF assms(1)]
  by (auto simp: rt_handle_def rt_payload_def py_simps split: redis_event.split redis_data.split sum.split)

lemma listen_counted:
  assumes cb: "\<And>cb m s. rt_counted s \<Longrightarrow> rt_counted (snd (run_cb cb m s))" and "rt_counted s"
  shows "rt_counted (snd (rt_listen cx run_cb evs s))"
  using assms(2)
proof (induction evs arbitrary: s)
  case (Cons ev evs)
  obtain r s1 where h: "rt_handle cx run_cb ev s = (r, s1)" by (metis surj_pair)
  from handle_counted[where run_cb = run_cb and ev = ev and cx = cx, OF cb Cons.prems] h have "rt_counted s1" by simp
  with h Cons show ?case by (cases r) simp_all
qed simp


lemma rt_init_counted: "rt_counted (rt_init, {})"
  by (simp add: rt_counted_def rt_ok_def rt_init_def refs_match_def rt_uses_def)


section \<open>Overlapping patterns\<close>

abbreviation rt_targets :: "'cb redis_transport \<Rightarrow> string \<Rightarrow> 'cb list" where
  "rt_targets t topic \<equiv> targets redis_matches (rt_subscribers t) (dict_get (rt_sub_topic t)) topic"

lemma rt_dispatch_quiet:
  assumes "catchable h"
  shows "rt_dispatch (lift_rest h) m (t, w) = (Inr (), (rt_put m t, run_quietly h m (rt_targets t (m_topic m)) w))"
  by (simp add: rt_dispatch_def py_simps notify_quiet[OF assms])

text \<open>
  Redis hands a published message to a client once for every pattern of the client that matches the channel;
  \<open>glob\<close> is Redis' matching.
\<close>

definition redis_copies :: "(string \<Rightarrow> string \<Rightarrow> bool) \<Rightarrow> redis_codec \<Rightarrow> string list \<Rightarrow> message \<Rightarrow> redis_event list" where
  "redis_copies glob cx patterns m =
     map (\<lambda>_. RRaw (Some ''pmessage'') (RText (rx_dump cx m))) (filter (\<lambda>p. glob (m_topic m) p) patterns)"

lemma listen_copies:
  assumes "catchable h" "rt_running t" "rx_load cx (rx_dump cx m) = Inr m"
  shows "\<exists>t'. rt_listen cx (lift_rest h) (map (\<lambda>_. RRaw (Some ''pmessage'') (RText (rx_dump cx m))) ps) (t, w) =
      (Inr (), (t', (run_quietly h m (rt_targets t (m_topic m)) ^^ length ps) w)) \<and>
    rt_queue t' (m_topic m) = rt_queue t (m_topic m) @ replicate (length ps) m"
  using assms(2)
proof (induction ps arbitrary: t w)
  case (Cons p ps)
  have f: "rt_running (rt_put m t)" "rt_targets (rt_put m t) = rt_targets t"
    "rt_queue (rt_put m t) (m_topic m) = rt_queue t (m_topic m) @ [m]"
    using Cons.prems by (simp_all add: rt_put_def rt_queue_def)
  have "rt_handle cx (lift_rest h) (RRaw (Some ''pmessage'') (RText (rx_dump cx m))) (t, w) =
      (Inr (), (rt_put m t, run_quietly h m (rt_targets t (m_topic m)) w))"
    by (simp add: rt_handle_def rt_payload_def assms(3) rt_dispatch_quiet[OF assms(1)])
  with Cons.IH[OF f(1), of "run_quietly h m (rt_targets t (m_topic m)) w"] Cons.prems f show ?case
    by (auto simp: funpow_swap1)
qed simp

text \<open>
  C36. Overlapping patterns deliver more than once. A message reaches every matching subscription, and its
  topic's queue, once per Redis pattern that matches it, not once: with Redis delivering a copy per matching
  pattern of the client, \<open>_dispatch\<close> gives each copy to all subscriptions.
\<close>

theorem redis_overlapping_patterns:
  assumes "catchable h" and "rt_running t" and "rx_load cx (rx_dump cx m) = Inr m"
  shows "\<exists>t'. rt_listen cx (lift_rest h) (redis_copies glob cx patterns m) (t, w) =
      (Inr (), (t', (run_quietly h m (rt_targets t (m_topic m)) ^^ length (filter (glob (m_topic m)) patterns)) w)) \<and>
    rt_queue t' (m_topic m) = rt_queue t (m_topic m) @ replicate (length (filter (glob (m_topic m)) patterns)) m"
  using listen_copies[OF assms, of "filter (glob (m_topic m)) patterns" w] unfolding redis_copies_def by simp

definition demo_redis :: "nat redis_transport" where
  "demo_redis = rt_init\<lparr>rt_subscribers := [(''s1'', 1)], rt_sub_topic := [(''s1'', ''a.*'')], rt_sub_pattern := [(''s1'', ''a.*'')],
     rt_pattern_refs := [(''a.*'', 1), (''a.b'', 1)], rt_queue_patterns := [(''a.b'', ''a.b'')], rt_queues := [(''a.b'', [])]\<rparr>"

definition demo_redis_codec :: redis_codec where
  "demo_redis_codec = \<lparr>rx_decode = (\<lambda>_. Inr []), rx_load = (\<lambda>_. Inr (demo_message ''m'' ''a.b'')), rx_dump = (\<lambda>_. [])\<rparr>"

theorem redis_overlapping_patterns_witness:
  "snd (rt_receive psub_set ''a.b'' (Some 0) (snd (rt_subscribe psub_set ''s1'' ''a.*'' 1 (rt_init, {})))) = (demo_redis, {''a.*'', ''a.b''}) \<and>
   (\<exists>t'. rt_listen demo_redis_codec (lift_rest (\<lambda>cb m w. (Inr (), w @ [cb])))
       (redis_copies redis_matches demo_redis_codec [''a.*'', ''a.b''] (demo_message ''m'' ''a.b'')) (demo_redis, []) = (Inr (), (t', [1, 1])))"
proof
  have pats: "to_redis_pattern ''a.*'' = ''a.*''" "to_redis_pattern ''a.b'' = ''a.b''"
    by (simp_all add: to_redis_pattern_def str_replace_code)
  have step1: "rt_subscribe psub_set ''s1'' ''a.*'' 1 (rt_init, {}) = (Inr ''s1'',
      (rt_init\<lparr>rt_subscribers := [(''s1'', 1)], rt_sub_topic := [(''s1'', ''a.*'')], rt_sub_pattern := [(''s1'', ''a.*'')],
         rt_pattern_refs := [(''a.*'', 1)]\<rparr>, {''a.*''}))"
    by (simp add: rt_subscribe_def pats rt_init_def rt_psubscribe_def rt_add_def rt_refs_def psub_set_def py_simps Let_def)
  show "snd (rt_receive psub_set ''a.b'' (Some 0) (snd (rt_subscribe psub_set ''s1'' ''a.*'' 1 (rt_init, {})))) = (demo_redis, {''a.*'', ''a.b''})"
    unfolding step1 by (simp add: rt_receive_def rt_ensure_queue_def pats rt_init_def rt_psubscribe_def rt_refs_def psub_set_def py_simps
        Let_def rt_get_def rt_pop_def rt_queue_def demo_redis_def dict_get_default_def insert_commute)
  have m: "redis_matches ''a.b'' ''a.*''" "redis_matches ''a.b'' ''a.b''"
    by (simp_all add: redis_matches_def re_match.simps)
  have "catchable (\<lambda>(cb :: nat) (m :: message) w. (Inr (), w @ [cb]))" "rt_running demo_redis"
    "rx_load demo_redis_codec (rx_dump demo_redis_codec (demo_message ''m'' ''a.b'')) = Inr (demo_message ''m'' ''a.b'')"
    by (simp_all add: catchable_def demo_redis_def rt_init_def demo_redis_codec_def)
  from redis_overlapping_patterns[OF this, of redis_matches "[''a.*'', ''a.b'']" "[]"] m
  show "\<exists>t'. rt_listen demo_redis_codec (lift_rest (\<lambda>cb m w. (Inr (), w @ [cb])))
       (redis_copies redis_matches demo_redis_codec [''a.*'', ''a.b''] (demo_message ''m'' ''a.b'')) (demo_redis, []) = (Inr (), (t', [1, 1]))"
    by (auto simp: demo_message_def demo_redis_def targets_def run_quietly_def)
qed

end
