(* ===== verification/Nats_Transport.thy ===== *)
theory Nats_Transport
  imports Memory_Transport
begin

text \<open>
  \<open>src/eventforge/transports/nats.py\<close>: the subscription tables, dispatch to the callback pool, and the
  operations. The NATS client is not part of the program: connecting, subscribing, publishing and draining
  are parameters that act on the rest of the state (a coroutine run with \<open>_run\<close> is its outcome), and a
  subscription it returns is a value of type \<open>'ns\<close>. Jobs handed to the callback pool wait in a list until
  a worker of the pool runs them.
\<close>

record ('cb, 'ns) nats_transport =
  nt_connected :: bool
  nt_subscribers :: "(string, 'cb) dict"
  nt_sub_topic :: "(string, string) dict"
  nt_nats_subs :: "(string, 'ns) dict"
  nt_queues :: "(string, message list) dict"
  nt_queue_subs :: "(string, 'ns) dict"
  nt_jobs :: "('cb \<times> message) list"
  nt_running :: bool

definition nt_new :: "('cb, 'ns) nats_transport" where
  "nt_new = \<lparr>nt_connected = False, nt_subscribers = [], nt_sub_topic = [], nt_nats_subs = [], nt_queues = [],
     nt_queue_subs = [], nt_jobs = [], nt_running = True\<rparr>"

text \<open>The constructor: a failed connection, of any kind, leaves the object stopped and is raised.\<close>

definition nt_init :: "('w, unit) py \<Rightarrow> 'w \<Rightarrow> (pyexn + unit) \<times> (('cb, 'ns) nats_transport \<times> 'w)" where
  "nt_init connect w = (case connect w of
       (Inl e, w') \<Rightarrow> (Inl e, (nt_new\<lparr>nt_running := False\<rparr>, w'))
     | (Inr _, w') \<Rightarrow> (Inr (), (nt_new\<lparr>nt_connected := True\<rparr>, w')))"

section \<open>Delivery\<close>

definition nt_queue :: "('cb, 'ns) nats_transport \<Rightarrow> string \<Rightarrow> message list" where
  "nt_queue t topic = dict_get_default (nt_queues t) topic []"

abbreviation nt_targets :: "('cb, 'ns) nats_transport \<Rightarrow> string \<Rightarrow> 'cb list" where
  "nt_targets t topic \<equiv> targets nats_matches (nt_subscribers t) (dict_get (nt_sub_topic t)) topic"

text \<open>
  One iteration of the loop in \<open>_dispatch\<close> (with the local \<open>_matches\<close>), and
  the whole of it: no callback runs here, each is handed to the pool.
\<close>

definition nt_submit :: "message \<Rightarrow> string \<times> 'cb \<Rightarrow> ('cb, 'ns) nats_transport \<Rightarrow> ('cb, 'ns) nats_transport" where
  "nt_submit msg = (\<lambda>(sub_id, callback) t. case dict_get (nt_sub_topic t) sub_id of
       None \<Rightarrow> t
     | Some sub_topic \<Rightarrow>
         if nats_matches (m_topic msg) sub_topic then t\<lparr>nt_jobs := nt_jobs t @ [(callback, msg)]\<rparr> else t)"

definition nt_dispatch :: "message \<Rightarrow> ('cb, 'ns) nats_transport \<Rightarrow> ('cb, 'ns) nats_transport" where
  "nt_dispatch msg t =
     (let t1 = fold (nt_submit msg) (nt_subscribers t) t
      in t1\<lparr>nt_queues := dict_set (m_topic msg) (nt_queue t1 (m_topic msg) @ [msg]) (nt_queues t1)\<rparr>)"

text \<open>The callback of a NATS subscription: data that is no message is dropped.\<close>

definition nt_on_message :: "('d \<Rightarrow> pyexn + message) \<Rightarrow> 'd \<Rightarrow> (('cb, 'ns) nats_transport \<times> 'w, unit) py" where
  "nt_on_message load data = (case load data of
       Inl e \<Rightarrow> if is_Exc e then py_ret () else py_raise e
     | Inr msg \<Rightarrow> py_modify (\<lambda>(t, w). (nt_dispatch msg t, w)))"

text \<open>\<open>_safe_call\<close>, and a worker of the pool taking the next job.\<close>

definition nt_safe_call :: "('cb \<Rightarrow> message \<Rightarrow> ('s, unit) py) \<Rightarrow> 'cb \<times> message \<Rightarrow> ('s, unit) py" where
  "nt_safe_call run_cb = (\<lambda>(callback, msg). py_suppress (run_cb callback msg))"

definition nt_work ::
  "('cb \<Rightarrow> message \<Rightarrow> (('cb, 'ns) nats_transport \<times> 'w, unit) py) \<Rightarrow> (('cb, 'ns) nats_transport \<times> 'w, unit) py" where
  "nt_work run_cb = (\<lambda>(t, w). case nt_jobs t of
       [] \<Rightarrow> (Inr (), (t, w))
     | job # jobs \<Rightarrow> nt_safe_call run_cb job (t\<lparr>nt_jobs := jobs\<rparr>, w))"

section \<open>The operations\<close>

definition nt_send :: "(string \<Rightarrow> message \<Rightarrow> ('w, unit) py) \<Rightarrow> message \<Rightarrow> (('cb, 'ns) nats_transport \<times> 'w, unit) py" where
  "nt_send publish message = (\<lambda>(t, w).
     if \<not> nt_running t \<or> \<not> nt_connected t then (Inl transport_closed, (t, w))
     else case publish (to_nats_subject (m_topic message)) message w of (r, w') \<Rightarrow> (r, (t, w')))"

definition nt_ensure_queue :: "(string \<Rightarrow> ('w, 'ns) py) \<Rightarrow> string \<Rightarrow> (('cb, 'ns) nats_transport \<times> 'w, unit) py" where
  "nt_ensure_queue nsub topic = (\<lambda>(t, w).
     if dict_get (nt_queue_subs t) topic \<noteq> None then (Inr (), (t, w))
     else case nsub (to_nats_subject topic) w of
       (Inl e, w') \<Rightarrow> (Inl e, (t, w'))
     | (Inr ns, w') \<Rightarrow> (Inr (), (t\<lparr>nt_queue_subs := dict_set topic ns (nt_queue_subs t)\<rparr>, w')))"

definition nt_pop :: "string \<Rightarrow> ('cb, 'ns) nats_transport \<Rightarrow> message option \<times> ('cb, 'ns) nats_transport" where
  "nt_pop topic t = (case nt_queue t topic of
       [] \<Rightarrow> (None, t\<lparr>nt_queues := dict_set topic [] (nt_queues t)\<rparr>)
     | m # q \<Rightarrow> (Some m, t\<lparr>nt_queues := dict_set topic q (nt_queues t)\<rparr>))"

definition nt_get :: "string \<Rightarrow> real option \<Rightarrow> (('cb, 'ns) nats_transport \<times> 'w, message option waiting) py" where
  "nt_get topic timeout = (\<lambda>(t, w). case timeout of
       Some x \<Rightarrow> if x < 0 then (Inl negative_timeout, (t\<lparr>nt_queues := dict_set topic (nt_queue t topic) (nt_queues t)\<rparr>, w))
                 else (case nt_pop topic t of (m, t') \<Rightarrow> (Inr (Got m), (t', w)))
     | None \<Rightarrow> (case nt_pop topic t of (m, t') \<Rightarrow> (Inr (case m of None \<Rightarrow> Blocked | Some x \<Rightarrow> Got (Some x)), (t', w))))"

definition nt_receive :: "(string \<Rightarrow> ('w, 'ns) py) \<Rightarrow> string \<Rightarrow> real option \<Rightarrow> (('cb, 'ns) nats_transport \<times> 'w, message option waiting) py" where
  "nt_receive nsub topic timeout = (\<lambda>(t, w).
     if \<not> nt_running t then (Inr (Got None), (t, w))
     else py_seq (nt_ensure_queue nsub topic) (nt_get topic timeout) (t, w))"

definition nt_add :: "'ns \<Rightarrow> string \<Rightarrow> string \<Rightarrow> 'cb \<Rightarrow> ('cb, 'ns) nats_transport \<Rightarrow> ('cb, 'ns) nats_transport" where
  "nt_add ns sub_id topic callback t =
     t\<lparr>nt_subscribers := dict_set sub_id callback (nt_subscribers t), nt_sub_topic := dict_set sub_id topic (nt_sub_topic t),
       nt_nats_subs := dict_set sub_id ns (nt_nats_subs t)\<rparr>"

definition nt_subscribe ::
  "(string \<Rightarrow> ('w, 'ns) py) \<Rightarrow> string \<Rightarrow> string \<Rightarrow> 'cb \<Rightarrow> (('cb, 'ns) nats_transport \<times> 'w, string) py" where
  "nt_subscribe nsub sub_id topic callback = (\<lambda>(t, w).
     if \<not> nt_running t \<or> \<not> nt_connected t then (Inl transport_closed, (t, w))
     else case nsub (to_nats_subject topic) w of
       (Inl e, w') \<Rightarrow> (Inl e, (t, w'))
     | (Inr ns, w') \<Rightarrow> (Inr sub_id, (nt_add ns sub_id topic callback t, w')))"

definition nt_remove :: "string \<Rightarrow> ('cb, 'ns) nats_transport \<Rightarrow> ('cb, 'ns) nats_transport" where
  "nt_remove sub_id t =
     t\<lparr>nt_subscribers := dict_del sub_id (nt_subscribers t), nt_sub_topic := dict_del sub_id (nt_sub_topic t),
       nt_nats_subs := dict_del sub_id (nt_nats_subs t)\<rparr>"

definition nt_unsubscribe :: "('ns \<Rightarrow> ('w, unit) py) \<Rightarrow> string \<Rightarrow> (('cb, 'ns) nats_transport \<times> 'w, bool) py" where
  "nt_unsubscribe nunsub sub_id = (\<lambda>(t, w).
     if dict_get (nt_subscribers t) sub_id = None then (Inr False, (t, w))
     else case dict_get (nt_nats_subs t) sub_id of
       None \<Rightarrow> (Inr True, (nt_remove sub_id t, w))
     | Some ns \<Rightarrow>
         (case py_suppress (nunsub ns) w of
            (Inl e, w') \<Rightarrow> (Inl e, (nt_remove sub_id t, w'))
          | (Inr _, w') \<Rightarrow> (Inr True, (nt_remove sub_id t, w'))))"

text \<open>
  \<open>close\<close>: a second call does nothing; draining falls back to closing the connection, and what either
  raises is ignored.
\<close>

definition nt_cleared :: "('cb, 'ns) nats_transport \<Rightarrow> ('cb, 'ns) nats_transport" where
  "nt_cleared t = t\<lparr>nt_connected := False, nt_subscribers := [], nt_sub_topic := [], nt_nats_subs := [], nt_queue_subs := []\<rparr>"

definition nt_close :: "('w, unit) py \<Rightarrow> ('w, unit) py \<Rightarrow> (('cb, 'ns) nats_transport \<times> 'w, unit) py" where
  "nt_close drain close_nc = (\<lambda>(t, w).
     if \<not> nt_running t then (Inr (), (t, w))
     else
       (let t1 = t\<lparr>nt_running := False\<rparr> in
        if \<not> nt_connected t then (Inr (), (nt_cleared t1, w))
        else case py_suppress (py_except drain (\<lambda>_. py_suppress close_nc)) w of
          (Inl e, w') \<Rightarrow> (Inl e, (t1, w'))
        | (Inr _, w') \<Rightarrow> (Inr (), (nt_cleared t1, w'))))"

section \<open>The subscription table\<close>

definition nt_ok :: "('cb, 'ns) nats_transport \<Rightarrow> bool" where
  "nt_ok t \<longleftrightarrow> dict_ok (nt_subscribers t) \<and>
     (\<forall>i. (dict_get (nt_sub_topic t) i = None) = (dict_get (nt_subscribers t) i = None)) \<and>
     (\<forall>i. (dict_get (nt_nats_subs t) i = None) = (dict_get (nt_subscribers t) i = None))"

lemma nt_ok_add: "nt_ok t \<Longrightarrow> nt_ok (nt_add ns i p cb t)"
  by (simp add: nt_ok_def nt_add_def)

lemma nt_ok_remove: "nt_ok t \<Longrightarrow> nt_ok (nt_remove i t)"
  by (simp add: nt_ok_def nt_remove_def)

lemma nt_ok_ids: "nt_ok t \<Longrightarrow> dict_ok (nt_subscribers t)"
  by (simp add: nt_ok_def)

interpretation nats_table: subscription_table "nt_add ns" nt_remove nt_subscribers "\<lambda>t. dict_get (nt_sub_topic t)" nt_ok for ns
  by unfold_locales
    (simp_all add: nt_ok_add nt_ok_remove nt_ok_ids,
     simp_all add: nt_add_def nt_remove_def dict_set_fresh map_of_eq_None_iff dict_del_filter[symmetric])

section \<open>What a published message does\<close>

lemma nt_submit_all:
  "fold (nt_submit m) subs t = t\<lparr>nt_jobs := nt_jobs t @ map (\<lambda>cb. (cb, m)) (targets nats_matches subs (dict_get (nt_sub_topic t)) (m_topic m))\<rparr>"
proof (induction subs arbitrary: t)
  case (Cons x subs)
  obtain i cb where x: "x = (i, cb)" by fastforce
  have step: "nt_submit m (i, cb) t =
      t\<lparr>nt_jobs := nt_jobs t @ map (\<lambda>cb. (cb, m)) (targets nats_matches [(i, cb)] (dict_get (nt_sub_topic t)) (m_topic m))\<rparr>"
    by (auto simp: nt_submit_def targets_def split: option.split)
  show ?case
    using targets_append[of nats_matches "[(i, cb)]" subs "dict_get (nt_sub_topic t)" "m_topic m"] by (simp add: x step Cons.IH)
qed simp

lemma nt_dispatch_jobs:
  "nt_dispatch m t = t\<lparr>nt_jobs := nt_jobs t @ map (\<lambda>cb. (cb, m)) (nt_targets t (m_topic m)),
     nt_queues := dict_set (m_topic m) (nt_queue t (m_topic m) @ [m]) (nt_queues t)\<rparr>"
  by (simp add: nt_dispatch_def nt_submit_all Let_def nt_queue_def)

lemma concat_replicate_snoc: "concat (replicate n xs) @ xs = xs @ concat (replicate n xs)"
  by (induction n) simp_all

lemma nt_copies:
  "nt_jobs ((nt_dispatch m ^^ n) t) = nt_jobs t @ concat (replicate n (map (\<lambda>cb. (cb, m)) (nt_targets t (m_topic m)))) \<and>
   nt_queue ((nt_dispatch m ^^ n) t) (m_topic m) = nt_queue t (m_topic m) @ replicate n m \<and>
   nt_targets ((nt_dispatch m ^^ n) t) (m_topic m) = nt_targets t (m_topic m)"
proof (induction n)
  case (Suc n)
  then show ?case
    by (simp add: nt_dispatch_jobs nt_queue_def replicate_append_same concat_replicate_snoc)
qed simp

text \<open>
  A NATS client that accepts every subscription: its state is the list of subjects it is subscribed to,
  and it returns a copy of a message for each of its subscriptions whose subject matches.
\<close>

definition nsub_list :: "string \<Rightarrow> (string list, nat) py" where
  "nsub_list subject = (\<lambda>w. (Inr (length w), w @ [subject]))"

lemma nt_subscribe_all:
  assumes "nt_ok t" "nt_running t" "nt_connected t" "distinct (map fst subs)" "fst ` set subs \<inter> fst ` set (nt_subscribers t) = {}"
  shows "\<exists>t'. py_map (\<lambda>(i, cb). nt_subscribe nsub_list i topic cb) subs (t, w) =
      (Inr (map fst subs), (t', w @ replicate (length subs) (to_nats_subject topic))) \<and>
    nt_targets t' x = nt_targets t x @ (if nats_matches x topic then map snd subs else []) \<and>
    nt_jobs t' = nt_jobs t"
  using assms
proof (induction subs arbitrary: t w)
  case (Cons s subs)
  obtain i cb where s: "s = (i, cb)" by fastforce
  let ?t1 = "nt_add (length w) i topic cb t"
  have new: "i \<notin> fst ` set (nt_subscribers t)" using Cons.prems(5) s by auto
  then have ids: "nt_subscribers ?t1 = nt_subscribers t @ [(i, cb)]"
    by (simp add: nt_add_def dict_set_fresh map_of_eq_None_iff)
  have "nt_running ?t1" "nt_connected ?t1" "nt_jobs ?t1 = nt_jobs t" using Cons.prems(2,3) by (simp_all add: nt_add_def)
  with Cons.IH[of ?t1 "w @ [to_nats_subject topic]"] Cons.prems s ids nt_ok_add[OF Cons.prems(1)]
    nats_table.targets_subscribe[OF Cons.prems(1) new, of nats_matches "length w" topic cb x]
  show ?case by (auto simp: nt_subscribe_def nsub_list_def image_iff)
qed simp

text \<open>
  C35. Several subscriptions multiply deliveries. When \<open>k\<close> callbacks are subscribed to one topic, the transport
  holds \<open>k\<close> NATS subscriptions, and a message on that topic, of which NATS delivers a copy to each, is handed
  \<open>k\<close> times to every one of the \<open>k\<close> callbacks and put \<open>k\<close> times into the topic's queue.
\<close>

theorem nats_subscriptions_multiply:
  fixes subs :: "(string \<times> 'cb) list"
  assumes "distinct (map fst subs)" and "nats_matches (m_topic m) topic" and "subject_matches (to_nats_subject topic) (m_topic m)"
  shows "\<exists>t subjects. py_map (\<lambda>(i, cb). nt_subscribe nsub_list i topic cb) subs (nt_new\<lparr>nt_connected := True\<rparr>, []) =
      (Inr (map fst subs), (t, subjects)) \<and>
    (let copies = length (filter (\<lambda>s. subject_matches s (m_topic m)) subjects); t' = (nt_dispatch m ^^ copies) t
     in copies = length subs \<and>
        nt_jobs t' = concat (replicate (length subs) (map (\<lambda>(i, cb). (cb, m)) subs)) \<and>
        nt_queue t' (m_topic m) = nt_queue t (m_topic m) @ replicate (length subs) m)"
proof -
  let ?t0 = "nt_new\<lparr>nt_connected := True\<rparr> :: ('cb, nat) nats_transport" and ?k = "length subs"
  have "nt_ok ?t0" "nt_running ?t0" "nt_connected ?t0" "fst ` set subs \<inter> fst ` set (nt_subscribers ?t0) = {}"
    "nt_jobs ?t0 = []" "nt_targets ?t0 (m_topic m) = []"
    by (simp_all add: nt_ok_def nt_new_def)
  then obtain t where t: "py_map (\<lambda>(i, cb). nt_subscribe nsub_list i topic cb) subs (?t0, []) =
      (Inr (map fst subs), (t, replicate ?k (to_nats_subject topic)))" "nt_targets t (m_topic m) = map snd subs" "nt_jobs t = []"
    using nt_subscribe_all[of ?t0 subs topic "[]" "m_topic m"] assms(1,2) by auto
  have "length (filter (\<lambda>s. subject_matches s (m_topic m)) (replicate ?k (to_nats_subject topic))) = ?k"
    using assms(3) by simp
  moreover have "map (\<lambda>cb. (cb, m)) (map snd subs) = map (\<lambda>(i, cb). (cb, m)) subs" by auto
  ultimately show ?thesis
    using t nt_copies[where n = ?k and t = t and m = m]
    by (intro exI[of _ t] exI[of _ "replicate ?k (to_nats_subject topic)"]) (simp only: Let_def append_Nil simp_thms)
qed

theorem nats_subscriptions_multiply_witness:
  "\<exists>t subjects. py_map (\<lambda>(i, cb). nt_subscribe nsub_list i ''a'' cb) [(''s1'', 1 :: nat), (''s2'', 2)] (nt_new\<lparr>nt_connected := True\<rparr>, []) =
      (Inr [''s1'', ''s2''], (t, subjects)) \<and>
    map fst (nt_jobs ((nt_dispatch (demo_message ''m'' ''a'') ^^ length (filter (\<lambda>s. s = ''a'') subjects)) t)) = [1, 2, 1, 2]"
proof -
  have "to_nats_subject ''a'' = ''a''" "nats_matches ''a'' ''a''"
    by (simp_all add: to_nats_subject_def Let_def nats_matches_def)
  with nats_subscriptions_multiply[of "[(''s1'', 1 :: nat), (''s2'', 2)]" "demo_message ''m'' ''a''" "''a''" "(=)"]
  show ?thesis by (fastforce simp: demo_message_def Let_def)
qed

end
