(* ===== verification/Async_Receive.thy ===== *)
theory Async_Receive
  imports Message_Queue Tcp_Transport Redis_Transport Nats_Transport
begin

text \<open>
  The asyncio \<open>receive_async\<close> of the four transports (\<open>src/eventforge/transports\<close>). Each hands
  \<open>self._queues[topic].get(timeout=1)\<close> to a thread of the event loop's pool and awaits it with
  \<open>asyncio.wait_for(..., timeout)\<close>. What comes of that depends on when messages come in, so the state here
  has a clock and the steps other threads make later, each with its time. The locale \<open>fifo_topic\<close> is what
  a transport promises of a topic's queue; it is interpreted for the four transports.
\<close>

section \<open>States with a clock\<close>

text \<open>The time, what the other threads will do and when (in order), and the state of the program.\<close>

record 's timed =
  tm_now :: real
  tm_future :: "(real \<times> ('s \<Rightarrow> 's)) list"
  tm_state :: 's

text \<open>The steps due at a time or before it are made.\<close>

fun elapse :: "real \<Rightarrow> (real \<times> ('s \<Rightarrow> 's)) list \<Rightarrow> 's \<Rightarrow> (real \<times> ('s \<Rightarrow> 's)) list \<times> 's" where
  "elapse until [] s = ([], s)"
| "elapse until ((a, f) # fut) s = (if a \<le> until then elapse until fut (f s) else ((a, f) # fut, s))"

text \<open>A statement that takes no time.\<close>

definition instantly :: "('s, 'a) py \<Rightarrow> ('s timed, 'a) py" where
  "instantly m = (\<lambda>T. case m (tm_state T) of (r, s) \<Rightarrow> (r, T\<lparr>tm_state := s\<rparr>))"

text \<open>
  \<open>Queue.get(timeout=...)\<close>: take a message if there is one, else wait for the steps of the others until the
  deadline. \<open>pop\<close> takes the first message of the queue. The result comes with the time it is there.
\<close>

fun blocking_get ::
  "('s \<Rightarrow> message option \<times> 's) \<Rightarrow> real \<Rightarrow> real option \<Rightarrow> (real \<times> ('s \<Rightarrow> 's)) list \<Rightarrow> 's \<Rightarrow>
   (message option waiting \<times> real) \<times> (real \<times> ('s \<Rightarrow> 's)) list \<times> 's" where
  "blocking_get pop now deadline [] s = (case pop s of
       (Some m, s') \<Rightarrow> ((Got (Some m), now), [], s')
     | (None, s') \<Rightarrow> (case deadline of None \<Rightarrow> ((Blocked, now), [], s') | Some d \<Rightarrow> ((Got None, d), [], s')))"
| "blocking_get pop now deadline ((a, f) # fut) s = (case pop s of
       (Some m, s') \<Rightarrow> ((Got (Some m), now), (a, f) # fut, s')
     | (None, s') \<Rightarrow>
         (case deadline of
            None \<Rightarrow> blocking_get pop (max now a) deadline fut (f s')
          | Some d \<Rightarrow> if a < d then blocking_get pop (max now a) deadline fut (f s') else ((Got None, d), (a, f) # fut, s')))"

text \<open>
  \<open>await asyncio.wait_for(loop.run_in_executor(None, get), timeout)\<close> with both \<open>TimeoutError\<close> and \<open>Empty\<close> giving
  \<open>None\<close>. A thread of the pool takes the job after \<open>delay\<close>. If the timeout is over by then the job is
  cancelled and does nothing; a job that runs is not stopped by the timeout: it takes its message all the
  same, and nobody gets the result. The state returned is that at the end of the job.
\<close>

definition wait_for_get :: "('s \<Rightarrow> message option \<times> 's) \<Rightarrow> real \<Rightarrow> real option \<Rightarrow> ('s timed, message option) py" where
  "wait_for_get pop delay timeout = (\<lambda>T.
     let start = tm_now T + delay in
     if (case timeout of None \<Rightarrow> False | Some x \<Rightarrow> x \<le> delay)
     then let give_up = tm_now T + max 0 (the timeout) in
       (case elapse give_up (tm_future T) (tm_state T) of
          (fut, s) \<Rightarrow> (Inr None, \<lparr>tm_now = give_up, tm_future = fut, tm_state = s\<rparr>))
     else (case elapse start (tm_future T) (tm_state T) of
       (fut1, s1) \<Rightarrow>
         (case blocking_get pop start (Some (start + 1)) fut1 s1 of
            ((got, ended), fut2, s2) \<Rightarrow>
              (Inr (case got of
                      Blocked \<Rightarrow> None
                    | Got m \<Rightarrow> (case timeout of None \<Rightarrow> m | Some x \<Rightarrow> if ended < tm_now T + x then m else None)),
               \<lparr>tm_now = ended, tm_future = fut2, tm_state = s2\<rparr>))))"

section \<open>\<open>receive_async\<close> of the transports\<close>

definition mt_take :: "string \<Rightarrow> 'cb memory_transport \<times> 'w \<Rightarrow> message option \<times> 'cb memory_transport \<times> 'w" where
  "mt_take topic = (\<lambda>(t, w). case mt_pop topic t of (m, t') \<Rightarrow> (m, (t', w)))"

definition mt_receive_async :: "real \<Rightarrow> string \<Rightarrow> real option \<Rightarrow> (('cb memory_transport \<times> 'w) timed, message option) py" where
  "mt_receive_async delay topic timeout = (\<lambda>T.
     if mt_closed (fst (tm_state T)) then (Inr None, T) else wait_for_get (mt_take topic) delay timeout T)"

definition tcp_take ::
  "string \<Rightarrow> ('cb, 'm) tcp_tables_scheme \<times> 'w \<Rightarrow> message option \<times> ('cb, 'm) tcp_tables_scheme \<times> 'w" where
  "tcp_take topic = (\<lambda>(t, w). case tcp_queue t topic of
       [] \<Rightarrow> (None, (t\<lparr>tt_queues := dict_set topic [] (tt_queues t)\<rparr>, w))
     | m # q \<Rightarrow> (Some m, (t\<lparr>tt_queues := dict_set topic q (tt_queues t)\<rparr>, w)))"

definition srv_receive_async ::
  "real \<Rightarrow> string \<Rightarrow> real option \<Rightarrow> ((('cb, 'k) tcp_server \<times> 'w) timed, message option) py" where
  "srv_receive_async delay topic timeout = wait_for_get (tcp_take topic) delay timeout"

definition tcl_receive_async ::
  "real \<Rightarrow> string \<Rightarrow> real option \<Rightarrow> ((('cb, 'k) tcp_client \<times> 'w) timed, message option) py" where
  "tcl_receive_async delay topic timeout = wait_for_get (tcp_take topic) delay timeout"

definition rt_take :: "string \<Rightarrow> 'cb redis_transport \<times> 'w \<Rightarrow> message option \<times> 'cb redis_transport \<times> 'w" where
  "rt_take topic = (\<lambda>(t, w). case rt_pop topic t of (m, t') \<Rightarrow> (m, (t', w)))"

definition rt_receive_async ::
  "(string \<Rightarrow> ('w, unit) py) \<Rightarrow> real \<Rightarrow> string \<Rightarrow> real option \<Rightarrow> (('cb redis_transport \<times> 'w) timed, message option) py" where
  "rt_receive_async psub delay topic timeout = (\<lambda>T.
     if \<not> rt_running (fst (tm_state T)) then (Inr None, T)
     else py_seq (instantly (rt_ensure_queue psub topic)) (wait_for_get (rt_take topic) delay timeout) T)"

definition nt_take :: "string \<Rightarrow> ('cb, 'ns) nats_transport \<times> 'w \<Rightarrow> message option \<times> ('cb, 'ns) nats_transport \<times> 'w" where
  "nt_take topic = (\<lambda>(t, w). case nt_pop topic t of (m, t') \<Rightarrow> (m, (t', w)))"

definition nt_receive_async ::
  "(string \<Rightarrow> ('w, 'ns) py) \<Rightarrow> real \<Rightarrow> string \<Rightarrow> real option \<Rightarrow> ((('cb, 'ns) nats_transport \<times> 'w) timed, message option) py" where
  "nt_receive_async nsub delay topic timeout = (\<lambda>T.
     if \<not> nt_running (fst (tm_state T)) then (Inr None, T)
     else py_seq (instantly (nt_ensure_queue nsub topic)) (wait_for_get (nt_take topic) delay timeout) T)"

section \<open>What comes of it\<close>

lemma in_set_tlD: "x \<in> set (tl xs) \<Longrightarrow> x \<in> set xs"
  by (cases xs) auto

text \<open>The messages that will come, as steps, and the state when all of them have come.\<close>

definition arrivals :: "(message \<Rightarrow> 's \<Rightarrow> 's) \<Rightarrow> (real \<times> message) list \<Rightarrow> (real \<times> ('s \<Rightarrow> 's)) list" where
  "arrivals put arr = map (\<lambda>(a, m). (a, put m)) arr"

definition in_the_end :: "'s timed \<Rightarrow> 's" where
  "in_the_end T = fold (\<lambda>(a, f). f) (tm_future T) (tm_state T)"

lemma arrivals_simps [simp]:
  "arrivals put [] = []" "arrivals put ((a, m) # arr) = (a, put m) # arrivals put arr"
  by (simp_all add: arrivals_def)

text \<open>When a \<open>get\<close> that starts at \<open>start\<close> finds a message, and which.\<close>

definition first_message :: "real \<Rightarrow> message list \<Rightarrow> (real \<times> message) list \<Rightarrow> (real \<times> message) option" where
  "first_message start q arr = (case q of
       m # _ \<Rightarrow> Some (start, m)
     | [] \<Rightarrow> (case arr of [] \<Rightarrow> None | (a, m) # _ \<Rightarrow> Some (max start a, m)))"

definition in_time :: "real option \<Rightarrow> real \<Rightarrow> bool" where
  "in_time timeout v = (case timeout of None \<Rightarrow> True | Some x \<Rightarrow> v < x)"

text \<open>
  A topic's queue: \<open>pop\<close> takes its first message, \<open>put\<close> (the transport's delivery) adds one at the end while
  there is room.
\<close>

locale fifo_topic =
  fixes contents :: "'s \<Rightarrow> message list"
    and pop :: "'s \<Rightarrow> message option \<times> 's"
    and put :: "message \<Rightarrow> 's \<Rightarrow> 's"
    and room :: "nat \<Rightarrow> 's \<Rightarrow> bool"
    and topic :: string
  assumes pop_none: "contents s = [] \<Longrightarrow> fst (pop s) = None \<and> contents (snd (pop s)) = []"
    and pop_first: "contents s = m # q \<Longrightarrow> fst (pop s) = Some m \<and> contents (snd (pop s)) = q"
    and pop_room: "room n s \<Longrightarrow> room n (snd (pop s))"
    and put_last: "m_topic m = topic \<Longrightarrow> room (Suc n) s \<Longrightarrow> contents (put m s) = contents s @ [m] \<and> room n (put m s)"
begin

lemma elapse_arrivals:
  assumes "room (length arr) s" "\<forall>(a, m) \<in> set arr. m_topic m = topic"
  shows "\<exists>s'. elapse until (arrivals put arr) s = (arrivals put (dropWhile (\<lambda>(a, m). a \<le> until) arr), s') \<and>
    contents s' = contents s @ map snd (takeWhile (\<lambda>(a, m). a \<le> until) arr) \<and>
    room (length (dropWhile (\<lambda>(a, m). a \<le> until) arr)) s'"
  using assms
proof (induction arr arbitrary: s)
  case (Cons x arr)
  obtain a m where x: "x = (a, m)" by fastforce
  show ?case
  proof (cases "a \<le> until")
    case True
    have p: "contents (put m s) = contents s @ [m]" "room (length arr) (put m s)"
      using put_last[of m "length arr" s] Cons.prems x by simp_all
    from Cons.IH[OF p(2)] Cons.prems(2) True p(1) x show ?thesis by auto
  qed (use Cons.prems x in auto)
qed simp

lemma all_arrive:
  assumes "room (length arr) s" "\<forall>(a, m) \<in> set arr. m_topic m = topic"
  shows "contents (fold (\<lambda>(a, f). f) (arrivals put arr) s) = contents s @ map snd arr"
  using assms
proof (induction arr arbitrary: s)
  case (Cons x arr)
  obtain a m where x: "x = (a, m)" by fastforce
  have "contents (put m s) = contents s @ [m]" "room (length arr) (put m s)"
    using put_last[of m "length arr" s] Cons.prems x by simp_all
  with Cons.IH[of "put m s"] Cons.prems(2) x show ?case by auto
qed simp

text \<open>The thread's \<open>get\<close>: the first message that is there before the deadline.\<close>

lemma get_arrivals:
  assumes "room (length arr) s" "\<forall>(a, m) \<in> set arr. m_topic m = topic" "now < d"
  shows "\<exists>got ended s'. blocking_get pop now (Some d) (arrivals put arr) s =
      ((Got got, ended), arrivals put (if got \<noteq> None \<and> contents s = [] then tl arr else arr), s') \<and>
    (case first_message now (contents s) arr of
       Some (v, m) \<Rightarrow> if v < d then got = Some m \<and> ended = v else got = None \<and> ended = d
     | None \<Rightarrow> got = None \<and> ended = d) \<and>
    contents s' = tl (contents s) \<and> room (length (if got \<noteq> None \<and> contents s = [] then tl arr else arr)) s'"
proof -
  obtain got s1 where pop: "pop s = (got, s1)" by fastforce
  show ?thesis
  proof (cases "contents s")
    case (Cons m q)
    with pop_first[OF Cons] pop_room[OF assms(1)] pop assms(3) show ?thesis
      by (cases arr) (auto simp: first_message_def)
  next
    case Nil
    note n = pop_none[OF Nil] pop_room[OF assms(1)]
    show ?thesis
    proof (cases arr)
      case Nil: Nil
      with n pop \<open>contents s = []\<close> show ?thesis by (simp add: first_message_def)
    next
      case (Cons x arr')
      obtain a m where x: "x = (a, m)" by fastforce
      have p: "contents (put m s1) = [m]" "room (length arr') (put m s1)"
        using put_last[of m "length arr'" s1] n pop assms(2) Cons x by simp_all
      have "fst (pop (put m s1)) = Some m" "contents (snd (pop (put m s1))) = []" "room (length arr') (snd (pop (put m s1)))"
        using pop_first[OF p(1)] pop_room[OF p(2)] by simp_all
      then have "blocking_get pop (max now a) (Some d) (arrivals put arr') (put m s1) =
          ((Got (Some m), max now a), arrivals put arr', snd (pop (put m s1)))"
        by (cases "pop (put m s1)"; cases arr') auto
      with n pop x Cons \<open>contents s = []\<close> \<open>fst (pop (put m s1)) = Some m\<close> \<open>contents (snd (pop (put m s1))) = []\<close>
        \<open>room (length arr') (snd (pop (put m s1)))\<close> assms(3) show ?thesis
        by (simp add: first_message_def)
    qed
  qed
qed

lemma first_message_elapsed:
  "first_message start (q @ map snd (takeWhile (\<lambda>(a, m). a \<le> start) arr)) (dropWhile (\<lambda>(a, m). a \<le> start) arr) =
   first_message start q arr"
  by (cases q; cases arr) (auto simp: first_message_def max_def)

text \<open>
  What the caller gets, and what is left in the queue in the end: the message is returned if it is there
  within the second and within the timeout; it is taken if it is there within the second and the job ran.
\<close>

lemma wait_for_arrivals:
  assumes "room (length arr) (tm_state T)" "\<forall>(a, m) \<in> set arr. m_topic m = topic" "tm_future T = arrivals put arr" "0 \<le> delay"
  defines "q \<equiv> contents (tm_state T)" and "start \<equiv> tm_now T + delay"
  shows "\<exists>T'. wait_for_get pop delay timeout T =
      (Inr (case first_message start q arr of
              None \<Rightarrow> None
            | Some (v, m) \<Rightarrow> if v < start + 1 \<and> in_time timeout (v - tm_now T) then Some m else None), T') \<and>
    contents (in_the_end T') =
      (if in_time timeout delay \<and> (case first_message start q arr of None \<Rightarrow> False | Some (v, m) \<Rightarrow> v < start + 1)
       then tl (q @ map snd arr) else q @ map snd arr)"
proof (cases "in_time timeout delay")
  case False
  then obtain x where x: "timeout = Some x" "x \<le> delay" by (auto simp: in_time_def split: option.splits)
  have late: "\<not> v < tm_now T + x" if "first_message start q arr = Some (v, m)" for v m
    using that x(2) by (auto simp: first_message_def start_def split: list.splits)
  obtain s' where e: "elapse (tm_now T + max 0 x) (arrivals put arr) (tm_state T) =
      (arrivals put (dropWhile (\<lambda>(a, m). a \<le> tm_now T + max 0 x) arr), s')"
    "contents s' = q @ map snd (takeWhile (\<lambda>(a, m). a \<le> tm_now T + max 0 x) arr)"
    "room (length (dropWhile (\<lambda>(a, m). a \<le> tm_now T + max 0 x) arr)) s'"
    using elapse_arrivals[OF assms(1,2), of "tm_now T + max 0 x"] by (auto simp: q_def)
  have "contents (fold (\<lambda>(a, f). f) (arrivals put (dropWhile (\<lambda>(a, m). a \<le> tm_now T + max 0 x) arr)) s') = q @ map snd arr"
    using all_arrive[OF e(3)] assms(2) e(2)
    by (auto simp: map_append[symmetric] simp del: map_append dest: set_dropWhileD)
  with x e(1) assms(3) late show ?thesis
    by (auto simp: wait_for_get_def in_time_def in_the_end_def Let_def max_def not_less algebra_simps split: option.splits)
next
  case True
  let ?rest = "dropWhile (\<lambda>(a, m). a \<le> start) arr"
  obtain s1 where e: "elapse start (arrivals put arr) (tm_state T) = (arrivals put ?rest, s1)"
    "contents s1 = q @ map snd (takeWhile (\<lambda>(a, m). a \<le> start) arr)" "room (length ?rest) s1"
    using elapse_arrivals[OF assms(1,2), of start] by (auto simp: q_def)
  have ours: "\<forall>(a, m) \<in> set ?rest. m_topic m = topic" using assms(2) by (auto dest: set_dropWhileD)
  have all: "q @ map snd arr = contents s1 @ map snd ?rest"
    using e(2) by (simp add: map_append[symmetric] del: map_append)
  obtain got ended s2 where g: "blocking_get pop start (Some (start + 1)) (arrivals put ?rest) s1 =
      ((Got got, ended), arrivals put (if got \<noteq> None \<and> contents s1 = [] then tl ?rest else ?rest), s2)"
    "case first_message start q arr of
       Some (v, m) \<Rightarrow> if v < start + 1 then got = Some m \<and> ended = v else got = None \<and> ended = start + 1
     | None \<Rightarrow> got = None \<and> ended = start + 1"
    "contents s2 = tl (contents s1)" "room (length (if got \<noteq> None \<and> contents s1 = [] then tl ?rest else ?rest)) s2"
    using get_arrivals[OF e(3) ours, of start "start + 1"] first_message_elapsed[of start q arr] e(2) by auto
  let ?fut = "if got \<noteq> None \<and> contents s1 = [] then tl ?rest else ?rest"
  have "\<forall>(a, m) \<in> set ?fut. m_topic m = topic" using ours by (auto dest!: in_set_tlD split: if_splits)
  then have "contents (fold (\<lambda>(a, f). f) (arrivals put ?fut) s2) = tl (contents s1) @ map snd ?fut"
    using all_arrive[OF g(4)] g(3) by simp
  also have "\<dots> = (if got \<noteq> None then tl (q @ map snd arr) else q @ map snd arr)"
    using g(2) all first_message_elapsed[of start q arr] e(2)
    by (cases "contents s1"; cases ?rest) (auto simp: first_message_def split: list.splits if_splits)
  finally show ?thesis
    using True e(1) g(1,2) assms(3)
    by (auto simp: wait_for_get_def in_time_def in_the_end_def Let_def start_def algebra_simps not_le split: option.splits if_splits)
qed

end

section \<open>The queues of the transports\<close>

text \<open>Delivery to a topic none of whose subscriptions match only fills the queue.\<close>

lemma notify_with_unmatched:
  "targets matches subs (pat t) (m_topic m) = [] \<Longrightarrow> py_for (notify_with pat matches run_cb m) subs (t, w) = (Inr (), (t, w))"
  by (induction subs) (auto simp: targets_def notify_with_def split: option.splits if_splits)

text \<open>Room for \<open>n\<close> messages on a topic of an open in-memory transport without subscribers for it.\<close>

definition mt_room :: "string \<Rightarrow> nat \<Rightarrow> 'cb memory_transport \<times> 'w \<Rightarrow> bool" where
  "mt_room topic n = (\<lambda>(t, w). \<not> mt_closed t \<and> mt_targets t topic = [] \<and>
     (mt_max_queue_size t \<le> 0 \<or> int (length (mt_queue t topic) + n) \<le> mt_max_queue_size t))"

interpretation memory_topic: fifo_topic "\<lambda>(t, w). mt_queue t topic" "mt_take topic" "\<lambda>m s. snd (mt_send run_cb m s)" "mt_room topic" topic
  for topic run_cb
proof (unfold_locales, goal_cases)
  case (4 m n s)
  then show ?case
    by (cases s) (auto simp: mt_room_def send_unmatched mt_put_def Let_def queue_full_def mt_queue_def)
qed (auto simp: mt_take_def mt_pop_def mt_queue_def mt_room_def split: list.splits)

definition tcp_quiet :: "string \<Rightarrow> nat \<Rightarrow> ('cb, 'm) tcp_tables_scheme \<times> 'w \<Rightarrow> bool" where
  "tcp_quiet topic n = (\<lambda>(t, w). targets tcp_sub_matches (tt_subscribers t) (tcp_pattern t) topic = [])"

lemma tcp_pattern_queues [simp]: "tcp_pattern (t\<lparr>tt_queues := q\<rparr>) = tcp_pattern t"
  by (rule ext) (simp add: tcp_pattern_def)

interpretation tcp_topic: fifo_topic "\<lambda>(t, w). tcp_queue t topic" "tcp_take topic" "\<lambda>m s. snd (tcp_dispatch run_cb m s)" "tcp_quiet topic" topic
  for topic run_cb
  by unfold_locales
    (auto simp: tcp_take_def tcp_queue_def tcp_quiet_def tcp_dispatch_def py_simps notify_with_unmatched tcp_put_def
      split: list.splits)

definition rt_quiet :: "string \<Rightarrow> nat \<Rightarrow> 'cb redis_transport \<times> 'w \<Rightarrow> bool" where
  "rt_quiet topic n = (\<lambda>(t, w). rt_targets t topic = [])"

interpretation redis_topic: fifo_topic "\<lambda>(t, w). rt_queue t topic" "rt_take topic" "\<lambda>m s. snd (rt_dispatch run_cb m s)" "rt_quiet topic" topic
  for topic run_cb
  by unfold_locales
    (auto simp: rt_take_def rt_pop_def rt_queue_def rt_quiet_def rt_dispatch_def py_simps notify_with_unmatched rt_put_def split: list.splits)

interpretation nats_topic: fifo_topic "\<lambda>(t, w). nt_queue t topic" "nt_take topic" "\<lambda>m (t, w). (nt_dispatch m t, w)" "\<lambda>_ _. True" topic
  for topic
  by unfold_locales (auto simp: nt_take_def nt_pop_def nt_queue_def nt_dispatch_jobs split: list.splits)

text \<open>
  C32. \<open>receive_async\<close> of the in-memory transport when messages come in while it waits. It returns the first
  message if that is there within one second of the pool taking the job and within the timeout, else
  \<open>None\<close>. So a message that comes later than the second is not returned, however long the timeout; and one
  that comes within the second but after the timeout is taken from the queue and returned to nobody.
\<close>

theorem async_receive_outcome:
  assumes "mt_room topic (length arr) (t, w)" and "\<forall>(a, m) \<in> set arr. m_topic m = topic" and "0 \<le> delay"
    and "T = \<lparr>tm_now = now, tm_future = arrivals (\<lambda>m s. snd (mt_send run_cb m s)) arr, tm_state = (t, w)\<rparr>"
    and "msgs = mt_queue t topic @ map snd arr" and "found = first_message (now + delay) (mt_queue t topic) arr"
  shows "\<exists>T'. mt_receive_async delay topic timeout T =
      (Inr (case found of
              None \<Rightarrow> None
            | Some (v, m) \<Rightarrow> if v < now + delay + 1 \<and> in_time timeout (v - now) then Some m else None), T') \<and>
    mt_queue (fst (in_the_end T')) topic =
      (if in_time timeout delay \<and> (case found of None \<Rightarrow> False | Some (v, m) \<Rightarrow> v < now + delay + 1) then tl msgs else msgs)"
proof -
  have "\<not> mt_closed t" using assms(1) by (simp add: mt_room_def)
  then have recv: "mt_receive_async delay topic timeout T = wait_for_get (mt_take topic) delay timeout T"
    by (simp add: mt_receive_async_def assms(4))
  have T: "tm_now T = now" "(case tm_state T of (t, w) \<Rightarrow> mt_queue t topic) = mt_queue t topic" by (simp_all add: assms(4))
  show ?thesis
    using memory_topic.wait_for_arrivals[where T = T and delay = delay and timeout = timeout and run_cb = run_cb and topic = topic and arr = arr]
      assms(1-3)
    unfolding recv T assms(5,6) by (simp add: assms(4) split_beta)
qed

theorem async_receive_outcome_witness:
  "\<exists>T'. mt_receive_async (1 / 10) ''a'' (Some (1 / 2)) \<lparr>tm_now = 0, tm_future = arrivals (\<lambda>m s. snd (mt_send (\<lambda>_ _. py_ret ()) m s))
        [(8 / 10, demo_message ''m'' ''a'')], tm_state = (mt_init 10 :: unit memory_transport, ())\<rparr> = (Inr None, T') \<and>
     mt_queue (fst (in_the_end T')) ''a'' = []"
  using async_receive_outcome[where t = "mt_init 10 :: unit memory_transport" and w = "()" and topic = "''a''" and arr = "[(8 / 10, demo_message ''m'' ''a'')]"
      and delay = "1 / 10" and now = 0 and timeout = "Some (1 / 2)" and run_cb = "\<lambda>_ _. py_ret ()", OF _ _ _ refl refl refl]
  by (simp add: mt_room_def mt_init_def mt_queue_def first_message_def in_time_def demo_message_def)

end
