(* ===== verification/Async_Calls.thy ===== *)
theory Async_Calls
  imports Rpc_Over_Tcp Async_Receive Executor
begin

text \<open>
  The asyncio operations above the transports: \<open>publish_async\<close>, \<open>receive_async\<close>, \<open>request_async\<close> of the
  message queue (\<open>src/eventforge/queue.py\<close>), \<open>call_async\<close> and \<open>_handle_request_async\<close> of RPC
  (\<open>src/eventforge/rpc.py\<close>), \<open>submit_async\<close>, \<open>result_async\<close>, \<open>map_async\<close> of the executor
  (\<open>src/eventforge/executor.py\<close>). They run on the states with a clock of \<open>Async_Receive\<close>: a coroutine runs
  without interruption up to its next \<open>await\<close>.
\<close>

section \<open>The message queue\<close>

definition mq_publish_async :: "('h, 's) mq_ctx \<Rightarrow> string \<Rightarrow> pyval \<Rightarrow> kwargs \<Rightarrow> ('s timed, string) py" where
  "mq_publish_async c topic payload headers = instantly (mq_publish c topic payload headers)"

text \<open>\<open>ra\<close> is the \<open>receive_async\<close> of the queue's transport.\<close>

definition mq_receive_async ::
  "(string \<Rightarrow> real option \<Rightarrow> ('s timed, message option) py) \<Rightarrow> string \<Rightarrow> real option \<Rightarrow> ('s timed, message option) py" where
  "mq_receive_async ra topic timeout = ra topic timeout"

definition mq_request_async ::
  "('h, 's) mq_ctx \<Rightarrow> (string \<Rightarrow> real option \<Rightarrow> ('s timed, message option) py) \<Rightarrow> string \<Rightarrow> pyval \<Rightarrow> real \<Rightarrow> kwargs \<Rightarrow>
   ('s timed, message option) py" where
  "mq_request_async c ra topic payload timeout headers =
     py_bind (instantly (mq_uuid c)) (\<lambda>u. let reply_topic = ''_reply.'' @ u in
     py_bind (instantly (mq_uuid c)) (\<lambda>correlation_id.
     py_bind (instantly (mq_message c topic payload headers (Some reply_topic) (Some correlation_id))) (\<lambda>message.
     py_seq (instantly (t_send (c_ops c) message)) (ra reply_topic (Some timeout)))))"

section \<open>Remote calls\<close>

text \<open>The part of \<open>call_async\<close> before its \<open>await\<close>: the request is made and sent; its id is returned.\<close>

definition rpc_post ::
  "('h, 's) mq_ctx \<Rightarrow> rpc_codec \<Rightarrow> rpc_client \<Rightarrow> string \<Rightarrow> pyval list \<Rightarrow> real option \<Rightarrow> kwargs \<Rightarrow> ('s, string) py" where
  "rpc_post c cd k meth args timeout kw =
     py_bind (mq_uuid c) (\<lambda>i.
     let request = \<lparr>rq_id = i, rq_method = meth, rq_args = args, rq_kwargs = kw,
           rq_timeout = Some (effective_timeout timeout k)\<rparr> in
     py_bind (rpc_request_message c cd k request) (\<lambda>msg. py_seq (t_send (c_ops c) msg) (py_ret i)))"

definition rpc_call_async ::
  "('h, 's) mq_ctx \<Rightarrow> (string \<Rightarrow> real option \<Rightarrow> ('s timed, message option) py) \<Rightarrow> rpc_codec \<Rightarrow> rpc_client \<Rightarrow> string \<Rightarrow>
   pyval list \<Rightarrow> real option \<Rightarrow> kwargs \<Rightarrow> ('s timed, pyval) py" where
  "rpc_call_async c ra cd k meth args timeout kw =
     py_bind (instantly (rpc_post c cd k meth args timeout kw)) (\<lambda>i.
     py_bind (mq_receive_async ra (''_rpc_reply.'' @ i) (Some (effective_timeout timeout k))) (\<lambda>response_msg.
       case rpc_finish cd meth response_msg of Inl e \<Rightarrow> py_raise e | Inr v \<Rightarrow> py_ret v))"

section \<open>Jobs for the pool of the event loop\<close>

text \<open>\<open>await loop.run_in_executor(None, job)\<close>: a thread runs the job after \<open>delay\<close>, the others' steps come first.\<close>

definition pool_job :: "real \<Rightarrow> ('s, 'a) py \<Rightarrow> ('s timed, 'a) py" where
  "pool_job delay job = (\<lambda>T.
     case elapse (tm_now T + delay) (tm_future T) (tm_state T) of
       (fut, s) \<Rightarrow> (case job s of (r, s') \<Rightarrow> (r, \<lparr>tm_now = tm_now T + delay, tm_future = fut, tm_state = s'\<rparr>)))"

definition handle_request_async :: "real \<Rightarrow> ('h, 'f, 's) rpc_ctx \<Rightarrow> message \<Rightarrow> ('s timed, unit) py" where
  "handle_request_async delay R msg = pool_job delay (handle_request R msg)"

definition executor_submit_async :: "real \<Rightarrow> ('f, 's) ex_ctx \<Rightarrow> 'f \<Rightarrow> pyval list \<Rightarrow> kwargs \<Rightarrow> ('s timed, string) py" where
  "executor_submit_async delay x func args kw = pool_job delay (executor_submit x func args kw)"

definition executor_result_async :: "real \<Rightarrow> ('f, 's) ex_ctx \<Rightarrow> string \<Rightarrow> real option \<Rightarrow> ('s timed, task_result waiting) py" where
  "executor_result_async delay x task_id timeout = pool_job delay (\<lambda>s. (executor_result task_id timeout (x_get x s), s))"

definition executor_map_async ::
  "real \<Rightarrow> ('f, 's) ex_ctx \<Rightarrow> 'f \<Rightarrow> pyval list \<Rightarrow> real option \<Rightarrow> ('s timed, task_result waiting list) py" where
  "executor_map_async delay x func items timeout =
     py_bind (py_map (\<lambda>item. executor_submit_async delay x func [item] []) items) (\<lambda>task_ids.
       py_map (\<lambda>tid. executor_result_async delay x tid timeout) task_ids)"

text \<open>Pool jobs of a program in which nothing else happens do what the statements do.\<close>

definition alone :: "('s timed, 'a) py \<Rightarrow> ('s, 'a) py \<Rightarrow> bool" where
  "alone tm m \<longleftrightarrow> (\<forall>T. tm_future T = [] \<longrightarrow> (\<exists>now. tm T = (fst (m (tm_state T)), \<lparr>tm_now = now, tm_future = [], tm_state = snd (m (tm_state T))\<rparr>)))"

lemma aloneI:
  "(\<And>t s. \<exists>now. tm \<lparr>tm_now = t, tm_future = [], tm_state = s\<rparr> = (fst (m s), \<lparr>tm_now = now, tm_future = [], tm_state = snd (m s)\<rparr>)) \<Longrightarrow> alone tm m"
  unfolding alone_def by (metis timed.cases timed.select_convs(2,3) timed.surjective)

lemma aloneD:
  assumes "alone tm m" "m s = (r, s')"
  obtains now where "tm \<lparr>tm_now = t, tm_future = [], tm_state = s\<rparr> = (r, \<lparr>tm_now = now, tm_future = [], tm_state = s'\<rparr>)"
  using assms(1)[unfolded alone_def, rule_format, of "\<lparr>tm_now = t, tm_future = [], tm_state = s\<rparr>"] assms(2) by auto

lemma alone_pool_job: "alone (pool_job delay m) m"
  by (auto simp: alone_def pool_job_def split: prod.split)

lemma alone_bind:
  assumes "alone tm m" "\<And>x. alone (tk x) (k x)"
  shows "alone (py_bind tm tk) (py_bind m k)"
proof (rule aloneI)
  fix t s
  obtain r s1 where m: "m s = (r, s1)" by fastforce
  obtain now where n: "tm \<lparr>tm_now = t, tm_future = [], tm_state = s\<rparr> = (r, \<lparr>tm_now = now, tm_future = [], tm_state = s1\<rparr>)"
    using aloneD[OF assms(1) m] by blast
  show "\<exists>now. py_bind tm tk \<lparr>tm_now = t, tm_future = [], tm_state = s\<rparr> =
      (fst (py_bind m k s), \<lparr>tm_now = now, tm_future = [], tm_state = snd (py_bind m k s)\<rparr>)"
  proof (cases r)
    case (Inr x)
    obtain now' where "tk x \<lparr>tm_now = now, tm_future = [], tm_state = s1\<rparr> =
        (fst (k x s1), \<lparr>tm_now = now', tm_future = [], tm_state = snd (k x s1)\<rparr>)"
      by (rule aloneD[OF assms(2)[of x], of s1 "fst (k x s1)" "snd (k x s1)" now]) simp_all
    with Inr m n show ?thesis by (simp add: py_simps)
  qed (use m n in \<open>simp add: py_simps\<close>)
qed

lemma py_map_Cons: "py_map g (x # xs) = py_bind (g x) (\<lambda>y. py_bind (py_map g xs) (\<lambda>ys. py_ret (y # ys)))"
  by (rule ext) (simp add: py_simps split: prod.split sum.split)

lemma alone_ret: "alone (py_ret v) (py_ret v)"
  by (rule aloneI) (simp add: py_ret_def)

lemma alone_map: "(\<And>x. alone (tf x) (f x)) \<Longrightarrow> alone (py_map tf xs) (py_map f xs)"
proof (induction xs)
  case (Cons x xs)
  then show ?case unfolding py_map_Cons by (intro alone_bind alone_ret) simp_all
qed (auto intro!: aloneI)

text \<open>\<open>map_async\<close> gives what \<open>map\<close> gives.\<close>

lemma map_async_agrees: "alone (executor_map_async delay x func items timeout) (executor_map x func items timeout)"
  unfolding executor_map_async_def executor_map_def executor_submit_async_def executor_result_async_def
  by (intro alone_bind alone_map alone_pool_job)

section \<open>A call whose reply comes later\<close>

context fifo_topic
begin

text \<open>
  The reply comes at the time \<open>a\<close>, after the call has sent its request. The pool takes the job of waiting
  for it after \<open>delay\<close>; the reply is then there at the later of the two times.
\<close>

lemma call_async_arrival:
  fixes c :: "('h, 's) mq_ctx"
  assumes "rpc_post c cd k meth args timeout kw (tm_state T) = (Inr i, s)" "topic = ''_rpc_reply.'' @ i" "contents s = []" "room 1 s"
    and "tm_future T = [(a, put reply)]" "m_topic reply = topic" "0 \<le> delay" "x = effective_timeout timeout k"
    and "ra topic (Some x) (T\<lparr>tm_state := s\<rparr>) = wait_for_get pop delay (Some x) (T\<lparr>tm_state := s\<rparr>)"
    and "v = max (tm_now T + delay) a - tm_now T"
  shows "\<exists>T'. rpc_call_async c ra cd k meth args timeout kw T =
      (if v < delay + 1 \<and> v < x then rpc_finish cd meth (Some reply) else Inl (rpc_timed_out meth), T') \<and>
    contents (in_the_end T') = (if v < delay + 1 \<and> delay < x then [] else [reply])"
proof -
  let ?T = "T\<lparr>tm_state := s\<rparr>"
  obtain T' where T': "wait_for_get pop delay (Some x) ?T = (Inr (if v < delay + 1 \<and> v < x then Some reply else None), T')"
    "contents (in_the_end T') = (if v < delay + 1 \<and> delay < x then [] else [reply])"
    using wait_for_arrivals[of "[(a, reply)]" ?T delay "Some x"] assms(3-7,10)
    by (auto simp: first_message_def in_time_def arrivals_def algebra_simps)
  have "rpc_call_async c ra cd k meth args timeout kw T =
      (if v < delay + 1 \<and> v < x then rpc_finish cd meth (Some reply) else Inl (rpc_timed_out meth), T')"
    using assms(1,2,8,9) T'(1)
    by (simp add: rpc_call_async_def instantly_def mq_receive_async_def py_simps rpc_finish_def split: sum.split)
  with T'(2) show ?thesis by blast
qed

end



end
