(* ===== verification/Remote_Queue.thy ===== *)
theory Remote_Queue
  imports Message_Queue Tcp_Transport
begin

text \<open>
  \<open>src/eventforge/remote.py\<close>: the switchboard of peer links. A link is a \<open>TCPClientTransport\<close> with the
  \<open>MessageQueue\<close> on it, named by a value of type \<open>'k\<close>; the peers' queues are queues of \<open>Message_Queue\<close>. The
  second part puts the switchboard on TCP links whose wires can be read, and proves that links are never
  leaked and that a broadcast reaches every peer.
\<close>

section \<open>State\<close>

record 'k remote_queue =
  rq_node_id :: string
  rq_peers :: "(string, 'k) dict"
  rq_transports :: "(string, 'k) dict"

record ('h, 'k, 's) rq_ctx =
  rx_get :: "'s \<Rightarrow> 'k remote_queue"
  rx_upd :: "('k remote_queue \<Rightarrow> 'k remote_queue) \<Rightarrow> 's \<Rightarrow> 's"
  rx_open :: "string \<Rightarrow> int \<Rightarrow> ('s, 'k) py"
  rx_shut :: "'k \<Rightarrow> ('s, unit) py"
  rx_queue :: "'k \<Rightarrow> ('h, 's) mq_ctx"
  rx_local :: "('h, 's) mq_ctx option"

definition rq_init :: "string \<Rightarrow> 'k remote_queue" where
  "rq_init node_id = \<lparr>rq_node_id = node_id, rq_peers = [], rq_transports = []\<rparr>"

definition rq_peer_names :: "'k remote_queue \<Rightarrow> string list" where
  "rq_peer_names q = map fst (rq_peers q)"

section \<open>Operations\<close>

text \<open>\<open>connect\<close>: the link is opened first; one it replaces is closed last.\<close>

definition rq_connect :: "('h, 'k, 's) rq_ctx \<Rightarrow> string \<Rightarrow> string \<Rightarrow> int \<Rightarrow> ('s, unit) py" where
  "rq_connect X node_id host port =
     py_bind (rx_open X host port) (\<lambda>transport.
     py_bind (py_gets (\<lambda>s. dict_get (rq_transports (rx_get X s)) node_id)) (\<lambda>old.
     py_seq (py_modify (rx_upd X (\<lambda>q. q\<lparr>rq_transports := dict_set node_id transport (dict_del node_id (rq_transports q)),
        rq_peers := dict_set node_id transport (rq_peers q)\<rparr>)))
       (case old of None \<Rightarrow> py_ret () | Some k \<Rightarrow> rx_shut X k)))"

definition rq_disconnect :: "('h, 'k, 's) rq_ctx \<Rightarrow> string \<Rightarrow> ('s, bool) py" where
  "rq_disconnect X node_id =
     py_bind (py_gets (\<lambda>s. dict_get (rq_transports (rx_get X s)) node_id)) (\<lambda>transport.
     py_seq (py_modify (rx_upd X (\<lambda>q. q\<lparr>rq_peers := dict_del node_id (rq_peers q), rq_transports := dict_del node_id (rq_transports q)\<rparr>)))
       (case transport of None \<Rightarrow> py_ret False | Some k \<Rightarrow> py_seq (rx_shut X k) (py_ret True)))"

text \<open>\<open>str\<close> of a \<open>KeyError\<close> is the \<open>repr\<close> of its argument.\<close>

definition not_connected :: "string \<Rightarrow> pyexn" where
  "not_connected node_id = Exception ''KeyError'' (py_repr (''not connected to node '' @ py_repr node_id))"

definition rq_send :: "('h, 'k, 's) rq_ctx \<Rightarrow> string \<Rightarrow> string \<Rightarrow> pyval \<Rightarrow> kwargs \<Rightarrow> ('s, string) py" where
  "rq_send X node_id topic payload headers =
     py_bind (py_gets (\<lambda>s. dict_get (rq_peers (rx_get X s)) node_id)) (\<lambda>peer.
       case peer of None \<Rightarrow> py_raise (not_connected node_id) | Some k \<Rightarrow> mq_publish (rx_queue X k) topic payload headers)"

definition rq_publish_to :: "('h, 'k, 's) rq_ctx \<Rightarrow> string \<Rightarrow> pyval \<Rightarrow> kwargs \<Rightarrow> string \<times> 'k \<Rightarrow> ('s, string \<times> string) py" where
  "rq_publish_to X topic payload headers = (\<lambda>(node_id, k).
     py_bind (mq_publish (rx_queue X k) topic payload headers) (\<lambda>i. py_ret (node_id, i)))"

definition rq_broadcast :: "('h, 'k, 's) rq_ctx \<Rightarrow> string \<Rightarrow> pyval \<Rightarrow> kwargs \<Rightarrow> ('s, (string, string) dict) py" where
  "rq_broadcast X topic payload headers =
     py_bind (py_gets (\<lambda>s. rq_peers (rx_get X s))) (py_map (rq_publish_to X topic payload headers))"

definition no_local_queue :: pyexn where
  "no_local_queue = Exception ''RuntimeError'' (''this RemoteQueue was created without a local queue; '' @
     ''pass RemoteQueue(node_id, local=MessageQueue(...)) to receive.'')"

definition rq_subscribe :: "('h, 'k, 's) rq_ctx \<Rightarrow> string \<Rightarrow> 'h \<Rightarrow> ('s, string) py" where
  "rq_subscribe X topic handler = (case rx_local X of None \<Rightarrow> py_raise no_local_queue | Some c \<Rightarrow> mq_subscribe c topic handler)"

definition rq_on :: "('h, 'k, 's) rq_ctx \<Rightarrow> string \<Rightarrow> 'h \<Rightarrow> ('s, 'h) py" where
  "rq_on X topic handler = py_seq (rq_subscribe X topic handler) (py_ret handler)"

definition rq_close :: "('h, 'k, 's) rq_ctx \<Rightarrow> ('s, unit) py" where
  "rq_close X =
     py_bind (py_gets (\<lambda>s. map snd (rq_transports (rx_get X s)))) (\<lambda>transports.
     py_seq (py_modify (rx_upd X (\<lambda>q. q\<lparr>rq_transports := [], rq_peers := []\<rparr>)))
     (py_seq (py_for (rx_shut X) transports)
       (case rx_local X of None \<Rightarrow> py_ret () | Some c \<Rightarrow> mq_close c)))"

section \<open>On TCP links\<close>

text \<open>
  A program whose links are TCP connections numbered as they are made: which are open, and the bytes
  written to each. \<open>up\<close> tells which addresses accept connections, \<open>enc\<close> encodes messages. Publishing on a
  link frames the message and writes it; on a closed socket the write fails.
\<close>

record link_world =
  lw_rq :: "nat remote_queue"
  lw_open :: "nat set"
  lw_wires :: "nat \<Rightarrow> byte list"
  lw_next :: nat
  lw_drawn :: nat

definition lw_sendall :: "nat \<Rightarrow> byte list \<Rightarrow> (link_world, unit) py" where
  "lw_sendall k bytes = (\<lambda>s. if k \<in> lw_open s then (Inr (), s\<lparr>lw_wires := (lw_wires s)(k := lw_wires s k @ bytes)\<rparr>)
     else (Inl (Exception ''OSError'' ''[Errno 9] Bad file descriptor''), s))"

definition lw_ops :: "(message \<Rightarrow> pyexn + byte list) \<Rightarrow> nat \<Rightarrow> (nat, link_world) transport_ops" where
  "lw_ops enc k = \<lparr>t_send = (\<lambda>m s. case tcl_send enc lw_sendall m (tcl_init\<lparr>tcl_socket := Some k, tcl_running := True\<rparr> :: (unit, nat) tcp_client, s) of
        (r, (t, s')) \<Rightarrow> (r, s')),
     t_receive = (\<lambda>_ _. py_ret Blocked), t_subscribe = (\<lambda>_ _. py_ret []), t_unsubscribe = (\<lambda>_. py_ret False), t_close = py_ret ()\<rparr>"

definition lw_queue :: "(message \<Rightarrow> pyexn + byte list) \<Rightarrow> (nat \<Rightarrow> string) \<Rightarrow> nat \<Rightarrow> (unit, link_world) mq_ctx" where
  "lw_queue enc uuid4 k =
     \<lparr>c_env = \<lparr>call = (\<lambda>_ _. py_ret PNone), submit = (\<lambda>_ _. py_ret ()), load_of = (\<lambda>_. py_ret 0),
        obj = (\<lambda>_. \<lparr>o_nodes = (\<lambda>_. None), o_eventfuls = (\<lambda>_. eventful_new None None None), o_rr_idx = (\<lambda>_. 0), o_class_subscribers = []\<rparr>),
        upd_obj = (\<lambda>_ s. s)\<rparr>,
      c_ops = lw_ops enc k, c_mq = (\<lambda>_. mq_init), c_upd_mq = (\<lambda>_ s. s), c_drawn = lw_drawn,
      c_tick = (\<lambda>s. s\<lparr>lw_drawn := Suc (lw_drawn s)\<rparr>), c_uuid = uuid4, c_clock = (\<lambda>_. 0)\<rparr>"

definition lw_ctx ::
  "(message \<Rightarrow> pyexn + byte list) \<Rightarrow> (nat \<Rightarrow> string) \<Rightarrow> (string \<Rightarrow> int \<Rightarrow> bool) \<Rightarrow> (unit, nat, link_world) rq_ctx" where
  "lw_ctx enc uuid4 up =
     \<lparr>rx_get = lw_rq, rx_upd = (\<lambda>g s. s\<lparr>lw_rq := g (lw_rq s)\<rparr>),
      rx_open = (\<lambda>host port s.
        if up host port then (Inr (lw_next s), s\<lparr>lw_open := insert (lw_next s) (lw_open s), lw_next := Suc (lw_next s)\<rparr>)
        else (Inl (Exception ''ConnectionRefusedError'' ''[Errno 111] Connection refused''), s)),
      rx_shut = (\<lambda>k s. (Inr (), s\<lparr>lw_open := lw_open s - {k}\<rparr>)),
      rx_queue = lw_queue enc uuid4, rx_local = None\<rparr>"

lemma lw_ctx_simps [simp]:
  "rx_get (lw_ctx enc uuid4 up) = lw_rq" "rx_upd (lw_ctx enc uuid4 up) = (\<lambda>g s. s\<lparr>lw_rq := g (lw_rq s)\<rparr>)"
  "rx_shut (lw_ctx enc uuid4 up) = (\<lambda>k s. (Inr (), s\<lparr>lw_open := lw_open s - {k}\<rparr>))"
  "rx_queue (lw_ctx enc uuid4 up) = lw_queue enc uuid4" "rx_local (lw_ctx enc uuid4 up) = None"
  "rx_open (lw_ctx enc uuid4 up) = (\<lambda>host port s.
        if up host port then (Inr (lw_next s), s\<lparr>lw_open := insert (lw_next s) (lw_open s), lw_next := Suc (lw_next s)\<rparr>)
        else (Inl (Exception ''ConnectionRefusedError'' ''[Errno 111] Connection refused''), s))"
  by (simp_all add: lw_ctx_def)

text \<open>
  The links in the table are exactly the open ones, each under one node, and the table of queues names the
  same links.
\<close>

definition links_owned :: "link_world \<Rightarrow> bool" where
  "links_owned s \<longleftrightarrow> dict_ok (rq_peers (lw_rq s)) \<and> dict_ok (rq_transports (lw_rq s)) \<and>
     (\<forall>n. dict_get (rq_peers (lw_rq s)) n = dict_get (rq_transports (lw_rq s)) n) \<and>
     distinct (map snd (rq_transports (lw_rq s))) \<and> lw_open s = snd ` set (rq_transports (lw_rq s)) \<and>
     (\<forall>k \<in> lw_open s. k < lw_next s)"

lemma del_values:
  assumes "dict_ok d" "distinct (map snd d)"
  shows "dict_get d n = Some k \<Longrightarrow> snd ` set (dict_del n d) = snd ` set d - {k}" "distinct (map snd (dict_del n d))"
proof -
  show "distinct (map snd (dict_del n d))" using assms(2) by (simp add: dict_del_filter distinct_map_filter)
  assume n: "dict_get d n = Some k"
  have "j = n" if "(j, k) \<in> set d" for j
    by (rule dict_value_inj[OF assms(2) _ n]) (simp add: map_of_is_SomeI[OF assms(1) that])
  moreover have "v = k" if "(n, v) \<in> set d" for v using map_of_is_SomeI[OF assms(1) that] n by simp
  ultimately have "x \<in> set d \<Longrightarrow> fst x \<noteq> n \<longleftrightarrow> snd x \<noteq> k" for x by (cases x) auto
  moreover have "set (dict_del n d) = {x \<in> set d. fst x \<noteq> n}" by (auto simp: dict_del_filter)
  ultimately show "snd ` set (dict_del n d) = snd ` set d - {k}" by blast
qed

lemma owned_del:
  assumes "links_owned s" "dict_get (rq_transports (lw_rq s)) n = Some k"
    and "rq_peers (lw_rq s') = dict_del n (rq_peers (lw_rq s))" "rq_transports (lw_rq s') = dict_del n (rq_transports (lw_rq s))"
    and "lw_open s' = lw_open s - {k}" "lw_next s' = lw_next s"
  shows "links_owned s'"
  using assms del_values[of "rq_transports (lw_rq s)"] by (auto simp: links_owned_def)

lemma owned_set:
  assumes "links_owned s" "dict_get (rq_transports (lw_rq s)) n = None"
    and "dict_ok (rq_peers (lw_rq s'))" "dict_get (rq_peers (lw_rq s')) = (dict_get (rq_peers (lw_rq s)))(n \<mapsto> lw_next s)"
    and "rq_transports (lw_rq s') = dict_set n (lw_next s) (rq_transports (lw_rq s))"
    and "lw_open s' = insert (lw_next s) (lw_open s)" "lw_next s' = Suc (lw_next s)"
  shows "links_owned s'"
proof -
  have "lw_next s \<notin> snd ` set (rq_transports (lw_rq s))" using assms(1) unfolding links_owned_def by blast
  moreover have "\<forall>j. dict_get (rq_peers (lw_rq s')) j = dict_get (rq_transports (lw_rq s')) j"
    using assms(1) by (simp add: assms(4,5) links_owned_def)
  moreover have "dict_ok (rq_transports (lw_rq s'))" using assms(1) by (simp add: assms(5) links_owned_def)
  ultimately show ?thesis
    using assms by (auto simp: links_owned_def dict_set_fresh less_Suc_eq)
qed

lemma connect_owned:
  assumes "links_owned s"
  shows "links_owned (snd (rq_connect (lw_ctx enc uuid4 up) n host port s))"
proof (cases "up host port")
  case True
  let ?k = "lw_next s" and ?q = "lw_rq s"
  have ok: "dict_ok (rq_peers ?q)" using assms by (simp add: links_owned_def)
  show ?thesis
  proof (cases "dict_get (rq_transports ?q) n")
    case None
    show ?thesis
      by (rule owned_set[OF assms None]) (simp_all add: True None ok rq_connect_def py_simps dict_del_absent update_conv')
  next
    case (Some o')
    define s1 where "s1 = s\<lparr>lw_rq := ?q\<lparr>rq_peers := dict_del n (rq_peers ?q), rq_transports := dict_del n (rq_transports ?q)\<rparr>, lw_open := lw_open s - {o'}\<rparr>"
    have s1: "links_owned s1" by (rule owned_del[OF assms Some]) (simp_all add: s1_def)
    have "o' \<in> snd ` set (rq_transports ?q)" using map_of_SomeD[OF Some] by force
    then have "o' \<noteq> ?k" using assms unfolding links_owned_def by blast
    then show ?thesis
      by (intro owned_set[OF s1, of n]) (auto simp: True Some ok s1_def rq_connect_def py_simps update_conv' delete_conv')
  qed
qed (use assms in \<open>simp add: rq_connect_def py_simps\<close>)

lemma disconnect_owned:
  assumes "links_owned s"
  shows "links_owned (snd (rq_disconnect (lw_ctx enc uuid4 up) n s))"
proof (cases "dict_get (rq_transports (lw_rq s)) n")
  case None
  then have "dict_get (rq_peers (lw_rq s)) n = None" using assms by (simp add: links_owned_def)
  with None assms show ?thesis by (simp add: rq_disconnect_def py_simps dict_del_absent)
next
  case (Some k)
  show ?thesis by (rule owned_del[OF assms Some]) (simp_all add: Some rq_disconnect_def py_simps)
qed

text \<open>Publishing touches the wires and the identifier counter only.\<close>

definition link_part :: "link_world \<Rightarrow> nat remote_queue \<times> nat set \<times> nat" where
  "link_part s = (lw_rq s, lw_open s, lw_next s)"

lemma owned_link_part: "link_part s' = link_part s \<Longrightarrow> links_owned s' = links_owned s"
  by (simp add: link_part_def links_owned_def)

lemma publish_keeps [keeps]: "py_keeps link_part (mq_publish (lw_queue enc uuid4 k) topic payload headers)"
proof -
  have "py_keeps link_part (lw_sendall k bytes)" for bytes
    by (simp add: py_keeps_def lw_sendall_def link_part_def)
  then have "py_keeps link_part (t_send (lw_ops enc k) m)" for m
    by (auto simp: py_keeps_def lw_ops_def tcl_send_def send_msg_def py_simps link_part_def split: sum.split prod.split) (metis snd_conv)+
  then show ?thesis
    unfolding mq_publish_def mq_message_def mq_uuid_def lw_queue_def
    by (auto intro!: keeps simp: link_part_def)
qed

lemma send_keeps: "py_keeps link_part (rq_send (lw_ctx enc uuid4 up) n topic payload headers)"
  by (auto simp: rq_send_def intro!: keeps split: option.split)

lemma broadcast_keeps: "py_keeps link_part (rq_broadcast (lw_ctx enc uuid4 up) topic payload headers)"
  by (auto simp: rq_broadcast_def rq_publish_to_def intro!: keeps split: prod.split)

section \<open>No link is leaked\<close>

text \<open>The calls of a program on its switchboard, in any order; each may return or raise.\<close>

inductive link_step :: "(unit, nat, link_world) rq_ctx \<Rightarrow> link_world \<Rightarrow> link_world \<Rightarrow> bool" for X where
  connect: "link_step X s (snd (rq_connect X n host port s))"
| disconnect: "link_step X s (snd (rq_disconnect X n s))"
| send: "link_step X s (snd (rq_send X n topic payload headers s))"
| broadcast: "link_step X s (snd (rq_broadcast X topic payload headers s))"

inductive_cases link_stepE: "link_step X s s'"

lemma step_owned: "link_step (lw_ctx enc uuid4 up) s s' \<Longrightarrow> links_owned s \<Longrightarrow> links_owned s'"
  by (elim link_stepE)
    (auto simp: connect_owned disconnect_owned
      owned_link_part[OF send_keeps[unfolded py_keeps_def, rule_format]] owned_link_part[OF broadcast_keeps[unfolded py_keeps_def, rule_format]])

definition lw_init :: "string \<Rightarrow> link_world" where
  "lw_init node_id = \<lparr>lw_rq = rq_init node_id, lw_open = {}, lw_wires = (\<lambda>_. []), lw_next = 0, lw_drawn = 0\<rparr>"

lemma reachable_owned: "(link_step (lw_ctx enc uuid4 up))\<^sup>*\<^sup>* (lw_init n) s \<Longrightarrow> links_owned s"
proof (induction rule: rtranclp_induct)
  case base
  show ?case by (simp add: links_owned_def lw_init_def rq_init_def)
next
  case (step s s')
  show ?case by (rule step_owned[OF step(2,3)])
qed

lemma close_all: "py_for (\<lambda>k s. (Inr (), s\<lparr>lw_open := lw_open s - {k}\<rparr>)) ks s = (Inr (), s\<lparr>lw_open := lw_open s - set ks\<rparr>)"
  by (induction ks arbitrary: s) (simp_all add: Diff_insert2[symmetric])

text \<open>
  C16. The switchboard owns its links. After any calls of \<open>connect\<close> (to reachable and unreachable addresses,
  to new and to known nodes), \<open>disconnect\<close>, \<open>send\<close> and \<open>broadcast\<close>, the open TCP links are exactly those in its
  table, one per node, and the peers' queues use them; so \<open>close\<close> leaves no link open and no peer behind.
\<close>

theorem remote_links_owned:
  assumes "(link_step (lw_ctx enc uuid4 up))\<^sup>*\<^sup>* (lw_init n) s"
  shows "links_owned s \<and>
    (\<exists>s'. rq_close (lw_ctx enc uuid4 up) s = (Inr (), s') \<and> lw_open s' = {} \<and> rq_peer_names (lw_rq s') = [])"
proof -
  have owned: "links_owned s" by (rule reachable_owned[OF assms])
  then have "lw_open s = set (map snd (rq_transports (lw_rq s)))" by (simp add: links_owned_def)
  with owned show ?thesis by (simp add: rq_close_def py_simps close_all rq_peer_names_def)
qed

theorem remote_links_owned_witness:
  "links_owned (snd (rq_connect (lw_ctx (\<lambda>_. Inr []) demo_ids (\<lambda>_ _. True)) ''b'' ''h'' 2
     (snd (rq_connect (lw_ctx (\<lambda>_. Inr []) demo_ids (\<lambda>_ _. True)) ''b'' ''h'' 1 (lw_init ''a'')))))"
proof -
  let ?X = "lw_ctx (\<lambda>_. Inr []) demo_ids (\<lambda>_ _. True)"
  have "(link_step ?X)\<^sup>*\<^sup>* (lw_init ''a'') (snd (rq_connect ?X ''b'' ''h'' 2 (snd (rq_connect ?X ''b'' ''h'' 1 (lw_init ''a'')))))"
    by (meson link_step.connect r_into_rtranclp rtranclp.rtrancl_into_rtrancl)
  from remote_links_owned[OF this] show ?thesis by blast
qed

section \<open>A broadcast reaches every peer\<close>

text \<open>A message the switchboard would send.\<close>

definition outgoing :: "string \<Rightarrow> pyval \<Rightarrow> kwargs \<Rightarrow> string \<Rightarrow> message" where
  "outgoing topic payload headers i = \<lparr>m_id = i, m_topic = topic, m_payload = payload, m_headers = headers, m_timestamp = 0,
     m_reply_to = None, m_correlation_id = None\<rparr>"

lemma publish_link:
  assumes "k \<in> lw_open s" "fits enc (outgoing topic payload headers (uuid4 (lw_drawn s)))"
  defines "m \<equiv> outgoing topic payload headers (uuid4 (lw_drawn s))"
  shows "mq_publish (lw_queue enc uuid4 k) topic payload headers s =
    (Inr (m_id m), s\<lparr>lw_drawn := Suc (lw_drawn s), lw_wires := (lw_wires s)(k := lw_wires s k @ wire_frame enc m)\<rparr>)"
proof -
  obtain d where d: "enc m = Inr d" "frame d = Inr (wire_frame enc m)"
    using fits_frame[OF assms(2)] unfolding m_def by blast
  have "mq_publish (lw_queue enc uuid4 k) topic payload headers s =
      (case t_send (lw_ops enc k) m (s\<lparr>lw_drawn := Suc (lw_drawn s)\<rparr>) of (Inl e, s') \<Rightarrow> (Inl e, s') | (Inr _, s') \<Rightarrow> (Inr (m_id m), s'))"
    by (simp add: mq_publish_def mq_message_def mq_uuid_def lw_queue_def py_simps m_def outgoing_def split: prod.split sum.split)
  also have "t_send (lw_ops enc k) m (s\<lparr>lw_drawn := Suc (lw_drawn s)\<rparr>) =
      (Inr (), s\<lparr>lw_drawn := Suc (lw_drawn s), lw_wires := (lw_wires s)(k := lw_wires s k @ wire_frame enc m)\<rparr>)"
    using d assms(1) by (simp add: lw_ops_def tcl_send_def send_msg_def lw_sendall_def)
  finally show ?thesis by simp
qed

lemma broadcast_peers:
  assumes "distinct (map snd peers)" "snd ` set peers \<subseteq> lw_open s" "\<And>i. fits enc (outgoing topic payload headers i)"
  shows "\<exists>s'. py_map (rq_publish_to (lw_ctx enc uuid4 up) topic payload headers) peers s =
      (Inr (zip (map fst peers) (map uuid4 [lw_drawn s..<lw_drawn s + length peers])), s') \<and>
    (\<forall>j < length peers. lw_wires s' (snd (peers ! j)) =
       lw_wires s (snd (peers ! j)) @ wire_frame enc (outgoing topic payload headers (uuid4 (lw_drawn s + j)))) \<and>
    (\<forall>k. k \<notin> snd ` set peers \<longrightarrow> lw_wires s' k = lw_wires s k)"
  using assms(1,2)
proof (induction peers arbitrary: s)
  case (Cons p peers)
  obtain n k where p: "p = (n, k)" by fastforce
  define m where "m = outgoing topic payload headers (uuid4 (lw_drawn s))"
  define s1 where "s1 = s\<lparr>lw_drawn := Suc (lw_drawn s), lw_wires := (lw_wires s)(k := lw_wires s k @ wire_frame enc m)\<rparr>"
  have one: "rq_publish_to (lw_ctx enc uuid4 up) topic payload headers p s = (Inr (n, uuid4 (lw_drawn s)), s1)"
    using publish_link[of k s enc topic payload headers uuid4] Cons.prems(2) assms(3)
    by (simp add: rq_publish_to_def p py_simps s1_def m_def) (simp add: outgoing_def)
  have "snd ` set peers \<subseteq> lw_open s1" "distinct (map snd peers)" "k \<notin> snd ` set peers"
    using Cons.prems p by (auto simp: s1_def)
  with Cons.IH[of s1] obtain s' where
    s': "py_map (rq_publish_to (lw_ctx enc uuid4 up) topic payload headers) peers s1 =
      (Inr (zip (map fst peers) (map uuid4 [lw_drawn s1..<lw_drawn s1 + length peers])), s')"
    "\<forall>j < length peers. lw_wires s' (snd (peers ! j)) =
       lw_wires s1 (snd (peers ! j)) @ wire_frame enc (outgoing topic payload headers (uuid4 (lw_drawn s1 + j)))"
    "\<forall>k. k \<notin> snd ` set peers \<longrightarrow> lw_wires s' k = lw_wires s1 k" by blast
  have "lw_wires s' (snd ((p # peers) ! j)) = lw_wires s (snd ((p # peers) ! j)) @
      wire_frame enc (outgoing topic payload headers (uuid4 (lw_drawn s + j)))" if "j < length (p # peers)" for j
  proof (cases j)
    case 0
    with s'(3) \<open>k \<notin> snd ` set peers\<close> show ?thesis by (simp add: p s1_def m_def)
  next
    case (Suc i)
    with that have i: "i < length peers" by simp
    then have "snd (peers ! i) \<noteq> k" using \<open>k \<notin> snd ` set peers\<close> by (metis image_eqI nth_mem)
    with s'(2) i Suc show ?thesis by (simp add: s1_def)
  qed
  moreover have "[lw_drawn s..<lw_drawn s + length (p # peers)] = lw_drawn s # [lw_drawn s1..<lw_drawn s1 + length peers]"
    by (simp add: s1_def upt_conv_Cons del: upt_Suc)
  ultimately show ?case
    using one s'(1,3) p by (intro exI[of _ s']) (auto simp: s1_def)
qed simp

text \<open>
  Broadcast. In every state a program can reach, a broadcast of a message that encodes to a frame returns,
  for every connected peer and nobody else, the id of the message sent to it; that message, framed, was
  appended to the peer's wire, and no other wire changed.
\<close>

theorem broadcast_reaches_every_peer:
  assumes "(link_step (lw_ctx enc uuid4 up))\<^sup>*\<^sup>* (lw_init n) s" and "\<And>i. fits enc (outgoing topic payload headers i)"
  shows "\<exists>ids s'. rq_broadcast (lw_ctx enc uuid4 up) topic payload headers s = (Inr ids, s') \<and>
    map fst ids = rq_peer_names (lw_rq s) \<and>
    (\<forall>j < length (rq_peers (lw_rq s)). case rq_peers (lw_rq s) ! j of (node, k) \<Rightarrow>
       lw_wires s' k = lw_wires s k @ wire_frame enc (outgoing topic payload headers (snd (ids ! j)))) \<and>
    (\<forall>k. k \<notin> lw_open s \<longrightarrow> lw_wires s' k = lw_wires s k)"
proof -
  let ?ps = "rq_peers (lw_rq s)"
  have owned: "links_owned s" by (rule reachable_owned[OF assms(1)])
  have perm: "set ?ps = set (rq_transports (lw_rq s))"
    using owned unfolding links_owned_def by (metis map_of_SomeD map_of_is_SomeI subset_antisym subrelI)
  have vals: "snd ` set ?ps = lw_open s" using owned perm by (simp add: links_owned_def)
  have "inj_on snd (set (rq_transports (lw_rq s)))" "distinct ?ps"
    using owned by (auto simp: links_owned_def distinct_map)
  then have "distinct (map snd ?ps)" by (simp add: distinct_map perm)
  from broadcast_peers[OF this _ assms(2), of s uuid4 up] vals obtain s' where
    s': "py_map (rq_publish_to (lw_ctx enc uuid4 up) topic payload headers) ?ps s =
      (Inr (zip (map fst ?ps) (map uuid4 [lw_drawn s..<lw_drawn s + length ?ps])), s')"
    "\<forall>j < length ?ps. lw_wires s' (snd (?ps ! j)) =
       lw_wires s (snd (?ps ! j)) @ wire_frame enc (outgoing topic payload headers (uuid4 (lw_drawn s + j)))"
    "\<forall>k. k \<notin> lw_open s \<longrightarrow> lw_wires s' k = lw_wires s k" by auto
  then show ?thesis
    by (intro exI[of _ "zip (map fst ?ps) (map uuid4 [lw_drawn s..<lw_drawn s + length ?ps])"] exI[of _ s'])
      (auto simp: rq_broadcast_def py_simps rq_peer_names_def)
qed

theorem broadcast_reaches_every_peer_witness:
  "\<exists>s ids s'. rq_broadcast (lw_ctx (\<lambda>_. Inr [7]) demo_ids (\<lambda>_ _. True)) ''t'' PNone [] s = (Inr ids, s') \<and>
     map fst ids = [''b'', ''c''] \<and> lw_wires s' 0 = [0, 0, 0, 1, 7] \<and> lw_wires s' 1 = [0, 0, 0, 1, 7]"
proof -
  let ?X = "lw_ctx (\<lambda>_. Inr [7]) demo_ids (\<lambda>_ _. True)"
  let ?s = "snd (rq_connect ?X ''c'' ''h'' 2 (snd (rq_connect ?X ''b'' ''h'' 1 (lw_init ''a''))))"
  have run: "(link_step ?X)\<^sup>*\<^sup>* (lw_init ''a'') ?s"
    by (meson link_step.connect r_into_rtranclp rtranclp.rtrancl_into_rtrancl)
  have f: "fits (\<lambda>_. Inr [7]) m" "wire_frame (\<lambda>_. Inr [7]) m = [0, 0, 0, 1, 7]" for m
    by (simp_all add: fits_def wire_frame_def frame_def pack_length_def)
  have st: "rq_peers (lw_rq ?s) = [(''b'', 0), (''c'', 1)]" "lw_wires ?s = (\<lambda>_. [])"
    by (simp_all add: rq_connect_def py_simps lw_init_def rq_init_def)
  from broadcast_reaches_every_peer[OF run f(1), of "''t''" PNone "[]"] obtain ids s' where
    b: "rq_broadcast ?X ''t'' PNone [] ?s = (Inr ids, s')" "map fst ids = [''b'', ''c'']"
    "\<forall>j < 2. case [(''b'', 0), (''c'', 1)] ! j of (node :: string, k) \<Rightarrow> lw_wires s' k = [0, 0, 0, 1, 7]"
    unfolding st rq_peer_names_def f(2) by auto
  from b(3)[rule_format, of 0] b(3)[rule_format, of 1] b(1,2) show ?thesis
    by (intro exI[of _ ?s] exI[of _ ids] exI[of _ s']) simp
qed

end
