(* ===== verification/Sessions.thy ===== *)
theory Sessions
  imports Async_Calls Remote_Queue
begin

text \<open>
  The \<open>with\<close> statements over the program's objects (\<open>__enter__\<close> and \<open>__exit__\<close> of \<open>Executor\<close>, \<open>MessageQueue\<close>,
  \<open>RPCServer\<close>, \<open>RemoteQueue\<close>), and the attribute syntax of the RPC clients (\<open>client.name(...)\<close>, their
  \<open>__getattr__\<close>).
\<close>

section \<open>With statements\<close>

text \<open>
  \<open>with ctx: body\<close> for an \<open>__exit__\<close> that returns \<open>None\<close>: it runs after the body however that ends, an exception of
  the body goes on, one of \<open>__exit__\<close> replaces it.
\<close>

definition py_with :: "('s, unit) py \<Rightarrow> ('s, unit) py \<Rightarrow> ('s, 'a) py \<Rightarrow> ('s, 'a) py" where
  "py_with enter leave body = py_seq enter (py_finally body leave)"

definition executor_session :: "('f, 's) ex_ctx \<Rightarrow> ('s, 'a) py \<Rightarrow> ('s, 'a) py" where
  "executor_session x = py_with (py_modify (x_upd x executor_start)) (py_modify (x_upd x executor_stop))"

definition queue_session :: "('h, 's) mq_ctx \<Rightarrow> ('s, 'a) py \<Rightarrow> ('s, 'a) py" where
  "queue_session c = py_with (py_ret ()) (mq_close c)"

definition server_session :: "('h, 'f, 's) rpc_ctx \<Rightarrow> ('s, 'a) py \<Rightarrow> ('s, 'a) py" where
  "server_session R = py_with (py_ret ()) (rpc_stop R)"

definition remote_session :: "('h, 'k, 's) rq_ctx \<Rightarrow> ('s, 'a) py \<Rightarrow> ('s, 'a) py" where
  "remote_session X = py_with (py_ret ()) (rq_close X)"

text \<open>What leaving establishes from every state the body can end in holds after the statement.\<close>

lemma py_with_after:
  assumes "enter s = (Inr (), s1)" "I s1" "\<And>t. I t \<Longrightarrow> I (snd (body t))" "\<And>t. I t \<Longrightarrow> Q (snd (leave t))"
  shows "Q (snd (py_with enter leave body s))"
  using assms(4)[OF assms(3)[OF assms(2)]]
  by (auto simp: py_with_def py_simps assms(1) split: prod.split sum.split)

text \<open>A statement whose \<open>__exit__\<close> returns ends as its body ended.\<close>

lemma py_with_outcome:
  assumes "enter s = (Inr (), s1)" "\<And>t. fst (leave t) = Inr ()"
  shows "fst (py_with enter leave body s) = fst (body s1)"
  using assms(2)[of "snd (body s1)"] by (auto simp: py_with_def py_simps assms(1) split: prod.split sum.split)

lemma executor_session_stops:
  assumes "\<And>g s. x_get x (x_upd x g s) = g (x_get x s)"
  shows "\<not> ex_running (x_get x (snd (executor_session x body s)))"
  unfolding executor_session_def
  by (rule py_with_after[where I = "\<lambda>_. True"]) (simp_all add: py_simps assms executor_stop_def)

section \<open>Remote queues close their links\<close>

lemma shut_all:
  "py_for (\<lambda>k s. (Inr (), s\<lparr>lw_open := lw_open s - {k}\<rparr>)) ks s = (Inr (), s\<lparr>lw_open := lw_open s - set ks\<rparr>)"
proof (induction ks arbitrary: s)
  case (Cons k ks)
  have "lw_open s - {k} - set ks = lw_open s - set (k # ks)" by auto
  then show ?case by (simp add: Cons.IH del: list.set)
qed simp

lemma remote_close:
  "rq_close (lw_ctx enc uuid4 up) s = (Inr (), s\<lparr>lw_rq := (lw_rq s)\<lparr>rq_transports := [], rq_peers := []\<rparr>,
     lw_open := lw_open s - snd ` set (rq_transports (lw_rq s))\<rparr>)"
  by (simp add: rq_close_def py_simps shut_all)


text \<open>The body of the example: two connections, the second refused.\<close>

definition demo_up :: "string \<Rightarrow> int \<Rightarrow> bool" where
  "demo_up host port = (host = ''gpu'')"

definition demo_links :: "(unit, nat, link_world) rq_ctx" where
  "demo_links = lw_ctx (\<lambda>_. Inr []) (\<lambda>_. ''u'') demo_up"

definition demo_body :: "(link_world, unit) py" where
  "demo_body = py_seq (rq_connect demo_links ''a'' ''gpu'' 9090) (rq_connect demo_links ''b'' ''tpu'' 9090)"

definition demo_world :: link_world where
  "demo_world = \<lparr>lw_rq = rq_init ''me'', lw_open = {}, lw_wires = (\<lambda>_. []), lw_next = 0, lw_drawn = 0\<rparr>"


section \<open>Calling by attribute\<close>

text \<open>
  \<open>client.name(*args, **kwargs)\<close> is \<open>client.call("name", *args, **kwargs)\<close>: a keyword \<open>timeout\<close> becomes the timeout of
  the call (\<open>as_timeout\<close> is what the request's validation makes of it), a keyword that names a parameter of \<open>call\<close>
  is a second value for it.
\<close>

definition multiple_values :: "string \<Rightarrow> pyexn" where
  "multiple_values name = Exception ''TypeError'' (''RPCClient.call() got multiple values for argument '' @ py_repr name)"

definition bind_call ::
  "(pyval \<Rightarrow> pyexn + real option) \<Rightarrow> (real option \<Rightarrow> kwargs \<Rightarrow> ('s, 'a) py) \<Rightarrow> kwargs \<Rightarrow> ('s, 'a) py" where
  "bind_call as_timeout clcall kw =
     (if dict_get kw ''self'' \<noteq> None then py_raise (multiple_values ''self'')
      else if dict_get kw ''method'' \<noteq> None then py_raise (multiple_values ''method'')
      else case dict_get kw ''timeout'' of
        None \<Rightarrow> clcall None kw
      | Some v \<Rightarrow> (case as_timeout v of Inl e \<Rightarrow> py_raise e | Inr timeout \<Rightarrow> clcall timeout (dict_del ''timeout'' kw)))"

definition rpc_getattr ::
  "(pyval \<Rightarrow> pyexn + real option) \<Rightarrow> ('h, 's) mq_ctx \<Rightarrow> rpc_codec \<Rightarrow> rpc_client \<Rightarrow> string \<Rightarrow> pyval list \<Rightarrow> kwargs \<Rightarrow> ('s, pyval waiting) py" where
  "rpc_getattr as_timeout c cd k name args kw = bind_call as_timeout (\<lambda>timeout kw'. rpc_call c cd k name args timeout kw') kw"

definition rr_getattr ::
  "(pyval \<Rightarrow> pyexn + real option) \<Rightarrow> ('c \<Rightarrow> string \<Rightarrow> pyval list \<Rightarrow> real option \<Rightarrow> kwargs \<Rightarrow> ('c rr_client \<times> 's, 'a) py) \<Rightarrow>
   string \<Rightarrow> pyval list \<Rightarrow> kwargs \<Rightarrow> ('c rr_client \<times> 's, 'a) py" where
  "rr_getattr as_timeout clcall name args kw =
     bind_call as_timeout (\<lambda>timeout kw'. rr_call (\<lambda>k. clcall k name args timeout kw')) kw"

text \<open>Without those keywords the two syntaxes agree.\<close>

lemma getattr_is_call:
  assumes "list_all (\<lambda>n. dict_get kw n = None) [''self'', ''method'', ''timeout'']"
  shows "rpc_getattr as_timeout c cd k name args kw = rpc_call c cd k name args None kw"
  using assms by (simp add: rpc_getattr_def bind_call_def)

end
