(* ===== verification/Logfire_Meter.thy ===== *)
theory Logfire_Meter
  imports EF_Types Topic_Match
begin

text \<open>
  \<open>src/eventforge/integrations/logfire.py\<close>: the meter that opens a Logfire span when a task starts and closes
  it when the task succeeds or fails, and the logger of metric dictionaries. The \<open>logfire\<close> package is a
  parameter: the handles it gives (a Logfire instance, or one with tags), and the operations on handles and spans
  the meter calls. A context is named by \<open>id(ctx)\<close>.
\<close>

section \<open>The meter\<close>

record ('hd, 'sp, 's) logfire_lib =
  lf_default :: 'hd
  lf_with_tags :: "'hd \<Rightarrow> string list \<Rightarrow> ('s, 'hd) py"
  lf_span :: "'hd \<Rightarrow> string \<Rightarrow> kwargs \<Rightarrow> ('s, 'sp) py"
  lf_enter :: "'sp \<Rightarrow> ('s, unit) py"
  lf_exit :: "'sp \<Rightarrow> pyexn option \<Rightarrow> ('s, unit) py"
  lf_set :: "'sp \<Rightarrow> string \<Rightarrow> pyval \<Rightarrow> ('s, unit) py"
  lf_info :: "'hd \<Rightarrow> string \<Rightarrow> kwargs \<Rightarrow> ('s, unit) py"
  lf_repr :: "pyval \<Rightarrow> string"
  lf_str :: "pyval \<Rightarrow> string"

datatype 's span_name = FuncName | StaticName string | NameOf "task_context \<Rightarrow> ('s, string) py"

record ('hd, 'sp, 's) logfire_meter =
  lm_lib :: "('hd, 'sp, 's) logfire_lib"
  lm_logfire :: 'hd
  lm_span_name :: "'s span_name"
  lm_extract_attributes :: "(task_context \<Rightarrow> ('s, pyval) py) option"
  lm_log_args :: bool
  lm_log_result :: bool
  lm_tags :: "string list"
  lm_active_spans :: "'s \<Rightarrow> (nat, 'sp) dict"
  lm_upd_active :: "((nat, 'sp) dict \<Rightarrow> (nat, 'sp) dict) \<Rightarrow> 's \<Rightarrow> 's"

text \<open>
  \<open>LogfireMeter.__init__\<close>, for the fields of its own; \<open>get\<close> and \<open>upd\<close> are where the program keeps the table of open
  spans, which starts empty.
\<close>

definition logfire_init ::
  "('hd, 'sp, 's) logfire_lib \<Rightarrow> ('s \<Rightarrow> (nat, 'sp) dict) \<Rightarrow> (((nat, 'sp) dict \<Rightarrow> (nat, 'sp) dict) \<Rightarrow> 's \<Rightarrow> 's) \<Rightarrow>
   'hd option \<Rightarrow> 's span_name \<Rightarrow> (task_context \<Rightarrow> ('s, pyval) py) option \<Rightarrow> bool \<Rightarrow> bool \<Rightarrow> string list option \<Rightarrow>
   ('s, ('hd, 'sp, 's) logfire_meter) py" where
  "logfire_init lib get upd logfire_instance span_name extract_attributes log_args log_result tags =
     py_seq (py_modify (upd (\<lambda>_. [])))
       (py_ret \<lparr>lm_lib = lib, lm_logfire = (case logfire_instance of Some x \<Rightarrow> x | None \<Rightarrow> lf_default lib), lm_span_name = span_name,
          lm_extract_attributes = extract_attributes, lm_log_args = log_args, lm_log_result = log_result,
          lm_tags = (case tags of Some ts \<Rightarrow> ts | None \<Rightarrow> []), lm_active_spans = get, lm_upd_active = upd\<rparr>)"

definition logfire_handle :: "('hd, 'sp, 's) logfire_meter \<Rightarrow> ('s, 'hd) py" where
  "logfire_handle m = (if lm_tags m \<noteq> [] then lf_with_tags (lm_lib m) (lm_logfire m) (lm_tags m) else py_ret (lm_logfire m))"

definition resolve_name :: "('hd, 'sp, 's) logfire_meter \<Rightarrow> task_context \<Rightarrow> ('s, string) py" where
  "resolve_name m ctx = (case lm_span_name m of
     FuncName \<Rightarrow> py_ret (tc_func_name ctx) | StaticName n \<Rightarrow> py_ret n | NameOf f \<Rightarrow> f ctx)"

definition span_attrs :: "('hd, 'sp, 's) logfire_meter \<Rightarrow> task_context \<Rightarrow> kwargs" where
  "span_attrs m ctx =
     (if lm_log_args m
      then [(''args'', if tc_args ctx = [] then PNone else PStr (lf_repr (lm_lib m) (PTuple (tc_args ctx)))),
            (''kwargs'', if tc_kwargs ctx = [] then PNone else PStr (lf_repr (lm_lib m) (PDict (tc_kwargs ctx))))]
      else [])"

definition logfire_on_start :: "('hd, 'sp, 's) logfire_meter \<Rightarrow> nat \<Rightarrow> task_context \<Rightarrow> ('s, unit) py" where
  "logfire_on_start m i ctx =
     py_bind (logfire_handle m) (\<lambda>handle.
     py_bind (resolve_name m ctx) (\<lambda>name.
     py_bind (lf_span (lm_lib m) handle name (span_attrs m ctx)) (\<lambda>sp.
     py_seq (lf_enter (lm_lib m) sp)
       (py_modify (lm_upd_active m (dict_set i sp))))))"

text \<open>The attributes set before a span is closed; a failing extractor must not break the span.\<close>

definition set_extracted :: "('hd, 'sp, 's) logfire_meter \<Rightarrow> 'sp \<Rightarrow> task_context \<Rightarrow> ('s, unit) py" where
  "set_extracted m sp ctx = (case lm_extract_attributes m of
       Some extract \<Rightarrow>
         if tc_error ctx = None
         then py_suppress (py_bind (extract ctx) (\<lambda>extra.
           if py_truth extra then lf_set (lm_lib m) sp ''result_attributes'' extra else py_ret ()))
         else py_ret ()
     | None \<Rightarrow> py_ret ())"

definition set_outcome :: "('hd, 'sp, 's) logfire_meter \<Rightarrow> 'sp \<Rightarrow> task_context \<Rightarrow> ('s, unit) py" where
  "set_outcome m sp ctx =
     py_seq (if lm_log_result m \<and> tc_result ctx \<noteq> PNone
             then lf_set (lm_lib m) sp ''result'' (PStr (lf_repr (lm_lib m) (tc_result ctx))) else py_ret ())
     (py_seq (case tc_error ctx of
                None \<Rightarrow> py_ret ()
              | Some e \<Rightarrow> py_seq (lf_set (lm_lib m) sp ''error'' (PStr (exn_str e)))
                  (lf_set (lm_lib m) sp ''error_type'' (PStr (exn_type e))))
       (lf_set (lm_lib m) sp ''execution_time'' (PFloat (tc_execution_time ctx))))"

definition close_span :: "('hd, 'sp, 's) logfire_meter \<Rightarrow> nat \<Rightarrow> task_context \<Rightarrow> ('s, unit) py" where
  "close_span m i ctx =
     py_bind (py_gets (\<lambda>s. dict_get (lm_active_spans m s) i)) (\<lambda>found.
     py_seq (py_modify (lm_upd_active m (dict_del i)))
       (case found of
          None \<Rightarrow> py_ret ()
        | Some sp \<Rightarrow>
            py_finally (py_seq (set_extracted m sp ctx) (set_outcome m sp ctx))
              (lf_exit (lm_lib m) sp (tc_error ctx))))"

definition logfire_on_success :: "('hd, 'sp, 's) logfire_meter \<Rightarrow> nat \<Rightarrow> task_context \<Rightarrow> ('s, unit) py" where
  "logfire_on_success m i ctx = close_span m i ctx"

definition logfire_on_failure :: "('hd, 'sp, 's) logfire_meter \<Rightarrow> nat \<Rightarrow> task_context \<Rightarrow> ('s, unit) py" where
  "logfire_on_failure m i ctx = close_span m i ctx"

text \<open>\<open>LogfireMetricLogger\<close>: the handle is made once, in the constructor.\<close>

record 'hd metric_logger =
  ml_logfire :: 'hd
  ml_prefix :: string

definition metric_logger_init ::
  "('hd, 'sp, 's) logfire_lib \<Rightarrow> 'hd option \<Rightarrow> string \<Rightarrow> string list option \<Rightarrow> ('s, 'hd metric_logger) py" where
  "metric_logger_init lib logfire_instance prefix tags =
     (let handle = (case logfire_instance of Some x \<Rightarrow> x | None \<Rightarrow> lf_default lib) in
      py_bind (case tags of Some (t # ts) \<Rightarrow> lf_with_tags lib handle (t # ts) | _ \<Rightarrow> py_ret handle) (\<lambda>h.
        py_ret \<lparr>ml_logfire = h, ml_prefix = prefix\<rparr>))"

definition metric_log :: "('hd, 'sp, 's) logfire_lib \<Rightarrow> 'hd metric_logger \<Rightarrow> kwargs \<Rightarrow> ('s, unit) py" where
  "metric_log lib self kw =
     lf_info lib (ml_logfire self) (ml_prefix self @ '': '' @ str_join '' '' (map (\<lambda>(k, v). k @ ''='' @ lf_str lib v) kw)) kw"

section \<open>Spans that are entered are exited\<close>

text \<open>
  A program that records which spans it made, entered and exited. Setting an attribute fails as \<open>fails\<close>
  says, naming and extracting do what \<open>nm\<close> and \<open>ex\<close> say, with any exception. A handle is its tags.
\<close>

record span_world =
  sw_active :: "(nat, nat) dict"
  sw_next :: nat
  sw_entered :: "nat list"
  sw_exited :: "nat list"

definition span_lib :: "(nat \<Rightarrow> string \<Rightarrow> pyexn option) \<Rightarrow> (string list, nat, span_world) logfire_lib" where
  "span_lib fails =
     \<lparr>lf_default = [], lf_with_tags = (\<lambda>hd tags. py_ret (hd @ tags)), lf_span = (\<lambda>_ _ _ s. (Inr (sw_next s), s\<lparr>sw_next := Suc (sw_next s)\<rparr>)),
      lf_enter = (\<lambda>sp s. (Inr (), s\<lparr>sw_entered := sw_entered s @ [sp]\<rparr>)),
      lf_exit = (\<lambda>sp _ s. (Inr (), s\<lparr>sw_exited := sw_exited s @ [sp]\<rparr>)),
      lf_set = (\<lambda>sp key _ s. (case fails sp key of None \<Rightarrow> Inr () | Some e \<Rightarrow> Inl e, s)),
      lf_info = (\<lambda>_ _ _. py_ret ()), lf_repr = (\<lambda>_. []), lf_str = (\<lambda>_. [])\<rparr>"

definition span_meter ::
  "(nat \<Rightarrow> string \<Rightarrow> pyexn option) \<Rightarrow> (task_context \<Rightarrow> pyexn + string) option \<Rightarrow> (task_context \<Rightarrow> pyexn + pyval) option \<Rightarrow> bool \<Rightarrow> bool \<Rightarrow>
   (string list, nat, span_world) logfire_meter" where
  "span_meter fails nm ex log_args log_result =
     \<lparr>lm_lib = span_lib fails, lm_logfire = [], lm_span_name = (case nm of None \<Rightarrow> FuncName | Some f \<Rightarrow> NameOf (\<lambda>ctx s. (f ctx, s))),
      lm_extract_attributes = map_option (\<lambda>f ctx s. (f ctx, s)) ex,
      lm_log_args = log_args, lm_log_result = log_result, lm_tags = [], lm_active_spans = sw_active,
      lm_upd_active = (\<lambda>f s. s\<lparr>sw_active := f (sw_active s)\<rparr>)\<rparr>"

lemma span_meter_simps [simp]:
  "lm_lib (span_meter fails nm ex la lr) = span_lib fails" "lm_active_spans (span_meter fails nm ex la lr) = sw_active"
  "lm_upd_active (span_meter fails nm ex la lr) = (\<lambda>f s. s\<lparr>sw_active := f (sw_active s)\<rparr>)"
  by (simp_all add: span_meter_def)

text \<open>The lifecycle calls of tasks, in any order and interleaving; a context that is running does not start again.\<close>

inductive span_step :: "(string list, nat, span_world) logfire_meter \<Rightarrow> span_world \<Rightarrow> span_world \<Rightarrow> bool" for m where
  start: "dict_get (sw_active s) i = None \<Longrightarrow> span_step m s (snd (logfire_on_start m i ctx s))"
| success: "span_step m s (snd (logfire_on_success m i ctx s))"
| failure: "span_step m s (snd (logfire_on_failure m i ctx s))"

inductive_cases span_stepE: "span_step m s s'"

definition spans_ok :: "span_world \<Rightarrow> bool" where
  "spans_ok s \<longleftrightarrow> dict_ok (sw_active s) \<and> mset (sw_entered s) = mset (sw_exited s) + mset (map snd (sw_active s)) \<and>
     distinct (sw_entered s) \<and> (\<forall>x \<in> set (sw_entered s). x < sw_next s)"

lemma start_effect:
  "(\<exists>e. logfire_on_start (span_meter fails nm ex la lr) i ctx s = (Inl e, s)) \<or>
   logfire_on_start (span_meter fails nm ex la lr) i ctx s =
     (Inr (), s\<lparr>sw_next := Suc (sw_next s), sw_entered := sw_entered s @ [sw_next s], sw_active := dict_set i (sw_next s) (sw_active s)\<rparr>)"
  by (auto simp: logfire_on_start_def logfire_handle_def resolve_name_def span_meter_def span_lib_def py_simps split: option.split sum.split)

lemma set_keeps: "py_keeps (\<lambda>s. s) (lf_set (span_lib fails) sp key v)"
  by (simp add: py_keeps_def span_lib_def)

lemma attributes_keep:
  "py_keeps (\<lambda>s. s) (py_seq (set_extracted (span_meter fails nm ex la lr) sp ctx) (set_outcome (span_meter fails nm ex la lr) sp ctx))"
proof -
  have "py_keeps (\<lambda>s. s) (\<lambda>s. (f ctx, s))" for f :: "task_context \<Rightarrow> pyexn + pyval" by (simp add: py_keeps_def)
  then show ?thesis
    unfolding set_extracted_def set_outcome_def
    by (auto simp: span_meter_def intro!: keeps set_keeps split: option.split)
qed

lemma close_effect:
  "snd (close_span (span_meter fails nm ex la lr) i ctx s) =
    (case dict_get (sw_active s) i of
       None \<Rightarrow> s\<lparr>sw_active := dict_del i (sw_active s)\<rparr>
     | Some sp \<Rightarrow> s\<lparr>sw_active := dict_del i (sw_active s), sw_exited := sw_exited s @ [sp]\<rparr>)"
proof (cases "dict_get (sw_active s) i")
  case (Some sp)
  let ?m = "span_meter fails nm ex la lr" and ?s1 = "s\<lparr>sw_active := dict_del i (sw_active s)\<rparr>"
  have "snd (py_seq (set_extracted ?m sp ctx) (set_outcome ?m sp ctx) ?s1) = ?s1"
    using attributes_keep[of fails nm ex la lr sp ctx] by (simp add: py_keeps_def)
  then obtain r where "py_seq (set_extracted ?m sp ctx) (set_outcome ?m sp ctx) ?s1 = (r, ?s1)" by (metis prod.collapse)
  then have "py_finally (py_seq (set_extracted ?m sp ctx) (set_outcome ?m sp ctx)) (lf_exit (lm_lib ?m) sp (tc_error ctx)) ?s1 =
      (r, ?s1\<lparr>sw_exited := sw_exited s @ [sp]\<rparr>)"
    by (simp add: py_finally_apply) (simp add: span_lib_def)
  with Some show ?thesis
    by (simp add: close_span_def py_bind_apply py_gets_def py_seq_def py_modify_def)
qed (simp add: close_span_def py_simps span_meter_def)

lemma del_mset:
  "dict_ok d \<Longrightarrow> dict_get d i = Some v \<Longrightarrow> mset (map snd d) = add_mset v (mset (map snd (dict_del i d)))"
proof (induction d)
  case (Cons x d)
  obtain j w where x: "x = (j, w)" by fastforce
  show ?case
  proof (cases "j = i")
    case True
    then have "dict_get d i = None" using Cons.prems(1) x by (simp add: map_of_eq_None_iff)
    with True x Cons.prems(2) show ?thesis by (simp add: dict_del_absent)
  next
    case False
    with Cons x show ?thesis by simp
  qed
qed simp

lemma closed_ok: "spans_ok s \<Longrightarrow> spans_ok (snd (close_span (span_meter fails nm ex la lr) i ctx s))"
proof (cases "dict_get (sw_active s) i")
  case (Some sp)
  assume "spans_ok s"
  with del_mset[of "sw_active s" i sp] Some show ?thesis by (auto simp: close_effect spans_ok_def)
qed (simp add: close_effect spans_ok_def dict_del_absent)

lemma started_ok:
  assumes "spans_ok s" "dict_get (sw_active s) i = None"
  shows "spans_ok (snd (logfire_on_start (span_meter fails nm ex la lr) i ctx s))"
  using start_effect[of fails nm ex la lr i ctx s] assms
  by (auto simp: spans_ok_def dict_set_fresh less_Suc_eq)

text \<open>
  The condition that a running context does not start again is needed: an entry of the table that is not
  closed (a start subscriber after the meter raised, so the runner fires neither success nor failure) is replaced when
  Python gives the identity of the dead context to a new one, and its span is never exited.
\<close>

lemma restarted_span_lost:
  assumes "spans_ok s" "dict_get (sw_active s) i = Some sp" "sp \<notin> set (sw_exited s)"
    and "logfire_on_start (span_meter fails nm ex la lr) i ctx s = (Inr (), s')"
  shows "sp \<in> set (sw_entered s') \<and> sp \<notin> set (sw_exited s') \<and> dict_get (sw_active s') i \<noteq> Some sp"
proof -
  have "(i, sp) \<in> set (sw_active s)" using assms(2) by (simp add: map_of_SomeD)
  then have "sp \<in> set (map snd (sw_active s))" by force
  moreover have "set (sw_entered s) = set (sw_exited s) \<union> set (map snd (sw_active s))"
    using assms(1) unfolding spans_ok_def by (metis set_mset_mset set_mset_union)
  ultimately have "sp \<in> set (sw_entered s)" by blast
  moreover from this have "sp < sw_next s" using assms(1) by (simp add: spans_ok_def)
  ultimately show ?thesis
    using start_effect[of fails nm ex la lr i ctx s] assms(3,4) by auto
qed

definition no_spans :: span_world where
  "no_spans = \<lparr>sw_active = [], sw_next = 0, sw_entered = [], sw_exited = []\<rparr>"

lemma reachable_ok: "(span_step (span_meter fails nm ex la lr))\<^sup>*\<^sup>* no_spans s \<Longrightarrow> spans_ok s"
proof (induction rule: rtranclp_induct)
  case base
  show ?case by (simp add: spans_ok_def no_spans_def)
next
  case (step s s')
  then show ?case
    by (elim span_stepE) (auto simp: logfire_on_success_def logfire_on_failure_def closed_ok started_ok)
qed


definition demo_task :: task_context where
  "demo_task = \<lparr>tc_task_id = ''t'', tc_func_name = ''f'', tc_topic = None, tc_args = [], tc_kwargs = [], tc_start_time = 0, tc_end_time = 1,
     tc_result = PInt 1, tc_error = None, tc_metadata = []\<rparr>"


end
