(* ===== verification/Executor_Threads.thy ===== *)
theory Executor_Threads
  imports Executor
begin

text \<open>
  \<open>Executor.submit\<close>, \<open>start\<close> and \<open>stop\<close> of \<open>src/eventforge/executor.py\<close> with threads: a call of \<open>submit\<close> is several
  critical sections (start, read the pool, hand the call to the pool, register the future, add the
  callback), \<open>stop\<close> takes the pool under the lock and shuts it down outside. Every call of \<open>submit\<close> is a thread of
  its own, numbered; the \<open>n\<close>-th draws the identifier \<open>uuid4 n\<close>. Pools are numbered as they are made.
\<close>

section \<open>Threads and pools\<close>

datatype 'f submit_pc =
    Idle
  | Begun 'f "pyval list" kwargs
  | Started 'f "pyval list" kwargs
  | HasPool nat 'f "pyval list" kwargs
  | Accepted 'f "pyval list" kwargs
  | Registered
  | Returned
  | Raised pyexn

record 'f exec_sys =
  es_exec :: "'f executor"
  es_pool :: nat
  es_next_pool :: nat
  es_stopping :: "nat set"
  es_shut :: "nat set"
  es_pc :: "nat \<Rightarrow> 'f submit_pc"
  es_hooked :: "nat set"

definition es_init :: "execution_mode \<Rightarrow> int \<Rightarrow> 'f exec_sys" where
  "es_init mode n = \<lparr>es_exec = executor_init mode n, es_pool = 0, es_next_pool = 0, es_stopping = {}, es_shut = {},
     es_pc = (\<lambda>_. Idle), es_hooked = {}\<rparr>"

definition goto :: "nat \<Rightarrow> 'f submit_pc \<Rightarrow> 'f exec_sys \<Rightarrow> 'f exec_sys" where
  "goto t pc s = s\<lparr>es_pc := (es_pc s)(t := pc)\<rparr>"

text \<open>\<open>start()\<close> under the lock: a pool mode that does not run makes a pool.\<close>

definition start_section :: "'f exec_sys \<Rightarrow> 'f exec_sys" where
  "start_section s =
     (if ex_running (es_exec s) \<or> ex_mode (es_exec s) = SEQUENTIAL then s\<lparr>es_exec := executor_start (es_exec s)\<rparr>
      else s\<lparr>es_exec := executor_start (es_exec s), es_pool := es_next_pool s, es_next_pool := Suc (es_next_pool s)\<rparr>)"

text \<open>\<open>stop()\<close>: the locked section takes the pool away, the call outside the lock shuts it down.\<close>

definition stop_section :: "'f exec_sys \<Rightarrow> 'f exec_sys" where
  "stop_section s = s\<lparr>es_exec := executor_stop (es_exec s),
     es_stopping := (if ex_running (es_exec s) \<and> ex_pool (es_exec s) then insert (es_pool s) (es_stopping s) else es_stopping s)\<rparr>"

definition shutdown_pool :: "nat \<Rightarrow> 'f exec_sys \<Rightarrow> 'f exec_sys" where
  "shutdown_pool p s = s\<lparr>es_stopping := es_stopping s - {p}, es_shut := insert p (es_shut s)\<rparr>"

definition no_pool :: pyexn where
  "no_pool = Exception ''AssertionError'' []"

text \<open>What \<open>concurrent.futures\<close> raises on a pool that was shut down.\<close>

definition after_shutdown :: pyexn where
  "after_shutdown = Exception ''RuntimeError'' ''cannot schedule new futures after shutdown''"

text \<open>\<open>pool = self._pool\<close> under the lock, with the assertion after it.\<close>

definition read_pool :: "nat \<Rightarrow> 'f \<Rightarrow> pyval list \<Rightarrow> kwargs \<Rightarrow> 'f exec_sys \<Rightarrow> 'f exec_sys" where
  "read_pool t f args kw s = goto t (if ex_pool (es_exec s) then HasPool (es_pool s) f args kw else Raised no_pool) s"

definition pool_submit :: "nat \<Rightarrow> nat \<Rightarrow> 'f \<Rightarrow> pyval list \<Rightarrow> kwargs \<Rightarrow> 'f exec_sys \<Rightarrow> 'f exec_sys" where
  "pool_submit t p f args kw s = goto t (if p \<in> es_shut s then Raised after_shutdown else Accepted f args kw) s"

inductive thread_step :: "(nat \<Rightarrow> string) \<Rightarrow> 'f exec_sys \<Rightarrow> 'f exec_sys \<Rightarrow> bool" for uuid4 where
  arrive: "es_pc s t = Idle \<Longrightarrow> thread_step uuid4 s (goto t (Begun f args kw) s)"
| run_here: "es_pc s t = Begun f args kw \<Longrightarrow> ex_mode (es_exec s) = SEQUENTIAL \<Longrightarrow>
    thread_step uuid4 s (goto t Returned (s\<lparr>es_exec := store_result (uuid4 t) r (es_exec s)\<rparr>))"
| start_pool: "es_pc s t = Begun f args kw \<Longrightarrow> ex_mode (es_exec s) \<noteq> SEQUENTIAL \<Longrightarrow>
    thread_step uuid4 s (goto t (Started f args kw) (start_section s))"
| read: "es_pc s t = Started f args kw \<Longrightarrow> thread_step uuid4 s (read_pool t f args kw s)"
| hand_over: "es_pc s t = HasPool p f args kw \<Longrightarrow> thread_step uuid4 s (pool_submit t p f args kw s)"
| register: "es_pc s t = Accepted f args kw \<Longrightarrow> ex_mode (es_exec s) \<noteq> SEQUENTIAL \<Longrightarrow> fut = FRunning f args kw \<or> fut = FDone outcome \<Longrightarrow>
    thread_step uuid4 s (goto t Registered (s\<lparr>es_exec := register_future (uuid4 t) fut (es_exec s)\<rparr>))"
| hook: "es_pc s t = Registered \<Longrightarrow> thread_step uuid4 s (goto t Returned (s\<lparr>es_hooked := insert t (es_hooked s)\<rparr>))"
| finish: "dict_get (ex_futures (es_exec s)) (uuid4 t) = Some (FRunning f args kw) \<Longrightarrow>
    thread_step uuid4 s (s\<lparr>es_exec := (es_exec s)\<lparr>ex_futures := dict_set (uuid4 t) (FDone outcome) (ex_futures (es_exec s))\<rparr>\<rparr>)"
| callback: "t \<in> es_hooked s \<Longrightarrow> dict_get (ex_futures (es_exec s)) (uuid4 t) = Some (FDone outcome) \<Longrightarrow>
    on_complete (uuid4 t) outcome (es_exec s) = (r, x) \<Longrightarrow>
    thread_step uuid4 s (s\<lparr>es_exec := x, es_hooked := es_hooked s - {t}\<rparr>)"
| start: "thread_step uuid4 s (start_section s)"
| stop: "thread_step uuid4 s (stop_section s)"
| shutdown: "p \<in> es_stopping s \<Longrightarrow> thread_step uuid4 s (shutdown_pool p s)"

section \<open>The invariant\<close>

text \<open>The submissions whose task is in the tables.\<close>

definition settled :: "'f exec_sys \<Rightarrow> nat set" where
  "settled s = {t. es_pc s t = Registered \<or> es_pc s t = Returned}"

text \<open>Every pool ever made is the current one, about to be shut down, or shut down, and only one of these.\<close>

definition live_pools :: "'f exec_sys \<Rightarrow> nat set" where
  "live_pools s = (if ex_pool (es_exec s) then {es_pool s} else {})"

definition pools_ok :: "'f exec_sys \<Rightarrow> bool" where
  "pools_ok s \<longleftrightarrow> {..<es_next_pool s} = live_pools s \<union> es_stopping s \<union> es_shut s \<and>
     live_pools s \<inter> es_stopping s = {} \<and> live_pools s \<inter> es_shut s = {} \<and> es_stopping s \<inter> es_shut s = {}"

text \<open>A future without a callback to come holds an exception that is no \<open>Exception\<close>.\<close>

definition unhooked_ok :: "(nat \<Rightarrow> string) \<Rightarrow> 'f exec_sys \<Rightarrow> bool" where
  "unhooked_ok uuid4 s \<longleftrightarrow> (\<forall>t fut. dict_get (ex_futures (es_exec s)) (uuid4 t) = Some fut \<longrightarrow>
     es_pc s t = Registered \<or> t \<in> es_hooked s \<or> (\<exists>e. fut = FDone (Inl e) \<and> \<not> is_Exc e))"

definition raised_ok :: "'f exec_sys \<Rightarrow> bool" where
  "raised_ok s \<longleftrightarrow> (\<forall>t e. es_pc s t = Raised e \<longrightarrow> e = no_pool \<or> e = after_shutdown)"

definition sys_ok :: "(nat \<Rightarrow> string) \<Rightarrow> 'f exec_sys \<Rightarrow> bool" where
  "sys_ok uuid4 s \<longleftrightarrow> accounted (uuid4 ` settled s) (es_exec s) \<and> pools_ok s \<and> unhooked_ok uuid4 s \<and> raised_ok s \<and>
     es_hooked s \<subseteq> {t. es_pc s t = Returned}"

lemmas sys_defs = sys_ok_def pools_ok_def unhooked_ok_def raised_ok_def

lemma goto_simps [simp]:
  "es_exec (goto t pc s) = es_exec s" "es_pool (goto t pc s) = es_pool s" "es_next_pool (goto t pc s) = es_next_pool s"
  "es_stopping (goto t pc s) = es_stopping s" "es_shut (goto t pc s) = es_shut s" "es_hooked (goto t pc s) = es_hooked s"
  "es_pc (goto t pc s) = (es_pc s)(t := pc)"
  by (simp_all add: goto_def)

lemma live_pools_goto [simp]: "live_pools (goto t pc s) = live_pools s"
  by (simp add: live_pools_def)

text \<open>Moving a thread among places before the tables.\<close>

lemma goto_ok:
  assumes "sys_ok uuid4 s" "t \<notin> settled s" "pc \<noteq> Registered" "pc \<noteq> Returned" "\<And>e. pc = Raised e \<Longrightarrow> e = no_pool \<or> e = after_shutdown"
  shows "sys_ok uuid4 (goto t pc s)"
proof -
  have "settled (goto t pc s) = settled s" using assms(2-4) by (auto simp: settled_def)
  then show ?thesis using assms by (auto simp: sys_defs settled_def)
qed

lemma accounted_mem:
  "accounted ids x \<Longrightarrow> (i \<in> ids) = (dict_get (ex_results x) i \<noteq> None \<or> dict_get (ex_futures x) i \<noteq> None)"
  unfolding accounted_def by (elim conjE) (rule spec)

lemma sys_accounted: "sys_ok uuid4 s \<Longrightarrow> accounted (uuid4 ` settled s) (es_exec s)"
  by (simp add: sys_ok_def)

lemma fresh_id:
  assumes "inj uuid4" "sys_ok uuid4 s" "t \<notin> settled s"
  shows "dict_get (ex_results (es_exec s)) (uuid4 t) = None" "dict_get (ex_futures (es_exec s)) (uuid4 t) = None"
proof -
  have "uuid4 t \<notin> uuid4 ` settled s" using assms(1,3) by (auto dest: injD)
  moreover note accounted_mem[OF sys_accounted[OF assms(2)], of "uuid4 t"]
  ultimately show "dict_get (ex_results (es_exec s)) (uuid4 t) = None" "dict_get (ex_futures (es_exec s)) (uuid4 t) = None" by blast+
qed

text \<open>Putting a task into the tables: the executor makes a step under a new identifier, the thread is settled.\<close>

lemma settle_ok:
  assumes "inj uuid4" "sys_ok uuid4 s" "t \<notin> settled s" "ex_step (es_exec s) [uuid4 t] x" "ex_pool x = ex_pool (es_exec s)"
    and "es_exec s' = x" "es_pc s' = (es_pc s)(t := pc)" "pc = Registered \<or> pc = Returned"
    and "\<And>u fut. dict_get (ex_futures x) (uuid4 u) = Some fut \<Longrightarrow> dict_get (ex_futures (es_exec s)) (uuid4 u) = Some fut \<or> (u = t \<and> pc = Registered)"
    and "es_pool s' = es_pool s" "es_next_pool s' = es_next_pool s" "es_stopping s' = es_stopping s" "es_shut s' = es_shut s" "es_hooked s' = es_hooked s"
  shows "sys_ok uuid4 s'"
proof -
  have "settled s' = insert t (settled s)" using assms(7,8) by (auto simp: settled_def)
  moreover have "accounted (uuid4 ` settled s \<union> set [uuid4 t]) x" using ex_step_accounted[OF assms(4)] assms(2) by (simp add: sys_ok_def)
  ultimately have "accounted (uuid4 ` settled s') (es_exec s')" by (simp add: assms(6))
  moreover have "live_pools s' = live_pools s" by (simp add: live_pools_def assms(5,6,10))
  moreover have "t \<notin> es_hooked s" using assms(2,3) by (auto simp: sys_ok_def settled_def)
  moreover have "unhooked_ok uuid4 s'"
    unfolding unhooked_ok_def
  proof (intro allI impI)
    fix u fut assume "dict_get (ex_futures (es_exec s')) (uuid4 u) = Some fut"
    from assms(9)[OF this[unfolded assms(6)]]
    show "es_pc s' u = Registered \<or> u \<in> es_hooked s' \<or> (\<exists>e. fut = FDone (Inl e) \<and> \<not> is_Exc e)"
    proof
      assume f: "dict_get (ex_futures (es_exec s)) (uuid4 u) = Some fut"
      then have "u \<noteq> t" using fresh_id(2)[OF assms(1-3)] by auto
      with f assms(2) show ?thesis by (auto simp: sys_ok_def unhooked_ok_def assms(7,14))
    qed (simp add: assms(7))
  qed
  ultimately show ?thesis using assms(2,8) by (auto simp: sys_ok_def pools_ok_def raised_ok_def assms(7,11-14))
qed

lemma start_section_ok:
  assumes "sys_ok uuid4 s"
  shows "sys_ok uuid4 (start_section s)"
proof -
  have "accounted (uuid4 ` settled s \<union> set []) (executor_start (es_exec s))"
    using assms by (intro ex_step_accounted[OF ex_step.start]) (simp add: sys_ok_def)
  moreover have "settled (start_section s) = settled s" by (simp add: settled_def start_section_def)
  moreover have "ex_pool (es_exec s) = (ex_running (es_exec s) \<and> ex_mode (es_exec s) \<noteq> SEQUENTIAL)"
    using assms by (simp add: sys_ok_def accounted_def)
  moreover have "{..<Suc n} = insert n {..<n}" for n by auto
  ultimately show ?thesis
    using assms by (auto simp: sys_defs start_section_def live_pools_def executor_start_def split: if_splits)
qed

lemma stop_section_ok:
  assumes "sys_ok uuid4 s"
  shows "sys_ok uuid4 (stop_section s)"
proof -
  have "accounted (uuid4 ` settled s \<union> set []) (executor_stop (es_exec s))"
    using assms by (intro ex_step_accounted[OF ex_step.stop]) (simp add: sys_ok_def)
  moreover have "settled (stop_section s) = settled s" by (simp add: settled_def stop_section_def)
  moreover have "ex_pool (es_exec s) = (ex_running (es_exec s) \<and> ex_mode (es_exec s) \<noteq> SEQUENTIAL)"
    using assms by (simp add: sys_ok_def accounted_def)
  ultimately show ?thesis
    using assms by (auto simp: sys_defs stop_section_def live_pools_def executor_stop_def split: if_splits)
qed

lemma shutdown_ok: "sys_ok uuid4 s \<Longrightarrow> p \<in> es_stopping s \<Longrightarrow> sys_ok uuid4 (shutdown_pool p s)"
  by (auto simp: sys_defs shutdown_pool_def settled_def live_pools_def)

lemma hook_ok:
  assumes "sys_ok uuid4 s" "es_pc s t = Registered"
  shows "sys_ok uuid4 (goto t Returned (s\<lparr>es_hooked := insert t (es_hooked s)\<rparr>))"
proof -
  have "settled (goto t Returned (s\<lparr>es_hooked := insert t (es_hooked s)\<rparr>)) = settled s" using assms(2) by (auto simp: settled_def)
  then show ?thesis using assms by (auto simp: sys_defs live_pools_def)
qed

lemma finish_ok:
  assumes "inj uuid4" "sys_ok uuid4 s" "dict_get (ex_futures (es_exec s)) (uuid4 t) = Some (FRunning f args kw)"
  shows "sys_ok uuid4 (s\<lparr>es_exec := (es_exec s)\<lparr>ex_futures := dict_set (uuid4 t) (FDone outcome) (ex_futures (es_exec s))\<rparr>\<rparr>)"
    (is "sys_ok uuid4 ?s")
proof -
  have "accounted (uuid4 ` settled s \<union> set []) (es_exec ?s)"
    using ex_step_accounted[OF ex_step.finish[OF assms(3)]] assms(2) by (simp add: sys_ok_def)
  moreover have "settled ?s = settled s" "live_pools ?s = live_pools s" by (simp_all add: settled_def live_pools_def)
  moreover have "unhooked_ok uuid4 ?s"
    using assms by (auto simp: sys_ok_def unhooked_ok_def inj_eq split: if_splits)
  ultimately show ?thesis using assms(2) by (simp add: sys_ok_def pools_ok_def raised_ok_def)
qed

text \<open>The conversion of a worker's answer raises nothing but an \<open>Exception\<close>.\<close>

lemma string_fields_exc:
  assumes "(case (v, w) of (PStr a, PStr b) \<Rightarrow> F a b | _ \<Rightarrow> Inl invalid_field) = Inl e" "\<And>a b e. F a b = Inl e \<Longrightarrow> is_Exc e"
  shows "is_Exc e"
  using assms by (cases v; cases w) (auto simp: invalid_field_def)

lemma status_exc: "status_of_value v = Inl e \<Longrightarrow> is_Exc e"
  by (auto simp: status_of_value_def split: if_splits)

lemma conversion_exc:
  assumes "task_result_of_raw r = Inl e"
  shows "is_Exc e"
proof (cases r)
  case (RDict d)
  show ?thesis
  proof (cases "dict_get d ''task_id'' = None \<or> dict_get d ''status'' = None")
    case True
    with assms RDict show ?thesis by (auto simp: task_result_of_raw_def task_result_of_dict_def split: option.splits)
  next
    case False
    then obtain v w where vw: "dict_get d ''task_id'' = Some v" "dict_get d ''status'' = Some w" by fastforce
    from assms have "task_result_of_dict d = Inl e" by (simp add: RDict task_result_of_raw_def)
    then show ?thesis
      unfolding task_result_of_dict_def vw option.case
      by (rule string_fields_exc) (auto dest: status_exc simp: invalid_field_def split: sum.splits pyval.splits)
  qed
qed (use assms in \<open>simp add: task_result_of_raw_def\<close>)

lemma callback_ok:
  assumes "inj uuid4" "sys_ok uuid4 s" "t \<in> es_hooked s" "dict_get (ex_futures (es_exec s)) (uuid4 t) = Some (FDone outcome)"
    "on_complete (uuid4 t) outcome (es_exec s) = (r, x)"
  shows "sys_ok uuid4 (s\<lparr>es_exec := x, es_hooked := es_hooked s - {t}\<rparr>)" (is "sys_ok uuid4 ?s")
proof -
  have "accounted (uuid4 ` settled s \<union> set []) (es_exec ?s)"
    using ex_step_accounted[OF ex_step.callback[OF assms(4,5)]] assms(2) by (simp add: sys_ok_def)
  moreover have "settled ?s = settled s" by (simp add: settled_def)
  moreover have "ex_pool x = ex_pool (es_exec s)"
    using on_complete_cases[OF assms(5)] by auto
  moreover have "x = es_exec s \<and> (\<exists>e. outcome = Inl e \<and> \<not> is_Exc e) \<or> ex_futures x = dict_del (uuid4 t) (ex_futures (es_exec s))"
    using assms(5) conversion_exc by (auto simp: on_complete_def Let_def split: sum.splits if_splits)
  then have "unhooked_ok uuid4 ?s"
    using assms(2,4) by (auto simp: sys_ok_def unhooked_ok_def inj_eq[OF assms(1)] simp del: map_of_eq_Some_iff split: if_splits) blast
  ultimately show ?thesis using assms(2) by (auto simp: sys_ok_def pools_ok_def raised_ok_def live_pools_def)
qed

text \<open>Every step keeps the invariant.\<close>

lemma thread_step_ok:
  assumes "inj uuid4" "thread_step uuid4 s s'" "sys_ok uuid4 s"
  shows "sys_ok uuid4 s'"
  using assms(2)
proof cases
  case (arrive t f args kw)
  then show ?thesis using assms(3) by (auto intro!: goto_ok simp: settled_def)
next
  case (run_here t f args kw r)
  then have t: "t \<notin> settled s" by (simp add: settled_def)
  note fresh = fresh_id[OF assms(1,3) t]
  have "ex_step (es_exec s) [uuid4 t] (store_result (uuid4 t) r (es_exec s))" using run_here(3) fresh by (rule ex_step.sequential)
  from settle_ok[OF assms(1,3) t this, where pc = Returned and s' = s'] run_here(1) show ?thesis by (simp add: store_result_def)
next
  case (start_pool t f args kw)
  then have "t \<notin> settled (start_section s)" by (simp add: settled_def start_section_def)
  from goto_ok[OF start_section_ok[OF assms(3)] this, of "Started f args kw"] start_pool(1) show ?thesis by simp
next
  case (read t f args kw)
  then show ?thesis using assms(3) by (auto intro!: goto_ok simp: read_pool_def settled_def)
next
  case (hand_over t p f args kw)
  then show ?thesis using assms(3) by (auto intro!: goto_ok simp: pool_submit_def settled_def)
next
  case (register t f args kw fut outcome)
  then have t: "t \<notin> settled s" by (simp add: settled_def)
  note fresh = fresh_id[OF assms(1,3) t]
  from settle_ok[OF assms(1,3) t ex_step.register[OF register(3) fresh, of fut], where pc = Registered and s' = s'] register(1)
  show ?thesis by (simp add: register_future_def inj_eq[OF assms(1)] split: if_splits)
next
  case (hook t)
  then show ?thesis using assms(3) by (simp add: hook_ok)
next
  case (finish t f args kw outcome)
  then show ?thesis using assms(1,3) by (simp add: finish_ok)
next
  case (callback t outcome r x)
  then show ?thesis using assms(1,3) callback_ok by simp
next
  case start
  then show ?thesis using assms(3) by (simp add: start_section_ok)
next
  case stop
  then show ?thesis using assms(3) by (simp add: stop_section_ok)
next
  case (shutdown p)
  then show ?thesis using assms(3) by (simp add: shutdown_ok)
qed

lemma reachable_sys_ok:
  assumes "inj uuid4" "(thread_step uuid4)\<^sup>*\<^sup>* (es_init mode n) s"
  shows "sys_ok uuid4 s"
  using assms(2)
proof (induction rule: rtranclp_induct)
  case base
  show ?case by (simp add: sys_defs es_init_def settled_def accounted_def executor_init_def live_pools_def)
next
  case (step s s')
  then show ?case using thread_step_ok[OF assms(1)] by blast
qed


section \<open>A submission that meets a stop\<close>

text \<open>
  The schedule of the race: the submitting thread has started the executor, then another thread stops it;
  what the submitter finds depends on whether it has read the pool.
\<close>

definition race_start :: "execution_mode \<Rightarrow> int \<Rightarrow> 'f \<Rightarrow> 'f exec_sys" where
  "race_start mode n f = goto 0 (Started f [] []) (start_section (goto 0 (Begun f [] []) (es_init mode n)))"

definition race_assert :: "execution_mode \<Rightarrow> int \<Rightarrow> 'f \<Rightarrow> 'f exec_sys" where
  "race_assert mode n f = read_pool 0 f [] [] (stop_section (race_start mode n f))"

definition race_shutdown :: "execution_mode \<Rightarrow> int \<Rightarrow> 'f \<Rightarrow> 'f exec_sys" where
  "race_shutdown mode n f = pool_submit 0 0 f [] [] (shutdown_pool 0 (stop_section (read_pool 0 f [] [] (race_start mode n f))))"

lemma race_start_reachable:
  assumes "mode \<noteq> SEQUENTIAL"
  shows "(thread_step uuid4)\<^sup>*\<^sup>* (es_init mode n) (race_start mode n f)"
proof -
  have "thread_step uuid4 (es_init mode n) (goto 0 (Begun f [] []) (es_init mode n))"
    by (rule thread_step.arrive) (simp add: es_init_def)
  moreover have "thread_step uuid4 (goto 0 (Begun f [] []) (es_init mode n)) (race_start mode n f)"
    unfolding race_start_def by (rule thread_step.start_pool) (use assms in \<open>simp_all add: es_init_def executor_init_def\<close>)
  ultimately show ?thesis by (meson rtranclp.rtrancl_into_rtrancl rtranclp.rtrancl_refl)
qed

lemma race_fields:
  assumes "mode \<noteq> SEQUENTIAL"
  shows "es_pc (race_start mode n f) = (\<lambda>_. Idle)(0 := Started f [] [])" "ex_running (es_exec (race_start mode n f))"
    "ex_pool (es_exec (race_start mode n f))" "es_pool (race_start mode n f) = 0" "es_stopping (race_start mode n f) = {}"
  using assms by (simp_all add: race_start_def start_section_def es_init_def executor_init_def executor_start_def)

text \<open>
  C23. \<open>submit\<close> can fail because another thread stops the executor. With a thread or process pool a \<open>stop\<close>
  that comes after the \<open>start\<close> of a \<open>submit\<close> and before it has handed its call to the pool makes the \<open>submit\<close>
  raise: an \<open>AssertionError\<close> if it has not read the pool yet, and otherwise the pool's \<open>RuntimeError\<close>. Both states
  are reachable, and neither has a trace of the task.
\<close>

theorem submit_meets_stop:
  assumes "mode \<noteq> SEQUENTIAL"
  shows "(thread_step uuid4)\<^sup>*\<^sup>* (es_init mode n) (race_assert mode n f) \<and> es_pc (race_assert mode n f) 0 = Raised no_pool \<and>
    (thread_step uuid4)\<^sup>*\<^sup>* (es_init mode n) (race_shutdown mode n f) \<and> es_pc (race_shutdown mode n f) 0 = Raised after_shutdown \<and>
    (\<forall>s \<in> {race_assert mode n f, race_shutdown mode n f}. ex_results (es_exec s) = [] \<and> ex_futures (es_exec s) = [])"
proof -
  let ?s = "race_start mode n f"
  note R = race_start_reachable[OF assms, of uuid4 n f] and F = race_fields[OF assms, of n f]
  have "thread_step uuid4 ?s (stop_section ?s)" by (rule thread_step.stop)
  moreover have "thread_step uuid4 (stop_section ?s) (race_assert mode n f)"
    unfolding race_assert_def by (rule thread_step.read) (simp add: stop_section_def F)
  ultimately have A: "(thread_step uuid4)\<^sup>*\<^sup>* (es_init mode n) (race_assert mode n f)"
    using R by (meson rtranclp.rtrancl_into_rtrancl)
  let ?s1 = "read_pool 0 f [] [] ?s"
  have "thread_step uuid4 ?s ?s1" by (rule thread_step.read) (simp add: F)
  moreover have "thread_step uuid4 ?s1 (stop_section ?s1)" by (rule thread_step.stop)
  moreover have "thread_step uuid4 (stop_section ?s1) (shutdown_pool 0 (stop_section ?s1))"
    by (rule thread_step.shutdown) (simp add: stop_section_def read_pool_def F)
  moreover have "thread_step uuid4 (shutdown_pool 0 (stop_section ?s1)) (race_shutdown mode n f)"
    unfolding race_shutdown_def by (rule thread_step.hand_over) (simp add: shutdown_pool_def stop_section_def read_pool_def F)
  ultimately have B: "(thread_step uuid4)\<^sup>*\<^sup>* (es_init mode n) (race_shutdown mode n f)"
    using R by (meson rtranclp.rtrancl_into_rtrancl)
  have "es_pc (race_assert mode n f) 0 = Raised no_pool" "es_pc (race_shutdown mode n f) 0 = Raised after_shutdown"
    by (simp_all add: race_assert_def race_shutdown_def read_pool_def pool_submit_def shutdown_pool_def stop_section_def executor_stop_def F)
  moreover have "ex_results (es_exec ?s) = []" "ex_futures (es_exec ?s) = []"
    by (simp_all add: race_start_def start_section_def es_init_def executor_init_def)
  then have "\<forall>s \<in> {race_assert mode n f, race_shutdown mode n f}. ex_results (es_exec s) = [] \<and> ex_futures (es_exec s) = []"
    by (simp add: race_assert_def race_shutdown_def read_pool_def pool_submit_def shutdown_pool_def stop_section_def)
  ultimately show ?thesis using A B by blast
qed

theorem submit_meets_stop_witness:
  "THREAD \<noteq> SEQUENTIAL \<and> (thread_step (\<lambda>_. ''u''))\<^sup>*\<^sup>* (es_init THREAD 4) (race_assert THREAD 4 ()) \<and>
   es_pc (race_assert THREAD 4 ()) 0 = Raised no_pool"
  using submit_meets_stop[of THREAD "\<lambda>_. ''u''" 4 "()"] by simp


end
