(* ===== verification/Measured_Tasks.thy ===== *)
theory Measured_Tasks
  imports Task_Runner Reporting
begin

text \<open>
  A task with a \<open>TimingMeter\<close> among its \<open>on_execute\<close> observers, in a program with logging reporters: runner and
  channels (\<open>src/eventforge/task.py\<close>), meter, class-level subscribers and reporters
  (\<open>src/eventforge/observers.py\<close>) together, from a call of the task to the lines of the log.

  The state has the part \<open>rep_state\<close> of \<open>Reporting\<close> (meters, contexts, reporters, log, clock) and the runner's own
  channels and executor. A subscriber of a runner's channel is a bound method of a meter: the meter's address and the
  method's name.
\<close>

section \<open>The program\<close>

type_synonym bound_method = "nat \<times> string"

record 'f mt_state =
  mt_rep :: rep_state
  mt_channels :: "bound_method objects"
  mt_exec :: "'f executor"
  mt_pool :: task_pool
  mt_drawn :: nat
  mt_next_ctx :: nat

definition on_rep :: "(rep_state, 'a) py \<Rightarrow> ('f mt_state, 'a) py" where
  "on_rep m = (\<lambda>s. case m (mt_rep s) of (x, r) \<Rightarrow> (x, s\<lparr>mt_rep := r\<rparr>))"

text \<open>\<open>time.perf_counter()\<close>: the \<open>n\<close>-th reading is \<open>clk n\<close>.\<close>

definition rep_perf :: "(nat \<Rightarrow> real) \<Rightarrow> (rep_state, real) py" where
  "rep_perf clk = (\<lambda>s. (Inr (clk (p_reads s)), s\<lparr>p_reads := Suc (p_reads s)\<rparr>))"

text \<open>A \<open>TimingMeter\<close>: its class as \<open>dir\<close> shows it, and its methods.\<close>

definition timing_class :: "(string, bool) dict" where
  "timing_class = [(''measure'', True), (''name'', False), (''on_complete'', True), (''on_failure'', True),
     (''on_start'', True), (''on_success'', True)]"

definition timing_method ::
  "(pyval \<Rightarrow> string) \<Rightarrow> (pyval \<Rightarrow> string) \<Rightarrow> (nat \<Rightarrow> real) \<Rightarrow> real option \<Rightarrow> bound_method \<Rightarrow> nat \<Rightarrow> (rep_state, unit) py" where
  "timing_method str_of repr_of clk threshold = (\<lambda>(m, attr) ctx.
     let k = rep_ctx str_of repr_of in
     if attr = ''on_start'' then timing_on_start k (rep_perf clk) m ctx
     else if attr = ''on_success'' then meter_on_success k (timing_measure k (rep_perf clk) threshold) m ctx
     else if attr = ''on_failure'' then meter_on_failure m ctx
     else meter_on_complete m ctx)"

definition mt_env ::
  "(pyval \<Rightarrow> string) \<Rightarrow> (pyval \<Rightarrow> string) \<Rightarrow> (nat \<Rightarrow> real) \<Rightarrow> real option \<Rightarrow> (bound_method, nat, 'f mt_state) env" where
  "mt_env str_of repr_of clk threshold =
     \<lparr>call = (\<lambda>h ctx. on_rep (py_seq (timing_method str_of repr_of clk threshold h ctx) (py_ret PNone))),
      submit = (\<lambda>h ctx. on_rep (timing_method str_of repr_of clk threshold h ctx)), load_of = (\<lambda>_. py_ret 0),
      obj = mt_channels, upd_obj = (\<lambda>g s. s\<lparr>mt_channels := g (mt_channels s)\<rparr>)\<rparr>"

text \<open>The runner of a function that answers as \<open>f\<close> says, without a queue; its contexts are those the meters see.\<close>

definition mt_runner ::
  "(pyval \<Rightarrow> string) \<Rightarrow> (pyval \<Rightarrow> string) \<Rightarrow> (nat \<Rightarrow> real) \<Rightarrow> real option \<Rightarrow> (nat \<Rightarrow> string) \<Rightarrow>
   (pyval list \<Rightarrow> kwargs \<Rightarrow> pyexn + pyval) \<Rightarrow> 'f \<Rightarrow> string \<Rightarrow> (bound_method, 'f, 'f mt_state) runner" where
  "mt_runner str_of repr_of clk threshold uuid4 f func topic =
     \<lparr>rn_env = mt_env str_of repr_of clk threshold, rn_ctx = (\<lambda>s. p_ctxs (mt_rep s)),
      rn_upd_ctx = (\<lambda>i g s. s\<lparr>mt_rep := (mt_rep s)\<lparr>p_ctxs := (p_ctxs (mt_rep s))(i := g (p_ctxs (mt_rep s) i))\<rparr>\<rparr>),
      rn_new_ctx = (\<lambda>c s. (Inr (mt_next_ctx s), s\<lparr>mt_rep := (mt_rep s)\<lparr>p_ctxs := (p_ctxs (mt_rep s))(mt_next_ctx s := c)\<rparr>,
        mt_next_ctx := Suc (mt_next_ctx s)\<rparr>)),
      rn_start = 0, rn_success = 1, rn_failure = 2, rn_complete = 3, rn_func = func, rn_func_name = ''f'', rn_topic = topic,
      rn_exec = \<lparr>x_get = mt_exec, x_upd = (\<lambda>g s. s\<lparr>mt_exec := g (mt_exec s)\<rparr>),
        x_uuid = (\<lambda>s. (Inr (uuid4 (mt_drawn s)), s\<lparr>mt_drawn := Suc (mt_drawn s)\<rparr>)), x_clock = py_ret 0,
        x_thread = (\<lambda>_. ''MainThread''), x_pid = (\<lambda>_. 1), x_call = (\<lambda>_ args kw s. (f args kw, s))\<rparr>,
      rn_queue = None, rn_publish_result = True, rn_has_pool = False, rn_pool = mt_pool,
      rn_upd_pool = (\<lambda>g s. s\<lparr>mt_pool := g (mt_pool s)\<rparr>), rn_max_instances = 0, rn_instance_timeout = None\<rparr>"

lemma mt_runner_simps [simp]:
  "rn_env (mt_runner str_of repr_of clk threshold uuid4 f func topic) = mt_env str_of repr_of clk threshold"
  "rn_start (mt_runner str_of repr_of clk threshold uuid4 f func topic) = 0"
  "rn_success (mt_runner str_of repr_of clk threshold uuid4 f func topic) = 1"
  "rn_failure (mt_runner str_of repr_of clk threshold uuid4 f func topic) = 2"
  "rn_complete (mt_runner str_of repr_of clk threshold uuid4 f func topic) = 3"
  "rn_queue (mt_runner str_of repr_of clk threshold uuid4 f func topic) = None"
  "rn_has_pool (mt_runner str_of repr_of clk threshold uuid4 f func topic) = False"
  "rn_ctx (mt_runner str_of repr_of clk threshold uuid4 f func topic) = (\<lambda>s. p_ctxs (mt_rep s))"
  "rn_upd_ctx (mt_runner str_of repr_of clk threshold uuid4 f func topic) =
     (\<lambda>i g s. s\<lparr>mt_rep := (mt_rep s)\<lparr>p_ctxs := (p_ctxs (mt_rep s))(i := g (p_ctxs (mt_rep s) i))\<rparr>\<rparr>)"
  "x_clock (rn_exec (mt_runner str_of repr_of clk threshold uuid4 f func topic)) = py_ret 0"
  by (simp_all add: mt_runner_def)

section \<open>Attaching\<close>

text \<open>The runner's channels as \<open>TaskRunner.__init__\<close> leaves them: each has the meter's method of its name.\<close>

definition meter_attached :: "nat \<Rightarrow> 'f mt_state \<Rightarrow> bool" where
  "meter_attached m s = (o_nodes (mt_channels s) = (\<lambda>_. None) \<and> ex_mode (mt_exec s) = SEQUENTIAL \<and>
     (\<forall>(ch, attr) \<in> {(0, ''on_start''), (1, ''on_success''), (2, ''on_failure''), (3, ''on_complete'')}.
        o_eventfuls (mt_channels s) ch = \<lparr>ev_subscribers = [(m, attr)], ev_dispatcher = Broadcast, ev_owner_mro = None, ev_name = None\<rparr>))"

lemma measuring_frame [simp]:
  "listening rs (r\<lparr>p_ctxs := x\<rparr>) = listening rs r" "wired m ch mro (r\<lparr>p_ctxs := x\<rparr>) = wired m ch mro r"
  "listening rs (r\<lparr>p_reads := n\<rparr>) = listening rs r" "wired m ch mro (r\<lparr>p_reads := n\<rparr>) = wired m ch mro r"
  "meter_attached m (s\<lparr>mt_rep := r\<rparr>) = meter_attached m s"
  by (simp_all add: listening_def wired_def meter_attached_def)

lemma timing_event_names: "meter_event_names timing_class = [''on_complete'', ''on_failure'', ''on_start'', ''on_success'']"
  by (simp add: meter_event_names_def timing_class_def starts_on_def)

lemma runner_init_attaches:
  assumes "o_nodes (mt_channels s) = (\<lambda>_. None)" "ex_mode (mt_exec s) = SEQUENTIAL"
  shows "\<exists>s'. runner_init (mt_runner str_of repr_of clk threshold uuid4 f func topic) [(timing_class, \<lambda>attr. (m, attr))] None None None None s = (Inr (), s') \<and>
    meter_attached m s' \<and> mt_rep s' = mt_rep s \<and> mt_next_ctx s' = mt_next_ctx s"
  using assms
  by (simp add: runner_init_def py_simps upd_eventful_def mt_env_def meter_attach_def timing_event_names runner_channels_def
      ev_subscribe_def subscribe_opt_def meter_attached_def eventful_new_def)

section \<open>The methods of the meter\<close>

lemma mt_fire:
  assumes "meter_attached m s" "(ch, attr) \<in> {(0, ''on_start''), (1, ''on_success''), (2, ''on_failure''), (3, ''on_complete'')}"
    and "timing_method str_of repr_of clk threshold (m, attr) ctx (mt_rep s) = (Inr (), r)"
  shows "ev_fire (mt_env str_of repr_of clk threshold) ch ctx s = (Inr (), s\<lparr>mt_rep := r\<rparr>)"
proof -
  have "o_eventfuls (mt_channels s) ch = \<lparr>ev_subscribers = [(m, attr)], ev_dispatcher = Broadcast, ev_owner_mro = None, ev_name = None\<rparr>"
    "o_nodes (mt_channels s) = (\<lambda>_. None)" using assms(1,2) by (auto simp: meter_attached_def)
  then show ?thesis
    using assms(3) by (simp add: ev_fire_def py_simps mt_env_def dispatch_def broadcast_dispatch_def invoke_def on_rep_def)
qed

definition start_noted :: "(nat \<Rightarrow> real) \<Rightarrow> nat \<Rightarrow> nat \<Rightarrow> rep_state \<Rightarrow> rep_state" where
  "start_noted clk m c r = r\<lparr>p_reads := Suc (p_reads r), p_ctxs := (p_ctxs r)(c := (p_ctxs r c)\<lparr>tc_metadata :=
     dict_set (start_key (me_name (p_meters r m))) (PFloat (clk (p_reads r))) (tc_metadata (p_ctxs r c))\<rparr>)\<rparr>"

lemma on_start_notes: "timing_method str_of repr_of clk threshold (m, ''on_start'') c r = (Inr (), start_noted clk m c r)"
  by (simp add: timing_method_def timing_on_start_def rep_perf_def set_metadata_def py_simps start_noted_def)

lemma quiet_methods:
  "timing_method str_of repr_of clk threshold (m, ''on_failure'') c r = (Inr (), r)"
  "timing_method str_of repr_of clk threshold (m, ''on_complete'') c r = (Inr (), r)"
  by (simp_all add: timing_method_def meter_on_failure_def meter_on_complete_def py_simps)

text \<open>\<open>measure\<close>: the time since the start that \<open>on_start\<close> noted; only metadata of the context and the clock change.\<close>

lemma timing_measures:
  assumes "dict_get (tc_metadata (p_ctxs r c)) (start_key (me_name (p_meters r m))) = Some (PFloat t0)"
  shows "\<exists>d. timing_measure (rep_ctx str_of repr_of) (rep_perf clk) threshold m c r =
    (Inr (Some (clk (p_reads r) - t0)), r\<lparr>p_reads := Suc (p_reads r), p_ctxs := (p_ctxs r)(c := (p_ctxs r c)\<lparr>tc_metadata := d\<rparr>)\<rparr>)"
proof (cases "\<exists>th. threshold = Some th \<and> th \<noteq> 0 \<and> clk (p_reads r) - t0 > th")
  case True
  with assms show ?thesis
    by (intro exI) (auto simp: timing_measure_def dict_get_default_def rep_perf_def py_simps meta_num_def set_metadata_def)
next
  case False
  with assms show ?thesis
    by (intro exI[of _ "tc_metadata (p_ctxs r c)"])
      (auto simp: timing_measure_def dict_get_default_def rep_perf_def py_simps meta_num_def split: option.split)
qed

lemma on_success_logs:
  assumes "listening rs r" "wired m ch mro r" "distinct mro" "''Meter'' \<in> set mro"
    and "dict_get (tc_metadata (p_ctxs r c)) (start_key (me_name (p_meters r m))) = Some (PFloat t0)"
  shows "\<exists>r'. timing_method str_of repr_of clk threshold (m, ''on_success'') c r = (Inr (), r') \<and>
    p_lines r' = p_lines r @ map (report str_of repr_of (me_name (p_meters r m)) (Some (clk (p_reads r) - t0)) (p_ctxs r c)) rs \<and>
    p_meters r' = (p_meters r)(m := meter_add (clk (p_reads r) - t0) 1 (p_meters r m)) \<and> listening rs r' \<and> wired m ch mro r' \<and>
    p_reads r' = Suc (p_reads r) \<and> tc_result (p_ctxs r' c) = tc_result (p_ctxs r c)"
proof -
  let ?f = "timing_measure (rep_ctx str_of repr_of) (rep_perf clk) threshold" and ?v = "Some (clk (p_reads r) - t0)"
  from timing_measures[OF assms(5), of str_of repr_of clk threshold] obtain d where
    "?f m c r = (Inr ?v, r\<lparr>p_reads := Suc (p_reads r), p_ctxs := (p_ctxs r)(c := (p_ctxs r c)\<lparr>tc_metadata := d\<rparr>)\<rparr>)" by blast
  then obtain r1 where f: "?f m c r = (Inr ?v, r1)"
    and r1: "r1 = r\<lparr>p_reads := Suc (p_reads r), p_ctxs := (p_ctxs r)(c := (p_ctxs r c)\<lparr>tc_metadata := d\<rparr>)\<rparr>" by blast
  have lw: "listening rs r1" "wired m ch mro r1" using assms(1,2) by (simp_all add: r1 listening_def wired_def)
  have run: "timing_method str_of repr_of clk threshold (m, ''on_success'') c r = (Inr (), measured str_of repr_of rs m (c, ?v) r1)"
    using on_success_measures[where measure_fn = ?f, OF lw assms(3,4) f, of str_of repr_of] by (simp add: timing_method_def Let_def)
  show ?thesis
    using lw by (intro exI[of _ "measured str_of repr_of rs m (c, ?v) r1"]) (simp add: run measured_facts, simp add: measured_def r1)
qed

section \<open>One call\<close>

text \<open>What a reporter writes depends on the arguments and the result of the call only.\<close>

definition call_ctx :: "pyval list \<Rightarrow> kwargs \<Rightarrow> pyval \<Rightarrow> task_context" where
  "call_ctx args kw v = \<lparr>tc_task_id = [], tc_func_name = [], tc_topic = None, tc_args = args, tc_kwargs = kw, tc_start_time = 0,
     tc_end_time = 0, tc_result = v, tc_error = None, tc_metadata = []\<rparr>"

lemma report_call_ctx:
  "tc_args ctx = args \<Longrightarrow> tc_kwargs ctx = kw \<Longrightarrow> tc_result ctx = v \<Longrightarrow>
   report str_of repr_of name x ctx = report str_of repr_of name x (call_ctx args kw v)"
  by (simp add: report_def log_line_def call_ctx_def fun_eq_iff)

text \<open>The program is set up: reporters listen, the meter has its channels and is attached to the runner.\<close>

definition measuring :: "(nat \<times> logging_reporter) list \<Rightarrow> nat \<Rightarrow> nat \<Rightarrow> string list \<Rightarrow> 'f mt_state \<Rightarrow> bool" where
  "measuring rs m ch mro s = (meter_attached m s \<and> listening rs (mt_rep s) \<and> wired m ch mro (mt_rep s))"

definition run_started :: "(nat \<Rightarrow> real) \<Rightarrow> nat \<Rightarrow> string \<Rightarrow> string \<Rightarrow> pyval list \<Rightarrow> kwargs \<Rightarrow> 'f mt_state \<Rightarrow> 'f mt_state" where
  "run_started clk m i topic args kw s = (let c = mt_next_ctx s in s\<lparr>mt_drawn := Suc (mt_drawn s), mt_next_ctx := Suc c,
     mt_rep := start_noted clk m c ((mt_rep s)\<lparr>p_ctxs := (p_ctxs (mt_rep s))(c :=
       \<lparr>tc_task_id = i, tc_func_name = ''f'', tc_topic = Some topic, tc_args = args, tc_kwargs = kw, tc_start_time = 0,
        tc_end_time = 0, tc_result = PNone, tc_error = None, tc_metadata = []\<rparr>)\<rparr>)\<rparr>)"

lemma run_started_facts:
  "meter_attached m (run_started clk m i topic args kw s) = meter_attached m s"
  "listening rs (mt_rep (run_started clk m i topic args kw s)) = listening rs (mt_rep s)"
  "wired m ch mro (mt_rep (run_started clk m i topic args kw s)) = wired m ch mro (mt_rep s)"
  "p_meters (mt_rep (run_started clk m i topic args kw s)) = p_meters (mt_rep s)"
  "p_lines (mt_rep (run_started clk m i topic args kw s)) = p_lines (mt_rep s)"
  "p_reads (mt_rep (run_started clk m i topic args kw s)) = Suc (p_reads (mt_rep s))"
  "dict_get (tc_metadata (p_ctxs (mt_rep (run_started clk m i topic args kw s)) (mt_next_ctx s))) (start_key (me_name (p_meters (mt_rep s) m))) =
     Some (PFloat (clk (p_reads (mt_rep s))))"
  "tc_args (p_ctxs (mt_rep (run_started clk m i topic args kw s)) (mt_next_ctx s)) = args"
  "tc_kwargs (p_ctxs (mt_rep (run_started clk m i topic args kw s)) (mt_next_ctx s)) = kw"
  "ex_mode (mt_exec (run_started clk m i topic args kw s)) = ex_mode (mt_exec s)"
  by (simp_all add: run_started_def start_noted_def meter_attached_def listening_def wired_def Let_def)

lemma task_run_started:
  assumes "measuring rs m ch mro s" "R = mt_runner str_of repr_of clk threshold uuid4 f func topic"
  shows "task_run R args kw s =
    (case py_finally (py_try_else (\<lambda>s. (f args kw, s)) (on_failure_path R (mt_next_ctx s)) (on_success_path R (mt_next_ctx s)))
       (ev_fire (rn_env R) (rn_complete R) (mt_next_ctx s)) (run_started clk m (uuid4 (mt_drawn s)) topic args kw s) of (r, s') \<Rightarrow> (Got r, s'))"
proof -
  let ?c = "mt_next_ctx s" and ?C = "\<lparr>tc_task_id = uuid4 (mt_drawn s), tc_func_name = ''f'', tc_topic = Some topic, tc_args = args, tc_kwargs = kw,
    tc_start_time = 0, tc_end_time = 0, tc_result = PNone, tc_error = None, tc_metadata = []\<rparr>"
  let ?s1 = "s\<lparr>mt_drawn := Suc (mt_drawn s), mt_rep := (mt_rep s)\<lparr>p_ctxs := (p_ctxs (mt_rep s))(?c := ?C)\<rparr>, mt_next_ctx := Suc ?c\<rparr>"
  let ?s2 = "run_started clk m (uuid4 (mt_drawn s)) topic args kw s"
  have new: "new_context R args kw s = (Inr ?c, ?s1)"
    by (simp add: assms(2) mt_runner_def new_context_def py_simps)
  have "meter_attached m ?s1" using assms(1) by (simp add: measuring_def meter_attached_def)
  from mt_fire[OF this _ on_start_notes, of 0] have start: "ev_fire (rn_env R) (rn_start R) ?c ?s1 = (Inr (), ?s2)"
    by (simp add: assms(2) run_started_def Let_def)
  have "run_body R args kw ?s2 = (f args kw, ?s2)"
    using assms(1) by (simp add: assms(2) run_body_def py_simps mt_runner_def measuring_def meter_attached_def run_started_def Let_def)
  then have body: "py_try_else (run_body R args kw) h k ?s2 = py_try_else (\<lambda>s. (f args kw, s)) h k ?s2" for h k
    by (simp add: py_try_else_def)
  have "rn_has_pool R = False" by (simp add: assms(2))
  then show ?thesis
    by (simp add: task_run_def task_execute_def new start body py_bind_apply py_seq_def py_finally_apply)
qed

text \<open>
  A call that succeeds: the value is returned, every reporter writes a line with the time between the two readings
  of the clock, and the meter counts it.
\<close>

lemma success_measured:
  assumes "measuring rs m ch mro s" "distinct mro" "''Meter'' \<in> set mro" "f args kw = Inr v" "R = mt_runner str_of repr_of clk threshold uuid4 f func topic"
  shows "\<exists>s'. task_run R args kw s = (Got (Inr v), s') \<and> measuring rs m ch mro s' \<and> p_reads (mt_rep s') = p_reads (mt_rep s) + 2 \<and>
    (let el = clk (p_reads (mt_rep s) + 1) - clk (p_reads (mt_rep s)) in
     p_lines (mt_rep s') = p_lines (mt_rep s) @ map (report str_of repr_of (me_name (p_meters (mt_rep s) m)) (Some el) (call_ctx args kw v)) rs \<and>
     p_meters (mt_rep s') = (p_meters (mt_rep s))(m := meter_add el 1 (p_meters (mt_rep s) m)))"
proof -
  let ?c = "mt_next_ctx s" and ?s1 = "run_started clk m (uuid4 (mt_drawn s)) topic args kw s"
  let ?el = "clk (p_reads (mt_rep s) + 1) - clk (p_reads (mt_rep s))"
  note F = run_started_facts[where clk = clk and i = "uuid4 (mt_drawn s)" and topic = topic and args = args and kw = kw and s = s and m = m]
  have st: "meter_attached m s" "listening rs (mt_rep s)" "wired m ch mro (mt_rep s)" using assms(1) by (simp_all add: measuring_def)
  define s2 where "s2 = ?s1\<lparr>mt_rep := (mt_rep ?s1)\<lparr>p_ctxs := (p_ctxs (mt_rep ?s1))(?c := (p_ctxs (mt_rep ?s1) ?c)\<lparr>tc_result := v, tc_end_time := 0\<rparr>)\<rparr>\<rparr>"
  have s2: "meter_attached m s2" "listening rs (mt_rep s2)" "wired m ch mro (mt_rep s2)" "p_meters (mt_rep s2) = p_meters (mt_rep s)"
    "p_lines (mt_rep s2) = p_lines (mt_rep s)" "p_reads (mt_rep s2) = Suc (p_reads (mt_rep s))"
    "dict_get (tc_metadata (p_ctxs (mt_rep s2) ?c)) (start_key (me_name (p_meters (mt_rep s2) m))) = Some (PFloat (clk (p_reads (mt_rep s))))"
    "tc_args (p_ctxs (mt_rep s2) ?c) = args" "tc_kwargs (p_ctxs (mt_rep s2) ?c) = kw" "tc_result (p_ctxs (mt_rep s2) ?c) = v"
    using st by (simp_all add: s2_def F)
  from on_success_logs[OF s2(2,3) assms(2,3) s2(7), of str_of repr_of clk threshold] obtain r' where
    r': "timing_method str_of repr_of clk threshold (m, ''on_success'') ?c (mt_rep s2) = (Inr (), r')"
      "p_lines r' = p_lines (mt_rep s) @ map (report str_of repr_of (me_name (p_meters (mt_rep s) m)) (Some ?el) (p_ctxs (mt_rep s2) ?c)) rs"
      "p_meters r' = (p_meters (mt_rep s))(m := meter_add ?el 1 (p_meters (mt_rep s) m))" "listening rs r'" "wired m ch mro r'"
      "p_reads r' = p_reads (mt_rep s) + 2" "tc_result (p_ctxs r' ?c) = v"
    unfolding s2 by auto
  let ?s' = "s2\<lparr>mt_rep := r'\<rparr>"
  have att: "meter_attached m ?s'" using s2(1) by simp
  have fire: "ev_fire (mt_env str_of repr_of clk threshold) (Suc 0) ?c s2 = (Inr (), ?s')"
    using mt_fire[OF s2(1) _ r'(1), of 1] by simp
  have "on_success_path R ?c v ?s1 = (Inr v, ?s')"
    using fire r'(7) by (simp add: on_success_path_def set_end_time_def publish_quietly_def py_simps assms(5) s2_def)
  moreover have "ev_fire (mt_env str_of repr_of clk threshold) 3 ?c ?s' = (Inr (), ?s')"
    using mt_fire[OF att _ quiet_methods(2), of 3] by simp
  ultimately have "task_run R args kw s = (Got (Inr v), ?s')"
    unfolding task_run_started[OF assms(1,5)] py_finally_apply by (simp add: py_try_else_def assms(4,5))
  moreover have "measuring rs m ch mro ?s'" using att r'(4,5) by (simp add: measuring_def)
  ultimately show ?thesis using r'(2,3,6) report_call_ctx[OF s2(8-10)] by (intro exI[of _ ?s']) (simp add: Let_def)
qed

lemma failure_measured:
  assumes "measuring rs m ch mro s" "f args kw = Inl e" "is_Exc e" "R = mt_runner str_of repr_of clk threshold uuid4 f func topic"
  shows "\<exists>s'. task_run R args kw s = (Got (Inl e), s') \<and> measuring rs m ch mro s' \<and> p_reads (mt_rep s') = p_reads (mt_rep s) + 1 \<and>
    p_lines (mt_rep s') = p_lines (mt_rep s) \<and> p_meters (mt_rep s') = p_meters (mt_rep s)"
proof -
  let ?c = "mt_next_ctx s" and ?s1 = "run_started clk m (uuid4 (mt_drawn s)) topic args kw s"
  note F = run_started_facts[where clk = clk and i = "uuid4 (mt_drawn s)" and topic = topic and args = args and kw = kw and s = s and m = m]
  have st: "meter_attached m s" "listening rs (mt_rep s)" "wired m ch mro (mt_rep s)" using assms(1) by (simp_all add: measuring_def)
  define s2 where "s2 = ?s1\<lparr>mt_rep := (mt_rep ?s1)\<lparr>p_ctxs := (p_ctxs (mt_rep ?s1))(?c := (p_ctxs (mt_rep ?s1) ?c)\<lparr>tc_error := Some e, tc_end_time := 0\<rparr>)\<rparr>\<rparr>"
  have s2: "meter_attached m s2" "listening rs (mt_rep s2)" "wired m ch mro (mt_rep s2)" "p_meters (mt_rep s2) = p_meters (mt_rep s)"
    "p_lines (mt_rep s2) = p_lines (mt_rep s)" "p_reads (mt_rep s2) = Suc (p_reads (mt_rep s))"
    using st by (simp_all add: s2_def F)
  have same: "s2\<lparr>mt_rep := mt_rep s2\<rparr> = s2" by simp
  have "ev_fire (mt_env str_of repr_of clk threshold) 2 ?c s2 = (Inr (), s2)"
    using mt_fire[OF s2(1) _ quiet_methods(1), of 2] by simp
  then have "on_failure_path R ?c e ?s1 = (Inl e, s2)"
    by (simp add: on_failure_path_def set_end_time_def publish_quietly_def py_simps assms(4) s2_def)
  moreover have "ev_fire (mt_env str_of repr_of clk threshold) 3 ?c s2 = (Inr (), s2)"
    using mt_fire[OF s2(1) _ quiet_methods(2), of 3] by simp
  ultimately have "task_run R args kw s = (Got (Inl e), s2)"
    unfolding task_run_started[OF assms(1,4)] py_finally_apply by (simp add: py_try_else_def assms(2-4))
  with s2 show ?thesis by (simp add: measuring_def)
qed

section \<open>From the calls to the log\<close>

text \<open>Calls of the task one after the other, by a caller that goes on after an exception.\<close>

fun run_calls ::
  "('h, 'f, 's) runner \<Rightarrow> (pyval list \<times> kwargs) list \<Rightarrow> 's \<Rightarrow> (pyexn + pyval) waiting list \<times> 's" where
  "run_calls R [] s = ([], s)"
| "run_calls R ((args, kw) # calls) s =
     (case task_run R args kw s of (out, s1) \<Rightarrow> case run_calls R calls s1 of (outs, s2) \<Rightarrow> (out # outs, s2))"

text \<open>The measurements the calls should give: arguments, value and elapsed time of those that succeed.\<close>

fun timings ::
  "(nat \<Rightarrow> real) \<Rightarrow> (pyval list \<Rightarrow> kwargs \<Rightarrow> pyexn + pyval) \<Rightarrow> nat \<Rightarrow> (pyval list \<times> kwargs) list \<Rightarrow>
   (pyval list \<times> kwargs \<times> pyval \<times> real) list" where
  "timings clk f n [] = []"
| "timings clk f n ((args, kw) # calls) = (case f args kw of
       Inr v \<Rightarrow> (args, kw, v, clk (n + 1) - clk n) # timings clk f (n + 2) calls
     | Inl e \<Rightarrow> timings clk f (n + 1) calls)"

definition timing_lines ::
  "(pyval \<Rightarrow> string) \<Rightarrow> (pyval \<Rightarrow> string) \<Rightarrow> string \<Rightarrow> (nat \<times> logging_reporter) list \<Rightarrow> (pyval list \<times> kwargs \<times> pyval \<times> real) list \<Rightarrow>
   (string \<times> int \<times> string) list" where
  "timing_lines str_of repr_of name rs T =
     concat (map (\<lambda>(args, kw, v, el). map (report str_of repr_of name (Some el) (call_ctx args kw v)) rs) T)"

definition timing_updates :: "(pyval list \<times> kwargs \<times> pyval \<times> real) list \<Rightarrow> (real \<times> int) list" where
  "timing_updates T = map (\<lambda>(args, kw, v, el). (el, 1)) T"

lemma run_calls_measured:
  assumes "measuring rs m ch mro s" "distinct mro" "''Meter'' \<in> set mro" "\<forall>args kw e. f args kw = Inl e \<longrightarrow> is_Exc e"
    and R: "R = mt_runner str_of repr_of clk threshold uuid4 f func topic"
  shows "\<exists>s'. run_calls R calls s = (map (\<lambda>(args, kw). Got (f args kw)) calls, s') \<and>
    p_lines (mt_rep s') = p_lines (mt_rep s) @
      timing_lines str_of repr_of (me_name (p_meters (mt_rep s) m)) rs (timings clk f (p_reads (mt_rep s)) calls) \<and>
    p_meters (mt_rep s') m = meter_adds (timing_updates (timings clk f (p_reads (mt_rep s)) calls)) (p_meters (mt_rep s) m)"
  using assms(1)
proof (induction calls arbitrary: s)
  case Nil
  show ?case by (simp add: timing_lines_def timing_updates_def meter_adds_def)
next
  case (Cons call calls)
  obtain args kw where c: "call = (args, kw)" by fastforce
  show ?case
  proof (cases "f args kw")
    case (Inl e)
    with assms(4) have "is_Exc e" by blast
    from failure_measured[where f = f, OF Cons.prems Inl this R] obtain s1 where
      s1: "task_run R args kw s = (Got (Inl e), s1)" "measuring rs m ch mro s1" "p_reads (mt_rep s1) = p_reads (mt_rep s) + 1"
        "p_lines (mt_rep s1) = p_lines (mt_rep s)" "p_meters (mt_rep s1) = p_meters (mt_rep s)" by blast
    from Cons.IH[OF s1(2)] show ?thesis unfolding s1(3-5) by (auto simp: c s1(1) Inl)
  next
    case (Inr v)
    let ?el = "clk (p_reads (mt_rep s) + 1) - clk (p_reads (mt_rep s))"
    from success_measured[where f = f, OF Cons.prems assms(2,3) Inr R] obtain s1 where
      s1: "task_run R args kw s = (Got (Inr v), s1)" "measuring rs m ch mro s1" "p_reads (mt_rep s1) = p_reads (mt_rep s) + 2"
        "p_lines (mt_rep s1) = p_lines (mt_rep s) @ map (report str_of repr_of (me_name (p_meters (mt_rep s) m)) (Some ?el) (call_ctx args kw v)) rs"
        "p_meters (mt_rep s1) = (p_meters (mt_rep s))(m := meter_add ?el 1 (p_meters (mt_rep s) m))" unfolding Let_def by blast
    have nm: "me_name (p_meters (mt_rep s1) m) = me_name (p_meters (mt_rep s) m)" by (simp add: s1(5))
    have adds: "meter_adds ((?el, 1) # us) (p_meters (mt_rep s) m) = meter_adds us (p_meters (mt_rep s1) m)" for us
      by (simp add: meter_adds_def s1(5))
    from Cons.IH[OF s1(2)] show ?thesis
      unfolding nm s1(3,4) by (auto simp: c s1(1) Inr timing_lines_def timing_updates_def adds[simplified])
  qed
qed

text \<open>The set-up: reporters, a timing meter, and a runner with the meter among its observers.\<close>

definition mt_setup ::
  "(pyval \<Rightarrow> string) \<Rightarrow> (pyval \<Rightarrow> string) \<Rightarrow> (nat \<times> logging_reporter) list \<Rightarrow> nat \<Rightarrow> nat \<Rightarrow> string list \<Rightarrow> string \<Rightarrow> string \<Rightarrow>
   (bound_method, 'f, 'f mt_state) runner \<Rightarrow> ('f mt_state, unit) py" where
  "mt_setup str_of repr_of rs m ch mro name red R =
     py_seq (on_rep (py_for (new_reporter str_of repr_of) rs))
     (py_seq (on_rep (timing_init (rep_ctx str_of repr_of) m ch mro (Some name) (Some red)))
       (runner_init R [(timing_class, \<lambda>attr. (m, attr))] None None None None))"

lemma mt_setup_measures:
  assumes "listening [] (mt_rep s)" "distinct (map fst rs)" "dict_get REDUCTIONS red \<noteq> None" "o_nodes (mt_channels s) = (\<lambda>_. None)"
    "ex_mode (mt_exec s) = SEQUENTIAL" and R: "R = mt_runner str_of repr_of clk threshold uuid4 f func topic"
  shows "\<exists>s'. mt_setup str_of repr_of rs m ch mro name red R s = (Inr (), s') \<and> measuring rs m ch mro s' \<and>
    p_lines (mt_rep s') = p_lines (mt_rep s) \<and> p_reads (mt_rep s') = p_reads (mt_rep s) \<and> me_name (p_meters (mt_rep s') m) = name \<and>
    (\<exists>m0. p_meters (mt_rep s') m = meter_clear m0 \<and> me_reduction m0 = red)"
proof -
  have "distinct (map fst ([] @ rs))" using assms(2) by simp
  from new_reporters_listen[OF assms(1) this, of str_of repr_of] obtain r1 where
    r1: "py_for (new_reporter str_of repr_of) rs (mt_rep s) = (Inr (), r1)" "listening rs r1" "p_lines r1 = p_lines (mt_rep s)"
      "p_reads r1 = p_reads (mt_rep s)" by auto
  let ?r2 = "built m ch mro name red r1"
  have init: "timing_init (rep_ctx str_of repr_of) m ch mro (Some name) (Some red) r1 = (Inr (), ?r2)"
    using meter_init_builds[OF r1(2) assms(3)] by (simp add: timing_init_def)
  let ?s2 = "s\<lparr>mt_rep := ?r2\<rparr>"
  from runner_init_attaches[of ?s2 str_of repr_of clk threshold uuid4 f func topic m] assms(4,5) obtain s' where
    s': "runner_init R [(timing_class, \<lambda>attr. (m, attr))] None None None None ?s2 = (Inr (), s')" "meter_attached m s'" "mt_rep s' = ?r2"
    unfolding R by auto
  have "mt_setup str_of repr_of rs m ch mro name red R s = (Inr (), s')"
    using s'(1) by (simp add: mt_setup_def py_simps on_rep_def r1(1) init)
  moreover have "measuring rs m ch mro s'" using s'(2,3) built_facts(1)[OF r1(2)] built_facts(2) by (simp add: measuring_def)
  moreover have "p_reads ?r2 = p_reads r1" by (simp add: built_def)
  ultimately show ?thesis using built_facts(3,5,6)[of m ch mro name red r1] s'(3) r1(3,4) by auto
qed


definition demo_measured :: "unit mt_state" where
  "demo_measured = \<lparr>mt_rep = demo_rep, mt_channels = \<lparr>o_nodes = (\<lambda>_. None), o_eventfuls = (\<lambda>_. eventful_new None None None), o_rr_idx = (\<lambda>_. 0),
     o_class_subscribers = []\<rparr>, mt_exec = executor_init SEQUENTIAL 4, mt_pool = \<lparr>tp_max = 1, tp_sem = 1, tp_active = 0, tp_total = 0, tp_queued = 0\<rparr>,
     mt_drawn = 0, mt_next_ctx = 7\<rparr>"

text \<open>A function that fails on zero, and a clock that advances by the number of readings.\<close>

definition demo_job :: "pyval list \<Rightarrow> kwargs \<Rightarrow> pyexn + pyval" where
  "demo_job args kw = (if args = [PInt 0] then Inl (Exception ''ValueError'' ''zero'') else Inr (PInt 1))"

definition demo_clock :: "nat \<Rightarrow> real" where
  "demo_clock n = real n * real n"

definition demo_meters_runner :: "(bound_method, unit, unit mt_state) runner" where
  "demo_meters_runner = mt_runner demo_str demo_str demo_clock None demo_ids demo_job () ''t''"


end
