(* ===== verification/Nats_Loop.thy ===== *)
theory Nats_Loop
  imports Nats_Transport
begin

text \<open>
  The private event loop of \<open>src/eventforge/transports/nats.py\<close>. A caller hands a coroutine to the loop with \<open>_run\<close> and
  waits for its future; the loop thread runs the coroutines and the callbacks of the NATS subscriptions, one at
  a time. \<open>_dispatch\<close> takes the lock of the transport on the loop thread, and \<open>_ensure_queue_subscription\<close> calls
  \<open>_run\<close> with the lock held. The threads are numbered; the calls of the NATS client are steps of the loop, which end
  with an outcome or are suspended. The callback pool takes every job it is given, also after \<open>close\<close>. Shown: what every interleaving keeps, that the two uses of the lock can lock
  each other out for good, and that nothing else can.
\<close>

section \<open>Waiting for a coroutine\<close>

text \<open>
  A coroutine is the time it takes and its outcome, or \<open>None\<close> if it does not end. \<open>_run\<close> waits for the timeout or
  for ever; on a timeout it cancels the future (the boolean) and raises.
\<close>

definition futures_timeout :: pyexn where
  "futures_timeout = Exception ''TimeoutError'' []"

definition nt_run :: "real option \<Rightarrow> (real \<times> (pyexn + 'a)) option \<Rightarrow> ((pyexn + 'a) \<times> bool) waiting" where
  "nt_run timeout coro = (case coro of
       None \<Rightarrow> (case timeout of None \<Rightarrow> Blocked | Some _ \<Rightarrow> Got (Inl futures_timeout, True))
     | Some (d, r) \<Rightarrow>
         (case timeout of
            None \<Rightarrow> Got (r, False)
          | Some x \<Rightarrow> if d \<le> x then Got (r, False) else Got (Inl futures_timeout, True)))"

text \<open>The keywords of \<open>_connect\<close>: the caller's come last and win.\<close>

definition connect_kwargs :: "real \<Rightarrow> kwargs \<Rightarrow> kwargs" where
  "connect_kwargs connect_timeout user =
     dict_merge [(''connect_timeout'', PFloat connect_timeout), (''allow_reconnect'', PBool False),
       (''max_reconnect_attempts'', PInt 0)] user"

text \<open>The constructor with its bounded wait for the connection.\<close>

definition nt_open ::
  "(kwargs \<Rightarrow> (real \<times> (pyexn + unit)) option) \<Rightarrow> real \<Rightarrow> kwargs \<Rightarrow> ((pyexn + unit) \<times> ('cb, 'ns) nats_transport) waiting" where
  "nt_open connect connect_timeout user =
     (case nt_run (Some (connect_timeout + 2)) (connect (connect_kwargs connect_timeout user)) of
        Blocked \<Rightarrow> Blocked
      | Got (r, _) \<Rightarrow> (case nt_init (\<lambda>u. (r, u)) () of (r', (t, _)) \<Rightarrow> Got (r', t)))"

text \<open>The constructor returns whatever the server does, with a transport that runs exactly if it is connected.\<close>

lemma nt_open_returns:
  "\<exists>r t. nt_open connect connect_timeout user = Got (r, t) \<and> nt_running t = nt_connected t \<and>
     nt_connected t = (\<exists>d. connect (connect_kwargs connect_timeout user) = Some (d, Inr ()) \<and> d \<le> connect_timeout + 2)"
  by (auto simp: nt_open_def nt_run_def nt_init_def nt_new_def split: option.split sum.split prod.split if_split)

lemma connect_kwargs_user:
  "dict_ok user \<Longrightarrow> dict_get (connect_kwargs x user) k = (case dict_get user k of
     None \<Rightarrow> dict_get (connect_kwargs x []) k | Some v \<Rightarrow> Some v)"
  by (simp add: connect_kwargs_def dict_get_merge split: option.split)

section \<open>Threads, the lock and the loop\<close>

datatype coro = CSub string | CUnsub nat | CPub string message | CDrain

datatype loop_item = RunCoro nat coro | Deliver message | StopLoop

datatype 'cb nats_pc =
    Free
  | EnsureEnter string
  | EnsureWait string
  | EnsureGot string "pyexn + nat"
  | Getting string
  | SubWait string 'cb
  | SubGot string 'cb "pyexn + nat"
  | UnsubWait
  | SendWait
  | CloseWait
  | CloseGot
  | CloseClear

record 'cb loop_sys =
  ls_t :: "('cb, nat) nats_transport"
  ls_lock :: "nat option"
  ls_alive :: bool
  ls_loop :: "message option"
  ls_ready :: "loop_item list"
  ls_pc :: "nat \<Rightarrow> 'cb nats_pc"
  ls_nats :: "(nat, string) dict"
  ls_next :: nat
  ls_made :: "string list"

text \<open>
  \<open>ls_loop\<close> is the message whose callback the loop thread is in, at the lock; \<open>ls_nats\<close> has the live subscriptions of the
  NATS client by their handles, \<open>ls_made\<close> the topics that got a queue subscription, in order.
\<close>

definition ls_init :: "'cb loop_sys" where
  "ls_init = \<lparr>ls_t = nt_new\<lparr>nt_connected := True\<rparr>, ls_lock = None, ls_alive = True, ls_loop = None, ls_ready = [],
     ls_pc = (\<lambda>_. Free), ls_nats = [], ls_next = 0, ls_made = []\<rparr>"

definition thread_at :: "nat \<Rightarrow> 'cb nats_pc \<Rightarrow> 'cb loop_sys \<Rightarrow> 'cb loop_sys" where
  "thread_at i pc s = s\<lparr>ls_pc := (ls_pc s)(i := pc)\<rparr>"

text \<open>\<open>run_coroutine_threadsafe\<close> and the wait for its future.\<close>

definition run_coro :: "nat \<Rightarrow> coro \<Rightarrow> 'cb nats_pc \<Rightarrow> 'cb loop_sys \<Rightarrow> 'cb loop_sys" where
  "run_coro i c pc s = thread_at i pc (s\<lparr>ls_ready := ls_ready s @ [RunCoro i c]\<rparr>)"

text \<open>\<open>_ensure_queue_subscription\<close>: the lock is kept from the test of the table to the entry of the subscription.\<close>

definition ensure_enter :: "nat \<Rightarrow> string \<Rightarrow> 'cb loop_sys \<Rightarrow> 'cb loop_sys" where
  "ensure_enter i topic s =
     (if dict_get (nt_queue_subs (ls_t s)) topic \<noteq> None then thread_at i (Getting topic) s
      else run_coro i (CSub (to_nats_subject topic)) (EnsureWait topic) (s\<lparr>ls_lock := Some i\<rparr>))"

definition ensure_leave :: "nat \<Rightarrow> string \<Rightarrow> pyexn + nat \<Rightarrow> 'cb loop_sys \<Rightarrow> 'cb loop_sys" where
  "ensure_leave i topic r s = (case r of
       Inl _ \<Rightarrow> thread_at i Free (s\<lparr>ls_lock := None\<rparr>)
     | Inr ns \<Rightarrow> thread_at i (Getting topic)
         (s\<lparr>ls_lock := None, ls_t := (ls_t s)\<lparr>nt_queue_subs := dict_set topic ns (nt_queue_subs (ls_t s))\<rparr>\<rparr>))"

definition queue_get :: "nat \<Rightarrow> string \<Rightarrow> 'cb loop_sys \<Rightarrow> 'cb loop_sys" where
  "queue_get i topic s = thread_at i Free (s\<lparr>ls_t := snd (nt_pop topic (ls_t s))\<rparr>)"

text \<open>\<open>subscribe\<close> waits for its coroutine without the lock, and enters the subscription under it.\<close>

definition subscribe_leave :: "nat \<Rightarrow> string \<Rightarrow> string \<Rightarrow> 'cb \<Rightarrow> nat \<Rightarrow> 'cb loop_sys \<Rightarrow> 'cb loop_sys" where
  "subscribe_leave i sub_id topic cb ns s = thread_at i Free (s\<lparr>ls_t := nt_add ns sub_id topic cb (ls_t s)\<rparr>)"

definition unsubscribe_call :: "nat \<Rightarrow> string \<Rightarrow> 'cb loop_sys \<Rightarrow> 'cb loop_sys" where
  "unsubscribe_call i sub_id s =
     (if dict_get (nt_subscribers (ls_t s)) sub_id = None then s
      else case dict_get (nt_nats_subs (ls_t s)) sub_id of
        None \<Rightarrow> s\<lparr>ls_t := nt_remove sub_id (ls_t s)\<rparr>
      | Some ns \<Rightarrow> run_coro i (CUnsub ns) UnsubWait (s\<lparr>ls_t := nt_remove sub_id (ls_t s)\<rparr>))"

text \<open>\<open>close\<close>: the flag, the drained connection, \<open>_nc = None\<close>, the tables under the lock, and the loop told to stop.\<close>

definition close_call :: "nat \<Rightarrow> 'cb loop_sys \<Rightarrow> 'cb loop_sys" where
  "close_call i s =
     (let s1 = s\<lparr>ls_t := (ls_t s)\<lparr>nt_running := False\<rparr>\<rparr>
      in if nt_connected (ls_t s) then run_coro i CDrain CloseWait s1 else thread_at i CloseGot s1)"

definition close_nc :: "nat \<Rightarrow> 'cb loop_sys \<Rightarrow> 'cb loop_sys" where
  "close_nc i s = thread_at i CloseClear (s\<lparr>ls_t := (ls_t s)\<lparr>nt_connected := False\<rparr>\<rparr>)"

definition close_tables :: "nat \<Rightarrow> 'cb loop_sys \<Rightarrow> 'cb loop_sys" where
  "close_tables i s = thread_at i Free (s\<lparr>ls_t := nt_cleared (ls_t s), ls_ready := ls_ready s @ [StopLoop]\<rparr>)"

text \<open>The outcome of a coroutine goes to the thread that waits for it.\<close>

fun wake :: "pyexn + nat \<Rightarrow> 'cb nats_pc \<Rightarrow> 'cb nats_pc" where
  "wake r (EnsureWait topic) = EnsureGot topic r"
| "wake r (SubWait topic cb) = SubGot topic cb r"
| "wake r CloseWait = CloseGot"
| "wake r pc = Free"

definition finish_coro :: "nat \<Rightarrow> pyexn + nat \<Rightarrow> 'cb loop_sys \<Rightarrow> 'cb loop_sys" where
  "finish_coro i r s = thread_at i (wake r (ls_pc s i)) (s\<lparr>ls_ready := tl (ls_ready s)\<rparr>)"

definition nats_subscribed :: "nat \<Rightarrow> string \<Rightarrow> 'cb loop_sys \<Rightarrow> 'cb loop_sys" where
  "nats_subscribed i subject s =
     (let s1 = s\<lparr>ls_nats := dict_set (ls_next s) subject (ls_nats s), ls_next := Suc (ls_next s),
        ls_made := ls_made s @ (case ls_pc s i of EnsureWait topic \<Rightarrow> [topic] | _ \<Rightarrow> [])\<rparr>
      in finish_coro i (Inr (ls_next s)) s1)"

definition loop_callback :: "message \<Rightarrow> 'cb loop_sys \<Rightarrow> 'cb loop_sys" where
  "loop_callback m s = s\<lparr>ls_loop := Some m, ls_ready := tl (ls_ready s)\<rparr>"

definition loop_dispatch :: "message \<Rightarrow> 'cb loop_sys \<Rightarrow> 'cb loop_sys" where
  "loop_dispatch m s = s\<lparr>ls_loop := None, ls_t := nt_dispatch m (ls_t s)\<rparr>"

section \<open>Steps\<close>

text \<open>Steps with which calls that are under way and the loop go on.\<close>

inductive work_step :: "'cb loop_sys \<Rightarrow> 'cb loop_sys \<Rightarrow> bool" where
  ensure: "ls_pc s i = EnsureEnter topic \<Longrightarrow> ls_lock s = None \<Longrightarrow> work_step s (ensure_enter i topic s)"
| ensured: "ls_pc s i = EnsureGot topic r \<Longrightarrow> work_step s (ensure_leave i topic r s)"
| get: "ls_pc s i = Getting topic \<Longrightarrow> work_step s (queue_get i topic s)"
| subscribed: "ls_pc s i = SubGot topic cb (Inr ns) \<Longrightarrow> ls_lock s = None \<Longrightarrow> work_step s (subscribe_leave i sub_id topic cb ns s)"
| not_subscribed: "ls_pc s i = SubGot topic cb (Inl e) \<Longrightarrow> work_step s (thread_at i Free s)"
| drained: "ls_pc s i = CloseGot \<Longrightarrow> work_step s (close_nc i s)"
| clear: "ls_pc s i = CloseClear \<Longrightarrow> ls_lock s = None \<Longrightarrow> work_step s (close_tables i s)"
| sub_ok: "ls_alive s \<Longrightarrow> ls_loop s = None \<Longrightarrow> ls_ready s = RunCoro i (CSub subject) # rest \<Longrightarrow> nt_connected (ls_t s) \<Longrightarrow>
    work_step s (nats_subscribed i subject s)"
| coro_fails: "ls_alive s \<Longrightarrow> ls_loop s = None \<Longrightarrow> ls_ready s = RunCoro i c # rest \<Longrightarrow> work_step s (finish_coro i (Inl e) s)"
| unsub_ok: "ls_alive s \<Longrightarrow> ls_loop s = None \<Longrightarrow> ls_ready s = RunCoro i (CUnsub ns) # rest \<Longrightarrow>
    work_step s (finish_coro i (Inr ns) (s\<lparr>ls_nats := dict_del ns (ls_nats s)\<rparr>))"
| pub_ok: "ls_alive s \<Longrightarrow> ls_loop s = None \<Longrightarrow> ls_ready s = RunCoro i (CPub subject m) # rest \<Longrightarrow> work_step s (finish_coro i (Inr 0) s)"
| drain_ok: "ls_alive s \<Longrightarrow> ls_loop s = None \<Longrightarrow> ls_ready s = RunCoro i CDrain # rest \<Longrightarrow>
    work_step s (finish_coro i (Inr 0) (s\<lparr>ls_nats := []\<rparr>))"
| callback: "ls_alive s \<Longrightarrow> ls_loop s = None \<Longrightarrow> ls_ready s = Deliver m # rest \<Longrightarrow> work_step s (loop_callback m s)"
| dispatch: "ls_loop s = Some m \<Longrightarrow> ls_lock s = None \<Longrightarrow> work_step s (loop_dispatch m s)"
| stop: "ls_alive s \<Longrightarrow> ls_loop s = None \<Longrightarrow> ls_ready s = StopLoop # rest \<Longrightarrow>
    work_step s (s\<lparr>ls_alive := False, ls_ready := rest\<rparr>)"

text \<open>
  Steps from outside: new calls, workers of the callback pool, a coroutine that is suspended, and messages that NATS has for a
  live subscription. Which messages it has is the parameter \<open>routes\<close>.
\<close>

inductive call_step :: "(string \<Rightarrow> message \<Rightarrow> bool) \<Rightarrow> 'cb loop_sys \<Rightarrow> 'cb loop_sys \<Rightarrow> bool" for routes where
  receive: "ls_pc s i = Free \<Longrightarrow> nt_running (ls_t s) \<Longrightarrow> call_step routes s (thread_at i (EnsureEnter topic) s)"
| subscribe: "ls_pc s i = Free \<Longrightarrow> nt_running (ls_t s) \<Longrightarrow> nt_connected (ls_t s) \<Longrightarrow>
    call_step routes s (run_coro i (CSub (to_nats_subject topic)) (SubWait topic cb) s)"
| unsubscribe: "ls_pc s i = Free \<Longrightarrow> ls_lock s = None \<Longrightarrow> call_step routes s (unsubscribe_call i sub_id s)"
| send: "ls_pc s i = Free \<Longrightarrow> nt_running (ls_t s) \<Longrightarrow> nt_connected (ls_t s) \<Longrightarrow>
    call_step routes s (run_coro i (CPub (to_nats_subject (m_topic m)) m) SendWait s)"
| close: "ls_pc s i = Free \<Longrightarrow> nt_running (ls_t s) \<Longrightarrow> call_step routes s (close_call i s)"
| pool: "nt_jobs (ls_t s) = job # jobs \<Longrightarrow> call_step routes s (s\<lparr>ls_t := (ls_t s)\<lparr>nt_jobs := jobs\<rparr>\<rparr>)"
| suspend: "ls_alive s \<Longrightarrow> ls_loop s = None \<Longrightarrow> ls_ready s = RunCoro i c # rest \<Longrightarrow>
    call_step routes s (s\<lparr>ls_ready := rest @ [RunCoro i c]\<rparr>)"
| arrive: "(ns, subject) \<in> set (ls_nats s) \<Longrightarrow> routes subject m \<Longrightarrow> call_step routes s (s\<lparr>ls_ready := ls_ready s @ [Deliver m]\<rparr>)"

definition nats_step :: "(string \<Rightarrow> message \<Rightarrow> bool) \<Rightarrow> 'cb loop_sys \<Rightarrow> 'cb loop_sys \<Rightarrow> bool" where
  "nats_step routes s s' \<longleftrightarrow> work_step s s' \<or> call_step routes s s'"

section \<open>What every interleaving keeps\<close>

fun holds_lock :: "'cb nats_pc \<Rightarrow> bool" where
  "holds_lock (EnsureWait topic) = True"
| "holds_lock (EnsureGot topic r) = True"
| "holds_lock pc = False"

fun on_loop :: "'cb nats_pc \<Rightarrow> bool" where
  "on_loop (EnsureWait topic) = True"
| "on_loop (SubWait topic cb) = True"
| "on_loop UnsubWait = True"
| "on_loop SendWait = True"
| "on_loop CloseWait = True"
| "on_loop pc = False"

text \<open>The threads whose coroutines the loop has.\<close>

fun runners :: "loop_item list \<Rightarrow> nat list" where
  "runners [] = []"
| "runners (RunCoro i c # items) = i # runners items"
| "runners (Deliver m # items) = runners items"
| "runners (StopLoop # items) = runners items"

lemma runners_append [simp]: "runners (xs @ ys) = runners xs @ runners ys"
  by (induction xs rule: runners.induct) simp_all

definition lock_ok :: "'cb loop_sys \<Rightarrow> bool" where
  "lock_ok s \<longleftrightarrow> (\<forall>i. (ls_lock s = Some i) = holds_lock (ls_pc s i))"

definition ready_ok :: "'cb loop_sys \<Rightarrow> bool" where
  "ready_ok s \<longleftrightarrow> distinct (runners (ls_ready s)) \<and> (\<forall>i. i \<in> set (runners (ls_ready s)) \<longleftrightarrow> on_loop (ls_pc s i))"

definition made_ok :: "'cb loop_sys \<Rightarrow> bool" where
  "made_ok s \<longleftrightarrow> distinct (ls_made s) \<and> (nt_connected (ls_t s) \<longrightarrow>
     (\<forall>topic. topic \<in> set (ls_made s) \<longleftrightarrow>
        dict_get (nt_queue_subs (ls_t s)) topic \<noteq> None \<or> (\<exists>i ns. ls_pc s i = EnsureGot topic (Inr ns))) \<and>
     (\<forall>i topic. ls_pc s i = EnsureWait topic \<longrightarrow> dict_get (nt_queue_subs (ls_t s)) topic = None))"

lemmas nats_defs = thread_at_def run_coro_def ensure_enter_def ensure_leave_def queue_get_def subscribe_leave_def unsubscribe_call_def
  close_call_def close_nc_def close_tables_def finish_coro_def nats_subscribed_def loop_callback_def loop_dispatch_def

lemma wake_free [simp]: "\<not> on_loop (wake r pc)" "on_loop pc \<Longrightarrow> holds_lock (wake r pc) = holds_lock pc"
  by (cases pc; simp)+

lemma nt_pop_fields [simp]:
  "nt_connected (snd (nt_pop topic t)) = nt_connected t" "nt_running (snd (nt_pop topic t)) = nt_running t"
  "nt_queue_subs (snd (nt_pop topic t)) = nt_queue_subs t" "nt_ok (snd (nt_pop topic t)) = nt_ok t"
  by (simp_all add: nt_pop_def nt_ok_def split: list.split)

lemma nt_table_fields [simp]:
  "nt_connected (nt_dispatch m t) = nt_connected t" "nt_queue_subs (nt_dispatch m t) = nt_queue_subs t" "nt_ok (nt_dispatch m t) = nt_ok t"
  "nt_connected (nt_add ns i topic cb t) = nt_connected t" "nt_queue_subs (nt_add ns i topic cb t) = nt_queue_subs t"
  "nt_connected (nt_remove i t) = nt_connected t" "nt_queue_subs (nt_remove i t) = nt_queue_subs t"
  "\<not> nt_connected (nt_cleared t)" "nt_ok (nt_cleared t)"
  by (simp_all add: nt_dispatch_jobs nt_ok_def nt_add_def nt_remove_def nt_cleared_def)

lemma nt_ok_fields [simp]:
  "nt_ok (t\<lparr>nt_connected := c\<rparr>) = nt_ok t" "nt_ok (t\<lparr>nt_running := r\<rparr>) = nt_ok t" "nt_ok (t\<lparr>nt_jobs := js\<rparr>) = nt_ok t"
  "nt_ok (t\<lparr>nt_queue_subs := q\<rparr>) = nt_ok t"
  by (simp_all add: nt_ok_def)

lemma tables_kept:
  assumes "nats_step routes s s'" "nt_ok (ls_t s)"
  shows "nt_ok (ls_t s')"
  using assms unfolding nats_step_def
  by (auto elim!: work_step.cases call_step.cases simp: nats_defs Let_def nt_ok_add nt_ok_remove split: option.split sum.split)

lemma lock_ok_at:
  "lock_ok (thread_at i pc s) \<longleftrightarrow>
     (\<forall>j. j \<noteq> i \<longrightarrow> (ls_lock s = Some j) = holds_lock (ls_pc s j)) \<and> (ls_lock s = Some i) = holds_lock pc"
  by (auto simp: lock_ok_def thread_at_def)

lemma lock_okD: "lock_ok s \<Longrightarrow> (ls_lock s = Some i) = holds_lock (ls_pc s i)"
  by (simp add: lock_ok_def)

lemma lock_free: "lock_ok s \<Longrightarrow> ls_lock s = None \<Longrightarrow> \<not> holds_lock (ls_pc s i)"
  by (simp add: lock_ok_def)

lemma lock_sole: "lock_ok s \<Longrightarrow> holds_lock (ls_pc s i) \<Longrightarrow> holds_lock (ls_pc s j) \<Longrightarrow> j = i"
  unfolding lock_ok_def by (metis option.inject)

lemma lock_ok_fields [simp]:
  "lock_ok (s\<lparr>ls_t := t\<rparr>) = lock_ok s" "lock_ok (s\<lparr>ls_alive := a\<rparr>) = lock_ok s" "lock_ok (s\<lparr>ls_loop := l\<rparr>) = lock_ok s"
  "lock_ok (s\<lparr>ls_ready := r\<rparr>) = lock_ok s"
  by (simp_all add: lock_ok_def)

lemma ready_ok_at:
  "ready_ok (thread_at i pc s) \<longleftrightarrow> distinct (runners (ls_ready s)) \<and>
     (\<forall>j. j \<noteq> i \<longrightarrow> (j \<in> set (runners (ls_ready s)) \<longleftrightarrow> on_loop (ls_pc s j))) \<and> (i \<in> set (runners (ls_ready s)) \<longleftrightarrow> on_loop pc)"
  by (auto simp: ready_ok_def thread_at_def)

lemma ready_okD:
  assumes "ready_ok s"
  shows "distinct (runners (ls_ready s))" "i \<in> set (runners (ls_ready s)) \<longleftrightarrow> on_loop (ls_pc s i)"
  using assms by (simp_all add: ready_ok_def)

lemma ready_head:
  assumes "ready_ok s" "ls_ready s = RunCoro i c # rest"
  shows "on_loop (ls_pc s i)" "i \<notin> set (runners rest)" "distinct (runners rest)" "j \<noteq> i \<Longrightarrow> j \<in> set (runners rest) \<longleftrightarrow> on_loop (ls_pc s j)"
  using ready_okD(1)[OF assms(1)] ready_okD(2)[OF assms(1), of i] ready_okD(2)[OF assms(1), of j] assms(2) by simp_all

lemma lock_kept:
  assumes "nats_step routes s s'" "lock_ok s" "ready_ok s"
  shows "lock_ok s'"
proof -
  note L = lock_okD[OF assms(2)] lock_free[OF assms(2)] and H = ready_head[OF assms(3)]
  from assms(1) consider (w) "work_step s s'" | (c) "call_step routes s s'" unfolding nats_step_def by blast
  then show ?thesis
  proof cases
    case w
    then show ?thesis
    proof cases
      case (ensured i topic r)
      then have "j \<noteq> i \<Longrightarrow> \<not> holds_lock (ls_pc s j)" for j using lock_sole[OF assms(2), of i j] by auto
      with ensured show ?thesis by (simp add: ensure_leave_def lock_ok_at split: sum.split)
    qed (use assms(2) in \<open>simp_all add: nats_defs(2-) Let_def lock_ok_at L H split: option.split sum.split\<close>)
  next
    case c
    then show ?thesis
      by cases (use assms(2) in \<open>simp_all add: nats_defs(2-) Let_def lock_ok_at L split: option.split sum.split\<close>)
  qed
qed

lemma ready_ok_fields [simp]:
  "ready_ok (s\<lparr>ls_t := t\<rparr>) = ready_ok s" "ready_ok (s\<lparr>ls_alive := a\<rparr>) = ready_ok s" "ready_ok (s\<lparr>ls_loop := l\<rparr>) = ready_ok s"
  by (simp_all add: ready_ok_def)

lemma ready_kept:
  assumes "nats_step routes s s'" "ready_ok s"
  shows "ready_ok s'"
proof -
  note R = ready_okD[OF assms(2)] and H = ready_head[OF assms(2)]
  from assms(1) consider (w) "work_step s s'" | (c) "call_step routes s s'" unfolding nats_step_def by blast
  then show ?thesis
  proof cases
    case w
    then show ?thesis
    proof cases
      case callback
      then show ?thesis using assms(2) by (simp add: loop_callback_def ready_ok_def)
    next
      case stop
      then show ?thesis using assms(2) by (simp add: ready_ok_def)
    qed (use assms(2) in \<open>simp_all add: nats_defs(2-) Let_def ready_ok_at R H split: option.split sum.split\<close>)
  next
    case c
    then show ?thesis
    proof cases
      case suspend
      then show ?thesis using assms(2) by (auto simp: ready_ok_def)
    next
      case arrive
      then show ?thesis using assms(2) by (simp add: ready_ok_def)
    qed (use assms(2) in \<open>simp_all add: nats_defs(2-) Let_def ready_ok_at R split: option.split sum.split\<close>)
  qed
qed

text \<open>A thread waits for the coroutine it handed over.\<close>

fun serves :: "coro \<Rightarrow> 'cb nats_pc \<Rightarrow> bool" where
  "serves (CSub subject) (EnsureWait topic) = (subject = to_nats_subject topic)"
| "serves (CSub subject) (SubWait topic cb) = (subject = to_nats_subject topic)"
| "serves (CUnsub ns) UnsubWait = True"
| "serves (CPub subject m) SendWait = True"
| "serves CDrain CloseWait = True"
| "serves c pc = False"

definition kind_ok :: "'cb loop_sys \<Rightarrow> bool" where
  "kind_ok s \<longleftrightarrow> (\<forall>i c. RunCoro i c \<in> set (ls_ready s) \<longrightarrow> serves c (ls_pc s i))"

lemma kind_ok_at:
  "kind_ok (thread_at i pc s) \<longleftrightarrow> (\<forall>j c. j \<noteq> i \<longrightarrow> RunCoro j c \<in> set (ls_ready s) \<longrightarrow> serves c (ls_pc s j)) \<and>
     (\<forall>c. RunCoro i c \<in> set (ls_ready s) \<longrightarrow> serves c pc)"
  by (auto simp: kind_ok_def thread_at_def)

lemma kind_ok_tables [simp]: "kind_ok (s\<lparr>ls_t := t\<rparr>) = kind_ok s"
  by (simp add: kind_ok_def)

lemma kind_okD: "kind_ok s \<Longrightarrow> RunCoro i c \<in> set (ls_ready s) \<Longrightarrow> serves c (ls_pc s i)"
  by (simp add: kind_ok_def)

lemma in_runners: "i \<in> set (runners items) \<longleftrightarrow> (\<exists>c. RunCoro i c \<in> set items)"
  by (induction items rule: runners.induct) auto

lemma not_running: "ready_ok s \<Longrightarrow> \<not> on_loop (ls_pc s i) \<Longrightarrow> RunCoro i c \<notin> set (ls_ready s)"
  using ready_okD(2)[of s i] by (auto simp: in_runners)

lemma kind_kept:
  assumes "nats_step routes s s'" "ready_ok s" "kind_ok s"
  shows "kind_ok s'"
proof -
  note N = not_running[OF assms(2)] and K = kind_okD[OF assms(3)]
  have H: "RunCoro i c' \<notin> set rest" "RunCoro j c' \<in> set rest \<Longrightarrow> serves c' (ls_pc s j)" if "ls_ready s = RunCoro i c # rest" for i j c c' rest
    using ready_head(2)[OF assms(2) that] assms(3) that by (auto simp: in_runners kind_ok_def)
  from assms(1) consider (w) "work_step s s'" | (c) "call_step routes s s'" unfolding nats_step_def by blast
  then show ?thesis
  proof cases
    case w
    then show ?thesis
    proof cases
      case callback
      then show ?thesis using assms(3) by (simp add: loop_callback_def kind_ok_def)
    next
      case dispatch
      then show ?thesis using assms(3) by (simp add: loop_dispatch_def kind_ok_def)
    next
      case stop
      then show ?thesis using assms(3) by (simp add: kind_ok_def)
    qed (simp_all add: nats_defs(2-) Let_def kind_ok_at N K H split: option.split sum.split)
  next
    case c
    then show ?thesis
    proof cases
      case (unsubscribe i sub_id)
      then show ?thesis using assms(3)
        by (auto simp: unsubscribe_call_def run_coro_def kind_ok_at N K split: option.split)
    next
      case pool
      then show ?thesis using assms(3) by (simp add: kind_ok_def)
    next
      case suspend
      then show ?thesis using assms(3) by (auto simp: kind_ok_def)
    next
      case arrive
      then show ?thesis using assms(3) by (simp add: kind_ok_def)
    qed (auto simp: nats_defs(2-) Let_def kind_ok_at N K split: option.split sum.split)
  qed
qed

text \<open>The topics with a queue subscription change only under the lock.\<close>

lemma thread_at_fields [simp]:
  "ls_pc (thread_at i pc s) = (ls_pc s)(i := pc)" "ls_t (thread_at i pc s) = ls_t s" "ls_made (thread_at i pc s) = ls_made s"
  "ls_lock (thread_at i pc s) = ls_lock s" "ls_loop (thread_at i pc s) = ls_loop s" "ls_ready (thread_at i pc s) = ls_ready s"
  by (simp_all add: thread_at_def)

lemma made_move:
  assumes "made_ok s" "\<And>topic ns. ls_pc s i \<noteq> EnsureGot topic (Inr ns)" "\<And>topic ns. pc \<noteq> EnsureGot topic (Inr ns)"
    and "\<And>topic. pc = EnsureWait topic \<Longrightarrow> dict_get (nt_queue_subs (ls_t s)) topic = None"
  shows "made_ok (thread_at i pc s)"
proof -
  have "(\<exists>j ns. ((ls_pc s)(i := pc)) j = EnsureGot topic (Inr ns)) \<longleftrightarrow> (\<exists>j ns. ls_pc s j = EnsureGot topic (Inr ns))" for topic
    using assms(2,3) by (metis fun_upd_apply)
  moreover have "((ls_pc s)(i := pc)) j = EnsureWait topic \<Longrightarrow> ls_pc s j = EnsureWait topic \<or> pc = EnsureWait topic" for j topic
    by (auto split: if_splits)
  ultimately show ?thesis using assms(1,4) unfolding made_ok_def thread_at_fields by blast
qed

lemma made_ok_fields [simp]:
  "made_ok (s\<lparr>ls_lock := k\<rparr>) = made_ok s" "made_ok (s\<lparr>ls_alive := a\<rparr>) = made_ok s" "made_ok (s\<lparr>ls_loop := l\<rparr>) = made_ok s"
  "made_ok (s\<lparr>ls_ready := r\<rparr>) = made_ok s" "made_ok (s\<lparr>ls_nats := n\<rparr>) = made_ok s" "made_ok (s\<lparr>ls_next := x\<rparr>) = made_ok s"
  by (simp_all add: made_ok_def)

lemma made_ok_tables:
  "made_ok s \<Longrightarrow> nt_queue_subs t = nt_queue_subs (ls_t s) \<Longrightarrow> nt_connected t \<longrightarrow> nt_connected (ls_t s) \<Longrightarrow> made_ok (s\<lparr>ls_t := t\<rparr>)"
  by (simp add: made_ok_def)

lemma made_ok_closed: "made_ok s \<Longrightarrow> \<not> nt_connected t \<Longrightarrow> made_ok (s\<lparr>ls_t := t\<rparr>)"
  by (simp add: made_ok_def)

lemma made_entered:
  assumes "made_ok s" "lock_ok s" "ls_pc s i = EnsureGot topic (Inr ns)"
  shows "made_ok (thread_at i (Getting topic)
    (s\<lparr>ls_lock := None, ls_t := (ls_t s)\<lparr>nt_queue_subs := dict_set topic ns (nt_queue_subs (ls_t s))\<rparr>\<rparr>))"
proof -
  have sole: "holds_lock (ls_pc s j) \<Longrightarrow> j = i" for j using lock_sole[OF assms(2), of i j] assms(3) by simp
  have "(\<exists>j ns'. ls_pc s j = EnsureGot x (Inr ns')) \<longleftrightarrow> x = topic" for x
    using sole assms(3) by (metis holds_lock.simps(2) nats_pc.inject(3))
  moreover have "((ls_pc s)(i := Getting topic)) j \<noteq> EnsureGot x (Inr ns')" "((ls_pc s)(i := Getting topic)) j \<noteq> EnsureWait x" for j x ns'
    using sole[of j] by auto
  ultimately show ?thesis using assms(1) unfolding made_ok_def thread_at_def by auto
qed

lemma made_subscribed:
  assumes "made_ok s" "lock_ok s" "ready_ok s" "kind_ok s" "ls_ready s = RunCoro i (CSub subject) # rest" "nt_connected (ls_t s)"
  shows "made_ok (nats_subscribed i subject s)"
proof (cases "\<exists>topic. ls_pc s i = EnsureWait topic")
  case True
  then obtain topic where pc: "ls_pc s i = EnsureWait topic" by blast
  have sole: "holds_lock (ls_pc s j) \<Longrightarrow> j = i" for j using lock_sole[OF assms(2), of i j] pc by simp
  have none: "ls_pc s j \<noteq> EnsureGot x r" for j x r using sole[of j] pc by auto
  then have "topic \<notin> set (ls_made s)" using assms(1,6) pc by (simp add: made_ok_def)
  moreover have "((ls_pc s)(i := EnsureGot topic (Inr n))) j \<noteq> EnsureWait x" for j x n using sole[of j] by auto
  moreover have "(\<exists>j ns. ((ls_pc s)(i := EnsureGot topic (Inr n))) j = EnsureGot x (Inr ns)) \<longleftrightarrow> x = topic" for x n
    using none by auto
  ultimately show ?thesis using assms(1,6) none by (auto simp: made_ok_def nats_subscribed_def finish_coro_def thread_at_def pc Let_def)
next
  case False
  moreover have "serves (CSub subject) (ls_pc s i)" using kind_okD[OF assms(4)] assms(5) by simp
  ultimately obtain topic cb where pc: "ls_pc s i = SubWait topic cb" by (cases "ls_pc s i") auto
  then have "nats_subscribed i subject s = thread_at i (SubGot topic cb (Inr (ls_next s)))
      (s\<lparr>ls_nats := dict_set (ls_next s) subject (ls_nats s), ls_next := Suc (ls_next s), ls_ready := rest\<rparr>)"
    using assms(5) by (simp add: nats_subscribed_def finish_coro_def Let_def)
  then show ?thesis using assms(1) pc by (auto intro!: made_move)
qed

lemma made_finished:
  assumes "made_ok s" "on_loop (ls_pc s i)" "(\<forall>topic. ls_pc s i \<noteq> EnsureWait topic) \<or> (\<exists>e. r = Inl e)"
  shows "made_ok (finish_coro i r s)"
  unfolding finish_coro_def
proof (rule made_move)
  show "wake r (ls_pc s i) \<noteq> EnsureGot topic (Inr ns)" for topic ns using assms(2,3) by (cases "ls_pc s i") auto
  show "wake r (ls_pc s i) = EnsureWait topic \<Longrightarrow> dict_get (nt_queue_subs (ls_t (s\<lparr>ls_ready := tl (ls_ready s)\<rparr>))) topic = None" for topic
    by (cases "ls_pc s i") auto
qed (use assms(1,2) in auto)

lemma serves_not_ensure: "serves c pc \<Longrightarrow> \<forall>subject. c \<noteq> CSub subject \<Longrightarrow> pc \<noteq> EnsureWait topic"
  by (cases c) auto

lemma made_kept:
  assumes "nats_step routes s s'" "made_ok s" "lock_ok s" "ready_ok s" "kind_ok s"
  shows "made_ok s'"
proof -
  note M = assms(2) and tables = made_ok_tables[OF assms(2)] and H = ready_head(1)[OF assms(4)]
  have E: "ls_pc s i \<noteq> EnsureWait topic" if "ls_ready s = RunCoro i c # rest" "\<forall>subject. c \<noteq> CSub subject" for i c rest topic
    using kind_okD[OF assms(5), of i c] serves_not_ensure[of c] that by auto
  from assms(1) consider (w) "work_step s s'" | (c) "call_step routes s s'" unfolding nats_step_def by blast
  then show ?thesis
  proof cases
    case w
    then show ?thesis
    proof cases
      case (ensured i topic r)
      then show ?thesis using M made_entered[OF M assms(3)]
        by (cases r) (auto simp: ensure_leave_def intro!: made_move)
    next
      case (sub_ok i subject rest)
      then show ?thesis using made_subscribed[OF M assms(3-5)] by simp
    next
      case (drained i)
      then show ?thesis by (auto simp: close_nc_def intro!: made_move made_ok_closed M)
    next
      case (clear i)
      then show ?thesis by (auto simp: close_tables_def intro!: made_move made_ok_closed M)
    next
      case (unsub_ok i ns rest)
      then show ?thesis using M H E by (auto intro!: made_finished)
    next
      case (drain_ok i rest)
      then show ?thesis using M H E by (auto intro!: made_finished)
    next
      case (pub_ok i subject m rest)
      then show ?thesis using M H E by (auto intro!: made_finished)
    next
      case (coro_fails i c rest e)
      then show ?thesis using M H by (auto intro!: made_finished)
    next
      case dispatch
      then show ?thesis using M by (simp add: loop_dispatch_def made_ok_def)
    qed (use M in \<open>auto simp: nats_defs(2-5,6) loop_callback_def loop_dispatch_def intro!: made_move tables\<close>)
  next
    case c
    then show ?thesis
      by cases (use M in \<open>auto simp: nats_defs(2-) Let_def intro!: made_move tables split: option.split\<close>)
  qed
qed

definition loop_ok :: "'cb loop_sys \<Rightarrow> bool" where
  "loop_ok s \<longleftrightarrow> nt_ok (ls_t s) \<and> lock_ok s \<and> ready_ok s \<and> kind_ok s \<and> made_ok s"

lemma loop_ok_init: "loop_ok ls_init"
  by (simp add: loop_ok_def ls_init_def nt_ok_def nt_new_def lock_ok_def ready_ok_def kind_ok_def made_ok_def)

lemma loop_ok_kept: "nats_step routes s s' \<Longrightarrow> loop_ok s \<Longrightarrow> loop_ok s'"
  unfolding loop_ok_def using tables_kept lock_kept ready_kept kind_kept made_kept by blast

lemma loop_ok_reachable:
  assumes "(nats_step routes)\<^sup>*\<^sup>* ls_init s"
  shows "loop_ok s"
  using assms
proof induction
  case base
  show ?case by (rule loop_ok_init)
next
  case (step s s')
  then show ?case using loop_ok_kept by blast
qed

section \<open>Locked out\<close>

definition locked_out :: "'cb loop_sys \<Rightarrow> bool" where
  "locked_out s \<longleftrightarrow> (\<exists>i topic. ls_lock s = Some i \<and> ls_pc s i = EnsureWait topic) \<and> ls_loop s \<noteq> None"

text \<open>Calls that wait for the loop or for the lock.\<close>

fun stuck :: "'cb nats_pc \<Rightarrow> bool" where
  "stuck (EnsureEnter topic) = True"
| "stuck (SubGot topic cb (Inr ns)) = True"
| "stuck CloseClear = True"
| "stuck pc = on_loop pc"

lemma nt_queue_fields [simp]:
  "nt_queue (nt_add ns i topic cb t) = nt_queue t" "nt_queue (nt_remove i t) = nt_queue t" "nt_queue (nt_cleared t) = nt_queue t"
  "nt_queue (t\<lparr>nt_connected := c\<rparr>) = nt_queue t" "nt_queue (t\<lparr>nt_running := r\<rparr>) = nt_queue t" "nt_queue (t\<lparr>nt_jobs := js\<rparr>) = nt_queue t"
  "nt_queue (t\<lparr>nt_queue_subs := q\<rparr>) = nt_queue t"
  by (simp_all add: fun_eq_iff nt_queue_def nt_add_def nt_remove_def nt_cleared_def)

lemma nt_pop_queue: "\<exists>taken. nt_queue t x = taken @ nt_queue (snd (nt_pop topic t)) x"
proof (cases "x = topic")
  case True
  then show ?thesis by (auto simp: nt_pop_def nt_queue_def dict_get_default_def split: list.split option.split)
next
  case False
  then show ?thesis by (auto simp: nt_pop_def nt_queue_def dict_get_default_def split: list.split)
qed

lemma locked_out_step:
  assumes "nats_step routes s s'" "locked_out s" "lock_ok s"
  shows "locked_out s'" "stuck (ls_pc s j) \<Longrightarrow> ls_pc s' j = ls_pc s j" "\<exists>taken. nt_queue (ls_t s) x = taken @ nt_queue (ls_t s') x"
    "ls_made s' = ls_made s"
proof -
  obtain i topic where L: "ls_lock s = Some i" "ls_pc s i = EnsureWait topic" and m: "ls_loop s \<noteq> None"
    using assms(2) unfolding locked_out_def by blast
  have G: "ls_pc s k \<noteq> EnsureGot x r" for k x r using lock_sole[OF assms(3), of i k] L by auto
  have "locked_out s' \<and> (stuck (ls_pc s j) \<longrightarrow> ls_pc s' j = ls_pc s j) \<and> (\<exists>taken. nt_queue (ls_t s) x = taken @ nt_queue (ls_t s') x) \<and>
      ls_made s' = ls_made s"
    using assms(1) unfolding nats_step_def
  proof
    assume "work_step s s'"
    then show ?thesis
      by cases (use L m G nt_pop_queue[of "ls_t s" x] in \<open>auto simp: locked_out_def nats_defs(2-) split: sum.split\<close>)
  next
    assume "call_step routes s s'"
    then show ?thesis
      by cases (use L m in \<open>auto simp: locked_out_def nats_defs(2-) Let_def\<close>)
  qed
  then show "locked_out s'" "stuck (ls_pc s j) \<Longrightarrow> ls_pc s' j = ls_pc s j" "\<exists>taken. nt_queue (ls_t s) x = taken @ nt_queue (ls_t s') x"
    "ls_made s' = ls_made s" by blast+
qed

lemma locked_out_forever:
  assumes "(nats_step routes)\<^sup>*\<^sup>* s s'" "loop_ok s" "locked_out s"
  shows "locked_out s'" "\<forall>j. stuck (ls_pc s j) \<longrightarrow> ls_pc s' j = ls_pc s j"
    "\<forall>x. \<exists>taken. nt_queue (ls_t s) x = taken @ nt_queue (ls_t s') x" "ls_made s' = ls_made s"
proof -
  have "loop_ok s' \<and> locked_out s' \<and> (\<forall>j. stuck (ls_pc s j) \<longrightarrow> ls_pc s' j = ls_pc s j) \<and>
      (\<forall>x. \<exists>taken. nt_queue (ls_t s) x = taken @ nt_queue (ls_t s') x) \<and> ls_made s' = ls_made s"
    using assms(1)
  proof induction
    case base
    then show ?case using assms(2,3) by simp
  next
    case (step t t')
    then have t: "loop_ok t" "lock_ok t" "locked_out t" by (simp_all add: loop_ok_def)
    note one = locked_out_step[OF step.hyps(2) t(3,2)]
    have "\<exists>taken. nt_queue (ls_t s) x = taken @ nt_queue (ls_t t') x" for x
    proof -
      from step.IH obtain u where "nt_queue (ls_t s) x = u @ nt_queue (ls_t t) x" by blast
      moreover from one(3)[of x] obtain v where "nt_queue (ls_t t) x = v @ nt_queue (ls_t t') x" by blast
      ultimately show ?thesis by (metis append.assoc)
    qed
    moreover have "stuck (ls_pc s j) \<longrightarrow> ls_pc t' j = ls_pc s j" for j using step.IH one(2)[of j] by simp
    ultimately show ?case using step.IH one(1,4) loop_ok_kept[OF step.hyps(2) t(1)] by simp
  qed
  then show "locked_out s'" "\<forall>j. stuck (ls_pc s j) \<longrightarrow> ls_pc s' j = ls_pc s j"
    "\<forall>x. \<exists>taken. nt_queue (ls_t s) x = taken @ nt_queue (ls_t s') x" "ls_made s' = ls_made s" by blast+
qed

text \<open>As long as the loop lives and is not locked out, some call under way can go on.\<close>

lemma loop_head_steps:
  assumes "ls_alive s" "ls_loop s = None" "ls_ready s = x # rest"
  shows "\<exists>s'. work_step s s'"
  using assms by (cases x) (meson work_step.coro_fails work_step.callback work_step.stop)+

lemma owner_steps:
  assumes "lock_ok s" "ls_lock s = Some i" "\<forall>topic. ls_pc s i \<noteq> EnsureWait topic"
  shows "\<exists>s'. work_step s s'"
proof -
  have "holds_lock (ls_pc s i)" using lock_okD[OF assms(1), of i] assms(2) by simp
  with assms(3) obtain topic r where "ls_pc s i = EnsureGot topic r" by (cases "ls_pc s i") auto
  then show ?thesis using work_step.ensured by blast
qed

lemma loop_goes_on:
  assumes "loop_ok s" "ls_alive s" "\<not> locked_out s" "ls_pc s i \<noteq> Free"
  shows "\<exists>s'. work_step s s'"
proof -
  have ok: "lock_ok s" "ready_ok s" using assms(1) by (simp_all add: loop_ok_def)
  consider (busy) m where "ls_loop s = Some m" | (head) x rest where "ls_loop s = None" "ls_ready s = x # rest"
    | (idle) "ls_loop s = None" "ls_ready s = []" by (cases "ls_loop s"; cases "ls_ready s") auto
  then show ?thesis
  proof cases
    case busy
    show ?thesis
    proof (cases "ls_lock s")
      case None
      then show ?thesis using busy work_step.dispatch by blast
    next
      case (Some k)
      then show ?thesis using owner_steps[OF ok(1) Some] assms(3) busy by (auto simp: locked_out_def)
    qed
  next
    case head
    then show ?thesis using loop_head_steps assms(2) by blast
  next
    case idle
    then have off: "\<not> on_loop (ls_pc s k)" for k using ready_okD(2)[OF ok(2), of k] by simp
    show ?thesis
    proof (cases "ls_lock s")
      case (Some k)
      have "ls_pc s k \<noteq> EnsureWait topic" for topic using off[of k] by auto
      with owner_steps[OF ok(1) Some] show ?thesis by blast
    next
      case None
      show ?thesis
      proof (cases "ls_pc s i")
        case (SubGot topic cb r)
        then show ?thesis using None by (cases r) (auto intro: work_step.subscribed work_step.not_subscribed)
      qed (use assms(4) off[of i] None in \<open>auto intro: work_step.intros\<close>)
    qed
  qed
qed

section \<open>The properties\<close>

text \<open>
  C19. The NATS transport with any number of threads and its event loop: in every state that is reached the tables of the
  subscriptions have the same identifiers, one thread at most is in the locked part of
  \<open>_ensure_queue_subscription\<close>, no topic ever got two queue subscriptions at NATS, and the coroutine of every
  thread that waits in \<open>_run\<close> is with the loop, once.
\<close>

theorem nats_loop_safe:
  assumes "(nats_step routes)\<^sup>*\<^sup>* ls_init s"
  shows "nt_ok (ls_t s) \<and> (\<forall>i j. holds_lock (ls_pc s i) \<and> holds_lock (ls_pc s j) \<longrightarrow> i = j) \<and> distinct (ls_made s) \<and>
    distinct (runners (ls_ready s)) \<and> (\<forall>i. i \<in> set (runners (ls_ready s)) \<longleftrightarrow> on_loop (ls_pc s i))"
proof -
  have ok: "nt_ok (ls_t s)" "lock_ok s" "ready_ok s" "made_ok s" using loop_ok_reachable[OF assms] by (simp_all add: loop_ok_def)
  moreover have "distinct (ls_made s)" using ok(4) by (simp add: made_ok_def)
  ultimately show ?thesis using lock_sole[OF ok(2)] ready_okD[OF ok(3)] by blast
qed

text \<open>A run: thread 0 has received from \<open>a\<close>; thread 1 calls \<open>receive\<close> for \<open>b\<close> when a message comes.\<close>

definition first_received :: "string \<Rightarrow> 'cb loop_sys" where
  "first_received a = ensure_leave 0 a (Inr 0) (nats_subscribed 0 (to_nats_subject a) (ensure_enter 0 a (thread_at 0 (EnsureEnter a) ls_init)))"

definition message_waits :: "string \<Rightarrow> string \<Rightarrow> message \<Rightarrow> 'cb loop_sys" where
  "message_waits a b m = (let s = thread_at 1 (EnsureEnter b) (first_received a) in loop_callback m (s\<lparr>ls_ready := ls_ready s @ [Deliver m]\<rparr>))"

definition lockout :: "string \<Rightarrow> string \<Rightarrow> message \<Rightarrow> 'cb loop_sys" where
  "lockout a b m = ensure_enter 1 b (message_waits a b m)"

lemma first_received_eq:
  "first_received a = thread_at 0 (Getting a)
     (ls_init\<lparr>ls_t := (ls_t ls_init)\<lparr>nt_queue_subs := [(a, 0)]\<rparr>, ls_nats := [(0, to_nats_subject a)], ls_next := 1, ls_made := [a]\<rparr>)"
  by (simp add: first_received_def nats_defs Let_def ls_init_def nt_new_def)

lemma first_received_reachable: "(nats_step routes)\<^sup>*\<^sup>* ls_init (first_received a :: 'cb loop_sys)"
proof -
  let ?s1 = "thread_at 0 (EnsureEnter a) ls_init :: 'cb loop_sys"
  let ?s2 = "ensure_enter 0 a ?s1" and ?s3 = "nats_subscribed 0 (to_nats_subject a) (ensure_enter 0 a ?s1)"
  have "nats_step routes ls_init ?s1"
    unfolding nats_step_def by (intro disjI2 call_step.receive) (simp_all add: ls_init_def nt_new_def)
  moreover have "nats_step routes ?s1 ?s2"
    unfolding nats_step_def by (intro disjI1 work_step.ensure) (simp_all add: ls_init_def)
  moreover have "nats_step routes ?s2 ?s3"
    unfolding nats_step_def
    by (intro disjI1 work_step.sub_ok[where rest = "[]"]) (simp_all add: nats_defs ls_init_def nt_new_def)
  moreover have "nats_step routes ?s3 (first_received a)"
    unfolding nats_step_def first_received_def
    by (intro disjI1 work_step.ensured) (simp add: nats_defs ls_init_def nt_new_def Let_def)
  ultimately show ?thesis by (meson rtranclp.rtrancl_into_rtrancl rtranclp.rtrancl_refl)
qed

lemma lockout_reachable:
  assumes "routes (to_nats_subject a) m" "a \<noteq> b"
  shows "(nats_step routes)\<^sup>*\<^sup>* ls_init (lockout a b m :: 'cb loop_sys)"
proof -
  let ?s = "first_received a :: 'cb loop_sys"
  let ?s1 = "thread_at 1 (EnsureEnter b) ?s"
  let ?s2 = "?s1\<lparr>ls_ready := ls_ready ?s1 @ [Deliver m]\<rparr>"
  note eq = first_received_eq thread_at_def ls_init_def nt_new_def
  have "nats_step routes ?s ?s1"
    unfolding nats_step_def by (intro disjI2 call_step.receive) (simp_all add: eq)
  moreover have "nats_step routes ?s1 ?s2"
    unfolding nats_step_def by (intro disjI2 call_step.arrive[of 0 "to_nats_subject a"]) (simp_all add: eq assms)
  moreover have "nats_step routes ?s2 (message_waits a b m)"
    unfolding nats_step_def message_waits_def Let_def by (intro disjI1 work_step.callback[where rest = "[]"]) (simp_all add: eq)
  moreover have "nats_step routes (message_waits a b m) (lockout a b m)"
    unfolding nats_step_def lockout_def
    by (intro disjI1 work_step.ensure) (simp_all add: message_waits_def Let_def loop_callback_def eq)
  ultimately show ?thesis using first_received_reachable[of routes a] by (meson rtranclp.rtrancl_into_rtrancl)
qed

lemma lockout_locked_out: "a \<noteq> b \<Longrightarrow> locked_out (lockout a b m)"
  by (simp add: lockout_def message_waits_def Let_def locked_out_def ensure_enter_def run_coro_def loop_callback_def first_received_eq
      thread_at_def ls_init_def nt_new_def)


definition same_subject :: "string \<Rightarrow> message \<Rightarrow> bool" where
  "same_subject subject m \<longleftrightarrow> subject = to_nats_subject (m_topic m)"


theorem nats_loop_safe_witness:
  "ls_made (lockout ''a'' ''b'' (demo_message ''m'' ''a'') :: nat loop_sys) = [''a''] \<and>
   distinct (ls_made (lockout ''a'' ''b'' (demo_message ''m'' ''a'') :: nat loop_sys)) \<and>
   runners (ls_ready (lockout ''a'' ''b'' (demo_message ''m'' ''a'') :: nat loop_sys)) = [1]"
proof -
  have "same_subject (to_nats_subject ''a'') (demo_message ''m'' ''a'')" by (simp add: same_subject_def demo_message_def)
  then have "(nats_step same_subject)\<^sup>*\<^sup>* ls_init (lockout ''a'' ''b'' (demo_message ''m'' ''a'') :: nat loop_sys)"
    by (rule lockout_reachable) simp
  from nats_loop_safe[OF this] show ?thesis
    by (simp add: lockout_def message_waits_def Let_def ensure_enter_def run_coro_def loop_callback_def first_received_eq thread_at_def
        ls_init_def nt_new_def)
qed

end
