(* ===== verification/Spec2Isabelle.thy ===== *)
theory Spec2Isabelle
  imports Task_Queue Reporting Work_Queue_Behaviour Work_Queue_Leases Sessions Logfire_Meter Executor_Threads
    Measured_Tasks Nats_Loop
begin

text \<open>
  \<^bold>\<open>eventforge: a verification development.\<close>

  The library of \<open>src/eventforge\<close> moves messages and tasks between parts of a program and between
  programs. At the bottom, \<open>observers.py\<close> has channels (\<open>Eventful\<close>) that hand an event to their subscribers
  through a dispatcher (broadcast, round robin, concurrent, least loaded), nodes with a capacity, meters that
  reduce observations to one value and reporters that listen to classes of meters. A \<open>Transport\<close> carries
  messages by topic: in memory, over TCP, through Redis or through NATS. A \<open>MessageQueue\<close> puts a channel per
  topic on a transport and adds request and reply. On the queue sit the RPC server and clients (\<open>rpc.py\<close>), the
  switchboard to other nodes (\<open>remote.py\<close>) and the worker process (\<open>worker.py\<close>). Beside them are the
  \<open>WorkQueue\<close> with acknowledgement, retry and dead letters, the \<open>Executor\<close> with its pools, and the task runner
  with its decorator and pool of slots (\<open>task.py\<close>), which drives executor, queue and meters.

  \<^bold>\<open>How programs are modelled.\<close> A statement of the program is a function from a state to an outcome (an
  exception or a value) and a new state; \<open>EF_Prelude\<close> has the combinators for sequence, \<open>try\<close>, \<open>finally\<close> and
  \<open>for\<close>, exceptions as values (\<open>Exception\<close> and the \<open>BaseException\<close>s that \<open>except Exception\<close> does not catch) and
  dictionaries as insertion-ordered association lists. Objects with an address (channels, nodes, meters,
  contexts) live in a store. A component takes the parts of the program it needs as a record of accessors
  (\<open>env\<close>, \<open>mq_ctx\<close>, \<open>rpc_ctx\<close>, \<open>worker_ctx\<close>), so that it is composed with others by giving the record. A locked
  block is one step; interleavings of threads are sequences of such steps (\<open>wq_step\<close>, \<open>ex_step\<close>, \<open>thread_step\<close>, \<open>pool_step\<close>, \<open>nats_step\<close>,
  \<open>link_step\<close>, \<open>span_step\<close>, the events of a worker). Waiting is the value \<open>Blocked\<close>; where the code waits
  with a time limit for what others do (\<open>Async_Receive\<close>), the state is \<open>timed\<close>: the clock and the steps of other threads to
  come, with their times. Identifiers come from a source
  \<open>uuid4\<close> that a theorem takes to be injective where it matters; clocks are functions of the state. Floats are
  real numbers, Python integers are \<open>int\<close>, bytes are 8-bit words.

  \<^bold>\<open>Theories, the code they model, and what they show.\<close>

  \<^item> \<open>EF_Types\<close> (\<open>types.py\<close>): messages, tasks, RPC records, task contexts, \<open>SharedState\<close>; updates of a key compose.

  \<^item> \<open>Topic_Match\<close> (\<open>_matches\<close>, \<open>_topic_matches\<close>, \<open>_to_redis_pattern\<close>, \<open>_to_nats_subject\<close> of the transports): the
  regular expressions and \<open>fnmatch\<close> patterns built from topics, and what they match: segment by segment for
  Redis and NATS, and the set of \<open>^\<close> and \<open>.\<close> for the in-memory transport.

  \<^item> \<open>Subscriptions\<close>, \<open>Memory_Transport\<close> (\<open>transports/base.py\<close>, \<open>transports/memory.py\<close>): the locale
  \<open>subscription_table\<close> is the contract of the subscription tables; it is interpreted for the in-memory, TCP,
  Redis and NATS tables, and gives each that it refines a list of subscriptions. Delivery in order,
  suppression of callback errors, the bound of the queues, the invariant of the tables.

  \<^item> \<open>Round_Robin\<close>, \<open>Observers\<close> (\<open>observers.py\<close>): channels, dispatchers, nodes. The locale \<open>round_robin\<close> gives
  fairness to every rotating cursor of the code (dispatcher, work queue groups, RPC clients). Least-loaded
  selection, no overbooking, restored reservations.

  \<^item> \<open>Message_Queue\<close> (\<open>queue.py\<close>): topics, subscriptions, publish, request, reply over the operations of a
  transport. The locale \<open>queue_state\<close> says what the queue relies on; it is interpreted on the in-memory
  transport and, in \<open>Tcp_Queue\<close>, on the TCP server. Publishing reaches the subscribers; a request gets its reply.

  \<^item> \<open>Work_Queue\<close>, \<open>Work_Queue_Correct\<close>, \<open>Work_Queue_System\<close>, \<open>Work_Queue_Behaviour\<close> (\<open>work_queue.py\<close>): every critical
  section, the threads as a step relation, and for all interleavings: no payload is lost or duplicated, no
  delivery is settled twice, retry counts are bounded, no message is stranded while consumers wait; and what an entry with
  a visibility timeout that is no number does to the reaper.
  \<open>Work_Queue_Leases\<close> has the abstract specification (a queue that leases messages and gets them back) and the
  simulation: every step of the threads is steps of that queue.

  \<^item> \<open>Executor\<close> (\<open>executor.py\<close>), \<open>Task_Pool\<close>, \<open>Task_Runner\<close> (\<open>task.py\<close>): every task is accounted for, at most
  \<open>max_instances\<close> run, the slot is always returned, the lifecycle calls its observers in order and publishes the
  outcome. \<open>Executor_Threads\<close> takes \<open>submit\<close>, \<open>start\<close> and \<open>stop\<close> apart into their critical sections: for all interleavings
  a task is in one table exactly if its \<open>submit\<close> registered it, and no pool is leaked; and how a \<open>stop\<close> makes a \<open>submit\<close>
  fail. \<open>Task_Queue\<close> has the decorator \<open>task\<close> on a message queue: a message on the task's topic runs it once and
  the outcome is published.

  \<^item> \<open>Meters\<close> (\<open>observers.py\<close>): meters, built-in meters, reporters. The value of a meter is the reduction of what
  was added. \<open>Reporting\<close> has the constructors of the built-in meters and \<open>LoggingReporter\<close>: every measured call
  is one line of every reporter, in order, and counts in the meter's value. \<open>Measured_Tasks\<close> joins them with the task
  runner: a task with a timing meter, from the call down to the lines of the log.

  \<^item> \<open>Rpc\<close> (\<open>rpc.py\<close>): server, client, round-robin and retrying client. A call over the in-memory queue returns
  what the method returned or raises what it raised; a retried call makes at most \<open>max_retries + 1\<close> attempts.

  \<^item> \<open>Tcp_Framing\<close>, \<open>Tcp_Transport\<close>, \<open>Tcp_Queue\<close> (\<open>transports/tcp.py\<close>): length-prefixed frames are read back whatever
  chunks the socket gives; a client's messages reach the server's subscribers in order; the tables refine a
  list of subscriptions.

  \<^item> \<open>Redis_Transport\<close>, \<open>Nats_Transport\<close> (\<open>transports/redis.py\<close>, \<open>transports/nats.py\<close>): the reference counts of
  patterns are exact; how often a message is delivered when subscriptions overlap. \<open>Nats_Loop\<close> has the private event loop of the
  NATS transport with any number of calling threads (\<open>work_step\<close>, \<open>call_step\<close>): what all interleavings keep, the deadlock
  between \<open>receive\<close> and an incoming message, and that it is the only one.

  \<^item> \<open>Remote_Queue\<close> (\<open>remote.py\<close>): no TCP link is leaked; a broadcast reaches every peer.

  \<^item> \<open>Worker\<close> (\<open>worker.py\<close>): which modules are served, what the connected clients get for the requests they send
  (frames, transport, queue, server and handlers together), and how the process ends.

  \<^item> \<open>Rpc_Over_Tcp\<close>: the client side of the same exchange (\<open>rpc.py\<close> over \<open>TCPClientTransport\<close>), joined with the
  worker's: a call returns or raises what the worker's function did, whatever chunks the two streams are cut in.

  \<^item> \<open>Async_Receive\<close>, \<open>Async_Calls\<close> (the \<open>async\<close> functions of the transports, \<open>queue.py\<close>, \<open>rpc.py\<close>, \<open>executor.py\<close>): the
  locale \<open>fifo_topic\<close> is what \<open>receive_async\<close> relies on in a topic's queue, interpreted for the four transports. What it
  returns on every branch, that it waits at most a second, which message it loses; what \<open>call_async\<close> then gives.

  \<^item> \<open>Sessions\<close>: the \<open>with\<close> statements over executors, queues, servers and remote queues, and calls by attribute on
  the RPC clients. No TCP link outlives the statement that opened it.

  \<^item> \<open>Logfire_Meter\<close> (\<open>integrations/logfire.py\<close>): the meter with its handle of the library, the metric logger; every span
  entered is exited once, and which span is lost when a context starts twice.

  \<^bold>\<open>Termination and bounds.\<close> No definition of the code has fuel. \<open>recv_loop\<close> and \<open>read_loop\<close> end because every
  round takes bytes (the measures are the bytes to read and the bytes left in the stream); \<open>dispatch_pending\<close>
  ends with the pending messages; \<open>retry_attempts\<close> runs over the attempts of \<open>range\<close>. \<open>recv_msgs\<close>, a function of the
  specification, takes the number of messages to read. Loops that wait for other threads (\<open>serve\<close>, \<open>_listen\<close>,
  \<open>_accept_loop\<close>, \<open>_reaper_loop\<close>) are given as the sequence of events they meet.

  \<^bold>\<open>Parameters.\<close> Code outside \<open>src\<close> is a parameter: the \<open>redis\<close>, \<open>nats\<close> and \<open>logfire\<close> clients (their calls), pydantic
  and JSON (\<open>rpc_codec\<close>, the encoders \<open>enc\<close> and decoders \<open>dec\<close>, with the round trip as a hypothesis where a
  theorem needs it), sockets (\<open>sendall\<close>, the chunks of \<open>recv\<close>), user functions.

  \<^bold>\<open>Not modelled.\<close> Thread start and join, \<open>__repr__\<close>, the formatting of
  floats and command line parsing are left out: they have no effect on the state the properties are about.
  The \<open>logging\<close> module is the list of lines given to it; log lines of the library about itself are dropped. Rounding of
  floats is not modelled. The memory model is sequential consistency per locked block. The examples and
  benchmarks use the library and add nothing to it.

  \<^bold>\<open>Plan.\<close> The components above are modelled. Left to extend: the RPC server's asynchronous handlers over
  TCP.
\<close>

end
